(* ===== verification/Prelude.thy ===== *)
theory Prelude
  imports Main "HOL-Library.Word"
begin

text \<open>
  Shared vocabulary of the development: the machine integers of the Go code, the outcome of a
  Go call (a value, an error value, a panic, or no return), loops over slices that stop at the
  first failure, little-endian encoding, and the word and list lemmas the components share.
  \<^item> \<open>go_simps\<close> collects the equations of the outcome combinators;
  \<^item> \<open>word_nat\<close> collects the equations that move word arithmetic to \<open>nat\<close>.
\<close>

unbundle bit_operations_syntax

named_theorems go_simps
named_theorems word_nat

section \<open>Machine integers\<close>

type_synonym u8 = "8 word"
type_synonym u16 = "16 word"
type_synonym u32 = "32 word"
type_synonym u64 = "64 word"

text \<open>Go's \<open>int\<close> and \<open>int64\<close> on the 64-bit targets: two's complement, read by \<open>sint\<close>.\<close>

type_synonym i64 = "64 word"
type_synonym bytes = "8 word list"

lemma unat_bound: "unat (w :: 'w::len word) < 2 ^ LENGTH('w)"
  by (rule unsigned_less)

lemma unat_bound64: "unat (w :: 64 word) < 18446744073709551616"
  using unat_bound[of w] by simp

lemma unat_of_nat64: "n < 18446744073709551616 \<Longrightarrow> unat (of_nat n :: u64) = n"
  by (simp add: unat_of_nat)

section \<open>Outcomes of Go calls\<close>

text \<open>
  A run-time panic, or a fault of the process: both end the call without a result.
\<close>

datatype panic =
    SegFault "64 word"      \<comment> \<open>access to an address that is not mapped for it\<close>
  | NilPointer              \<comment> \<open>use of a nil pointer or a nil interface\<close>
  | DivideByZero
  | IndexOutOfRange
  | UnsafeSliceLen          \<comment> \<open>the length check of \<open>unsafe.Slice\<close>\<close>
  | MakeSliceLen            \<comment> \<open>the length check of \<open>make([]byte, n)\<close>\<close>
  | NativePanic             \<comment> \<open>a panic raised while calling a native function\<close>

text \<open>
  \<open>Ok\<close> is a return with a nil error, \<open>Err\<close> a return with an error value, \<open>Panic\<close> a panic or a
  fault, \<open>Hang\<close> a call that never returns.
\<close>

datatype ('e, 'a) result = Ok 'a | Err 'e | Panic panic | Hang

primrec bindR :: "('e, 'a) result \<Rightarrow> ('a \<Rightarrow> ('e, 'b) result) \<Rightarrow> ('e, 'b) result" where
  "bindR (Ok x) f = f x"
| "bindR (Err e) f = Err e"
| "bindR (Panic p) f = Panic p"
| "bindR Hang f = Hang"

text \<open>Wrapping an error (\<open>fmt.Errorf\<close> with \<open>%w\<close>); values, panics and hangs pass through.\<close>

primrec mapErr :: "('e \<Rightarrow> 'f) \<Rightarrow> ('e, 'a) result \<Rightarrow> ('f, 'a) result" where
  "mapErr g (Ok x) = Ok x"
| "mapErr g (Err e) = Err (g e)"
| "mapErr g (Panic p) = Panic p"
| "mapErr g Hang = Hang"

primrec returns :: "('e, 'a) result \<Rightarrow> bool" where
  "returns (Ok x) = True"
| "returns (Err e) = True"
| "returns (Panic p) = False"
| "returns Hang = False"

text \<open>A loop over a slice that threads a value and returns at the first failure.\<close>

primrec forR :: "('a \<Rightarrow> 's \<Rightarrow> ('e, 's) result) \<Rightarrow> 'a list \<Rightarrow> 's \<Rightarrow> ('e, 's) result" where
  "forR f [] s = Ok s"
| "forR f (x # xs) s = bindR (f x s) (forR f xs)"

declare bindR.simps [go_simps] mapErr.simps [go_simps] returns.simps [go_simps] forR.simps [go_simps]

lemma bindR_eq_Ok [simp]: "bindR r f = Ok y \<longleftrightarrow> (\<exists>x. r = Ok x \<and> f x = Ok y)"
  by (cases r) auto

lemma mapErr_eq_Ok [simp]: "mapErr g r = Ok y \<longleftrightarrow> r = Ok y"
  by (cases r) auto

lemma bindR_assoc: "bindR (bindR r f) g = bindR r (\<lambda>x. bindR (f x) g)"
  by (cases r) auto

lemma forR_append: "forR f (xs @ ys) s = bindR (forR f xs s) (forR f ys)"
proof (induction xs arbitrary: s)
  case Nil
  then show ?case by simp
next
  case (Cons x xs)
  then have "forR f (xs @ ys) = (\<lambda>t. bindR (forR f xs t) (forR f ys))"
    by (intro ext)
  then show ?case by (simp add: bindR_assoc)
qed

text \<open>An invariant of the loop body is an invariant of the loop.\<close>

lemma forR_invariant:
  assumes "forR f xs s = Ok s'" and "P s"
    and "\<And>x t t'. x \<in> set xs \<Longrightarrow> P t \<Longrightarrow> f x t = Ok t' \<Longrightarrow> P t'"
  shows "P s'"
  using assms by (induction xs arbitrary: s) auto

text \<open>A body that always succeeds under the invariant makes the loop succeed.\<close>

lemma forR_total:
  assumes "P s" and "\<And>x t. x \<in> set xs \<Longrightarrow> P t \<Longrightarrow> \<exists>t'. f x t = Ok t' \<and> P t'"
  shows "\<exists>s'. forR f xs s = Ok s' \<and> P s'"
  using assms
proof (induction xs arbitrary: s)
  case Nil
  then show ?case by simp
next
  case (Cons x xs)
  obtain t where "f x s = Ok t" and "P t"
    using Cons.prems(1) Cons.prems(2)[of x s] by auto
  with Cons.IH[of t] Cons.prems(2) show ?case by auto
qed

text \<open>A loop of checks.\<close>

lemma forR_check: "forR (\<lambda>x _. c x) xs () = Ok () \<longleftrightarrow> list_all (\<lambda>x. c x = Ok ()) xs"
  by (induction xs) auto

section \<open>Maps\<close>

lemma map_add_rev_Cons: "m ++ map_of (rev xs @ [(k, v)]) = m(k \<mapsto> v) ++ map_of (rev xs)"
  by (auto simp: map_add_def fun_eq_iff split: option.splits)

section \<open>Calls that change state\<close>

text \<open>
  A call on a state \<open>'s\<close> gives an outcome and the state it leaves, also when it fails. \<open>forS\<close> is a
  loop that threads a local value and stops at the first failure.
\<close>

type_synonym ('s, 'e, 'a) st = "'s \<Rightarrow> ('e, 'a) result \<times> 's"

definition retS :: "'a \<Rightarrow> ('s, 'e, 'a) st" where
  "retS x = (\<lambda>s. (Ok x, s))"

definition failS :: "'e \<Rightarrow> ('s, 'e, 'a) st" where
  "failS e = (\<lambda>s. (Err e, s))"

definition liftS :: "('e, 'a) result \<Rightarrow> ('s, 'e, 'a) st" where
  "liftS r = (\<lambda>s. (r, s))"

definition bindS :: "('s, 'e, 'a) st \<Rightarrow> ('a \<Rightarrow> ('s, 'e, 'b) st) \<Rightarrow> ('s, 'e, 'b) st" where
  "bindS m f = (\<lambda>s. case m s of (r, t) \<Rightarrow>
     (case r of Ok x \<Rightarrow> f x t | Err e \<Rightarrow> (Err e, t) | Panic p \<Rightarrow> (Panic p, t) | Hang \<Rightarrow> (Hang, t)))"

definition mapErrS :: "('e \<Rightarrow> 'f) \<Rightarrow> ('s, 'e, 'a) st \<Rightarrow> ('s, 'f, 'a) st" where
  "mapErrS g m = (\<lambda>s. case m s of (r, t) \<Rightarrow> (mapErr g r, t))"

primrec forS :: "('a \<Rightarrow> 'x \<Rightarrow> ('s, 'e, 'x) st) \<Rightarrow> 'a list \<Rightarrow> 'x \<Rightarrow> ('s, 'e, 'x) st" where
  "forS f [] x = retS x"
| "forS f (a # as) x = bindS (f a x) (forS f as)"

lemmas st_defs = retS_def failS_def liftS_def bindS_def mapErrS_def

text \<open>\<open>keeps P m\<close>: whatever \<open>m\<close> returns, the state it leaves satisfies \<open>P\<close> if the first one did.\<close>

definition keeps :: "('s \<Rightarrow> bool) \<Rightarrow> ('s, 'e, 'a) st \<Rightarrow> bool" where
  "keeps P m \<longleftrightarrow> (\<forall>s. P s \<longrightarrow> P (snd (m s)))"

named_theorems keeps_intros

lemma keepsD: "keeps P m \<Longrightarrow> P s \<Longrightarrow> m s = (r, t) \<Longrightarrow> P t"
  by (metis keeps_def snd_conv)

lemma keeps_ret [keeps_intros]: "keeps P (retS x)"
  and keeps_fail [keeps_intros]: "keeps P (failS e)"
  and keeps_lift [keeps_intros]: "keeps P (liftS r)"
  by (simp_all add: keeps_def st_defs)

lemma keeps_bind [keeps_intros]:
  "keeps P m \<Longrightarrow> (\<And>x. keeps P (f x)) \<Longrightarrow> keeps P (bindS m f)"
  unfolding keeps_def bindS_def by (fastforce split: prod.splits result.splits)

lemma keeps_mapErr [keeps_intros]: "keeps P m \<Longrightarrow> keeps P (mapErrS g m)"
  unfolding keeps_def mapErrS_def by (fastforce split: prod.splits)

lemma keeps_for [keeps_intros]:
  "(\<And>a x. keeps P (f a x)) \<Longrightarrow> keeps P (forS f as x)"
  by (induction as arbitrary: x) (auto intro!: keeps_intros)

lemma keeps_if [keeps_intros]: "keeps P a \<Longrightarrow> keeps P b \<Longrightarrow> keeps P (if c then a else b)"
  by simp

lemma bindS_eq_Ok: "bindS m f s = (Ok y, u) \<longleftrightarrow> (\<exists>x t. m s = (Ok x, t) \<and> f x t = (Ok y, u))"
  by (auto simp: bindS_def split: prod.splits result.splits)

lemma mapErrS_eq_Ok: "mapErrS g m s = (Ok y, u) \<longleftrightarrow> m s = (Ok y, u)"
  by (auto simp: mapErrS_def split: prod.splits)

lemma retS_eq_Ok: "retS x s = (Ok y, u) \<longleftrightarrow> x = y \<and> u = s"
  by (auto simp: retS_def)

lemma liftS_eq_Ok: "liftS r s = (Ok y, u) \<longleftrightarrow> r = Ok y \<and> u = s"
  by (auto simp: liftS_def)

lemma failS_eq_Ok: "failS e s = (Ok y, u) \<longleftrightarrow> False"
  by (auto simp: failS_def)

lemmas st_Ok = bindS_eq_Ok mapErrS_eq_Ok retS_eq_Ok liftS_eq_Ok failS_eq_Ok

section \<open>Strings and bytes\<close>

text \<open>
  Go strings are byte strings; they are HOL strings here, one \<open>char\<close> for one byte.
\<close>

definition chr :: "8 word \<Rightarrow> char" where
  "chr b = char_of (unat b)"

definition ord :: "char \<Rightarrow> 8 word" where
  "ord c = word_of_nat (of_char c)"

lemma of_char_less_256 [simp]: "(of_char c :: nat) < 256"
proof -
  have "(of_char c :: nat) = of_char c mod 256" by simp
  then show ?thesis by (metis mod_less_divisor zero_less_numeral)
qed

lemma chr_ord [simp]: "chr (ord c) = c"
proof -
  have "unat (ord c) = of_char c"
    by (simp add: ord_def unat_of_nat)
  then show ?thesis by (simp add: chr_def)
qed

lemma ord_chr [simp]: "ord (chr b) = b"
proof -
  have "unat b < 256" using unsigned_less[of b] by simp
  then have "(of_char (chr b) :: nat) = unat b" by (simp add: chr_def)
  then show ?thesis by (simp add: ord_def)
qed

lemma ord_inject [simp]: "ord c = ord d \<longleftrightarrow> c = d"
  by (metis chr_ord)

lemma ord_eq_0 [simp]: "ord c = 0 \<longleftrightarrow> c = CHR 0x00"
proof -
  have "ord (CHR 0x00) = 0" by (simp add: ord_def)
  then show ?thesis using ord_inject[of c "CHR 0x00"] by simp
qed

lemma inj_chr [simp]: "inj chr"
  by (rule inj_on_inverseI[of _ ord]) simp


section \<open>Little-endian integers\<close>

primrec le_nat :: "bytes \<Rightarrow> nat" where
  "le_nat [] = 0"
| "le_nat (b # bs) = unat b + 256 * le_nat bs"

primrec le_enc :: "nat \<Rightarrow> nat \<Rightarrow> bytes" where
  "le_enc 0 v = []"
| "le_enc (Suc n) v = word_of_nat v # le_enc n (v div 256)"

definition le_word :: "bytes \<Rightarrow> 'w::len word" where
  "le_word bs = word_of_nat (le_nat bs)"

lemma length_le_enc [simp]: "length (le_enc n v) = n"
  by (induction n arbitrary: v) auto

lemma le_enc_zero [simp]: "le_enc n 0 = replicate n 0"
  by (induction n) auto

lemma le_nat_append: "le_nat (xs @ ys) = le_nat xs + 256 ^ length xs * le_nat ys"
  by (induction xs) (auto simp: algebra_simps)

lemma le_nat_less: "le_nat bs < 256 ^ length bs"
proof (induction bs)
  case Nil
  then show ?case by simp
next
  case (Cons b bs)
  have "unat b < 256" using unsigned_less[of b] by simp
  with Cons show ?case by simp
qed

lemma le_nat_replicate_zero [simp]: "le_nat (replicate n 0) = 0"
  by (induction n) auto

lemma le_nat_enc: "le_nat (le_enc n v) = v mod 256 ^ n"
proof (induction n arbitrary: v)
  case 0
  then show ?case by simp
next
  case (Suc n)
  have "unat (word_of_nat v :: 8 word) = v mod 256"
    by (simp add: unat_of_nat)
  with Suc show ?case by (simp add: mod_mult2_eq)
qed

lemma le_word_enc:
  fixes w :: "'w::len word"
  assumes "LENGTH('w) = 8 * n"
  shows "le_word (le_enc n (unat w)) = w"
proof -
  have "unat w < 256 ^ n"
    using unsigned_less[of w] assms by (simp add: power_mult)
  then show ?thesis by (simp add: le_word_def le_nat_enc)
qed

lemma le_enc_nat: "length bs = n \<Longrightarrow> le_enc n (le_nat bs) = bs"
proof (induction bs arbitrary: n)
  case Nil
  then show ?case by simp
next
  case (Cons b bs)
  have b: "unat b < 256" using unsigned_less[of b] by simp
  have "(of_nat (unat b + 256 * le_nat bs) :: 8 word) = b + of_nat 256 * of_nat (le_nat bs)"
    by simp
  also have "(of_nat 256 :: 8 word) = 0" by simp
  finally have "(of_nat (unat b + 256 * le_nat bs) :: 8 word) = b" by simp
  with b Cons show ?case by auto
qed

section \<open>Rounding to a power of two\<close>

text \<open>
  The Go code rounds with \<open>v &^ (p - 1)\<close> and \<open>(v + p - 1) &^ (p - 1)\<close>, where \<open>p\<close> is a power of two.
\<close>

lemma and_not_mask_push_drop: "(v :: 'w::len word) AND NOT (mask k) = push_bit k (drop_bit k v)"
  by (rule bit_eqI) (auto simp: bit_simps)

lemma unat_and_not_mask:
  "unat ((v :: 'w::len word) AND NOT (mask k)) = unat v div 2 ^ k * 2 ^ k"
proof -
  have "unat (push_bit k (drop_bit k v)) = take_bit LENGTH('w) (push_bit k (unat (drop_bit k v)))"
    by (simp add: unsigned_push_bit_eq)
  also have "push_bit k (unat (drop_bit k v)) = unat v div 2 ^ k * 2 ^ k"
    by (simp only: unat_drop_bit_eq push_bit_eq_mult drop_bit_eq_div[of k "unat v"])
  also have "take_bit LENGTH('w) (unat v div 2 ^ k * 2 ^ k) = unat v div 2 ^ k * 2 ^ k"
  proof -
    have "unat v div 2 ^ k * 2 ^ k \<le> unat v" by (rule div_times_less_eq_dividend)
    then have "unat v div 2 ^ k * 2 ^ k < 2 ^ LENGTH('w)"
      using unat_bound[of v] by linarith
    then show ?thesis by (simp add: take_bit_nat_eq_self)
  qed
  finally show ?thesis by (simp add: and_not_mask_push_drop)
qed

lemma div_round_up_ge:
  assumes "0 < p"
  shows "n \<le> (n + (p - 1)) div p * (p :: nat)"
proof -
  have "n + (p - 1) = (n + (p - 1)) div p * p + (n + (p - 1)) mod p" by simp
  moreover have "(n + (p - 1)) mod p < p" using assms by (rule mod_less_divisor)
  ultimately show ?thesis by linarith
qed

lemma unat_add_no_wrap: "unat (a::u64) + unat b < 2 ^ 64 \<Longrightarrow> unat (a + b) = unat a + unat b"
  by (simp add: unat_plus_if')

lemma sint_nonneg:
  assumes "0 \<le> sint (w :: u64)"
  shows "sint w = int (unat w)"
proof -
  have "uint w = take_bit 64 (sint w)" using uint_sint[of w] by simp
  also have "\<dots> = sint w"
    using assms sint_lt[of w] by (intro take_bit_int_eq_self) auto
  finally show ?thesis by simp
qed

lemma sint_small:
  assumes "unat (w :: u64) < 9223372036854775808"
  shows "sint w = int (unat w)"
proof -
  have "int (unat w) < int 9223372036854775808" using assms by (rule iffD2[OF of_nat_less_iff])
  then have "uint w < 2 ^ 63" by simp
  then have "signed_take_bit 63 (uint w) = uint w"
    by (intro signed_take_bit_int_eq_self) (simp_all add: order_trans[of _ 0])
  then show ?thesis by (simp add: sint_uint)
qed

lemma sint_large:
  assumes "9223372036854775808 \<le> unat (w :: u64)"
  shows "sint w < 0"
proof (rule ccontr)
  assume "\<not> sint w < 0"
  then have "sint w = int (unat w)" by (intro sint_nonneg) simp
  then have "int (unat w) < 2 ^ 63" using sint_lt[of w] by simp
  moreover have "int 9223372036854775808 \<le> int (unat w)" using assms by (rule iffD2[OF of_nat_le_iff])
  ultimately show False by simp
qed

lemma unat_minus_one_64: "unat (- 1 :: u64) = 18446744073709551615"
  by (simp add: unsigned_minus_1_eq_mask mask_eq_exp_minus_1)

lemma round_up_word:
  fixes v :: u64
  assumes "k < 64" and "unat v + (2 ^ k - 1) < 2 ^ 64"
  shows "unat ((v + mask k) AND NOT (mask k)) = (unat v + (2 ^ k - 1)) div 2 ^ k * 2 ^ k"
proof -
  have "mask k < (18446744073709551616 :: nat)"
    using power_strict_increasing[of k 64 "2 :: nat"] assms(1) by (simp add: mask_eq_exp_minus_1)
  then have "unat (of_nat (mask k) :: u64) = mask k" by (rule unat_of_nat64)
  then have "unat (mask k :: u64) = mask k" by (simp only: of_nat_mask_eq)
  then have m: "unat (mask k :: u64) = 2 ^ k - 1" by (rule trans) (rule mask_eq_exp_minus_1)
  have "unat (v + mask k) = unat v + (2 ^ k - 1)"
    using assms(2) by (simp add: unat_add_no_wrap m)
  then show ?thesis by (simp only: unat_and_not_mask)
qed

text \<open>
  The contract of a round-up function on 64-bit values: where adding \<open>page - 1\<close> does not wrap, the
  result is the next multiple. Every rounding function of the code is an instance.
\<close>

locale round_up =
  fixes up :: "64 word \<Rightarrow> 64 word" and page :: nat
  assumes page_pos: "0 < page"
    and up_nat: "unat v + (page - 1) < 2 ^ 64 \<Longrightarrow> unat (up v) = (unat v + (page - 1)) div page * page"
begin

lemma up_ge: "unat v + (page - 1) < 2 ^ 64 \<Longrightarrow> unat v \<le> unat (up v)"
proof -
  assume *: "unat v + (page - 1) < 2 ^ 64"
  have "unat v + (page - 1) = (unat v + (page - 1)) div page * page + (unat v + (page - 1)) mod page"
    by simp
  moreover have "(unat v + (page - 1)) mod page \<le> page - 1"
    using page_pos mod_less_divisor[of page "unat v + (page - 1)"] by linarith
  ultimately have "unat v \<le> (unat v + (page - 1)) div page * page" by linarith
  with * show ?thesis by (simp only: up_nat)
qed

lemma up_dvd: "unat v + (page - 1) < 2 ^ 64 \<Longrightarrow> page dvd unat (up v)"
  by (simp only: up_nat dvd_triv_right)

lemma up_less: "unat v + (page - 1) < 2 ^ 64 \<Longrightarrow> unat (up v) < unat v + page"
proof -
  assume *: "unat v + (page - 1) < 2 ^ 64"
  have "(unat v + (page - 1)) div page * page \<le> unat v + (page - 1)"
    by (rule div_times_less_eq_dividend)
  with * page_pos show ?thesis by (simp only: up_nat)
qed

lemma up_least:
  assumes "unat v + (page - 1) < 2 ^ 64" and "page dvd n" and "unat v \<le> n"
  shows "unat (up v) \<le> n"
proof -
  obtain q where q: "n = page * q" using assms(2) by (rule dvdE)
  obtain r where r: "unat (up v) = page * r" using up_dvd[OF assms(1)] by (rule dvdE)
  have "page * r < page * (q + 1)"
    using up_less[OF assms(1)] assms(3) q r by simp
  then have "r < q + 1" by (rule mult_less_cancel1[THEN iffD1, THEN conjunct2])
  then have "r \<le> q" by simp
  with q r show ?thesis by simp
qed

lemma up_fix: "unat v + (page - 1) < 2 ^ 64 \<Longrightarrow> page dvd unat v \<Longrightarrow> up v = v"
  using up_least[of v "unat v"] up_ge[of v] by (simp add: word_unat_eq_iff)

end

end
