(* ===== verification/Machine.thy ===== *)
theory Machine
  imports Prelude
begin

text \<open>
  The process memory the loader works on, byte by byte: contents, and per address the protection
  bits of the mapping that covers it (none where nothing is mapped). A load or store that the
  protection does not allow is a fault. Loads and stores are little-endian at their Go width.
\<close>

unbundle bit_operations_syntax

record memory =
  mbytes :: "64 word \<Rightarrow> 8 word"
  mprot :: "64 word \<Rightarrow> 64 word option"

text \<open>\<open>x\<close> is one of the \<open>n\<close> addresses from \<open>a\<close> on (addresses wrap, as pointers do).\<close>

definition in_region :: "u64 \<Rightarrow> nat \<Rightarrow> u64 \<Rightarrow> bool" where
  "in_region a n x \<longleftrightarrow> unat (x - a) < n"

definition readable :: "memory \<Rightarrow> u64 \<Rightarrow> bool" where
  "readable m x = (case mprot m x of None \<Rightarrow> False | Some p \<Rightarrow> p AND 1 \<noteq> 0)"

definition writable :: "memory \<Rightarrow> u64 \<Rightarrow> bool" where
  "writable m x = (case mprot m x of None \<Rightarrow> False | Some p \<Rightarrow> p AND 2 \<noteq> 0)"

definition all_readable :: "memory \<Rightarrow> u64 \<Rightarrow> nat \<Rightarrow> bool" where
  "all_readable m a n = list_all (\<lambda>i. readable m (a + of_nat i)) [0..<n]"

definition all_writable :: "memory \<Rightarrow> u64 \<Rightarrow> nat \<Rightarrow> bool" where
  "all_writable m a n = list_all (\<lambda>i. writable m (a + of_nat i)) [0..<n]"

section \<open>Loads\<close>

definition peek :: "memory \<Rightarrow> u64 \<Rightarrow> nat \<Rightarrow> bytes" where
  "peek m a n = map (\<lambda>i. mbytes m (a + of_nat i)) [0..<n]"

definition rd_bytes :: "memory \<Rightarrow> u64 \<Rightarrow> nat \<Rightarrow> ('e, bytes) result" where
  "rd_bytes m a n =
     (case find (\<lambda>i. \<not> readable m (a + of_nat i)) [0..<n] of
        Some i \<Rightarrow> Panic (SegFault (a + of_nat i))
      | None \<Rightarrow> Ok (peek m a n))"

definition rd8 :: "memory \<Rightarrow> u64 \<Rightarrow> ('e, u8) result" where
  "rd8 m a = bindR (rd_bytes m a 1) (\<lambda>bs. Ok (le_word bs))"

definition rd16 :: "memory \<Rightarrow> u64 \<Rightarrow> ('e, u16) result" where
  "rd16 m a = bindR (rd_bytes m a 2) (\<lambda>bs. Ok (le_word bs))"

definition rd32 :: "memory \<Rightarrow> u64 \<Rightarrow> ('e, u32) result" where
  "rd32 m a = bindR (rd_bytes m a 4) (\<lambda>bs. Ok (le_word bs))"

definition rd64 :: "memory \<Rightarrow> u64 \<Rightarrow> ('e, u64) result" where
  "rd64 m a = bindR (rd_bytes m a 8) (\<lambda>bs. Ok (le_word bs))"

text \<open>
  \<open>unsafe.Slice(ptr, n)\<close> for elements of \<open>sz\<close> bytes: the slice header, or a panic where the length is
  negative as an \<open>int\<close> or the slice would wrap around the address space (a nil pointer allows no
  element). Elements are loaded when they are used.
\<close>

definition unsafeSlice :: "u64 \<Rightarrow> u64 \<Rightarrow> nat \<Rightarrow> ('e, u64 \<times> u64) result" where
  "unsafeSlice ptr n sz =
     (if 9223372036854775808 \<le> unat n \<or> (if ptr = 0 then 0 else 18446744073709551616 - unat ptr) < sz * unat n
      then Panic UnsafeSliceLen else Ok (ptr, n))"

section \<open>Stores\<close>

definition store :: "(u64 \<Rightarrow> u8) \<Rightarrow> u64 \<Rightarrow> bytes \<Rightarrow> u64 \<Rightarrow> u8" where
  "store f a bs = (\<lambda>x. if unat (x - a) < length bs then bs ! unat (x - a) else f x)"

definition wr_bytes :: "memory \<Rightarrow> u64 \<Rightarrow> bytes \<Rightarrow> ('e, memory) result" where
  "wr_bytes m a bs =
     (case find (\<lambda>i. \<not> writable m (a + of_nat i)) [0..<length bs] of
        Some i \<Rightarrow> Panic (SegFault (a + of_nat i))
      | None \<Rightarrow> Ok (m\<lparr>mbytes := store (mbytes m) a bs\<rparr>))"

definition wr32 :: "memory \<Rightarrow> u64 \<Rightarrow> u32 \<Rightarrow> ('e, memory) result" where
  "wr32 m a v = wr_bytes m a (le_enc 4 (unat v))"

definition wr64 :: "memory \<Rightarrow> u64 \<Rightarrow> u64 \<Rightarrow> ('e, memory) result" where
  "wr64 m a v = wr_bytes m a (le_enc 8 (unat v))"

section \<open>Laws of loads and stores\<close>

lemma in_region_offset: "i < n \<Longrightarrow> n \<le> 18446744073709551616 \<Longrightarrow> in_region a n (a + of_nat i)"
  by (simp add: in_region_def unat_of_nat64)

lemma in_region_iff: "in_region a n x \<longleftrightarrow> (\<exists>i<n. i < 18446744073709551616 \<and> x = a + of_nat i)"
proof
  assume "in_region a n x"
  then have "unat (x - a) < n" by (simp add: in_region_def)
  moreover have "x = a + of_nat (unat (x - a))" by simp
  ultimately show "\<exists>i<n. i < 18446744073709551616 \<and> x = a + of_nat i" using unat_bound64 by blast
next
  assume "\<exists>i<n. i < 18446744073709551616 \<and> x = a + of_nat i"
  then show "in_region a n x" by (auto simp: in_region_def unat_of_nat64)
qed

text \<open>Where the region does not wrap, membership is the usual interval.\<close>

lemma in_region_interval:
  assumes "unat a + n \<le> 18446744073709551616"
  shows "in_region a n x \<longleftrightarrow> unat a \<le> unat x \<and> unat x < unat a + n"
proof (cases "a \<le> x")
  case True
  then have "unat (x - a) = unat x - unat a" by (simp add: unat_sub)
  with True show ?thesis by (auto simp: in_region_def word_le_nat_alt)
next
  case False
  then have less: "unat x < unat a" by (simp add: word_le_nat_alt)
  have "unat (x - a) = unat x + (18446744073709551616 - unat a)"
    using less unat_bound64[of a] by (simp add: unat_sub_if')
  with less assms show ?thesis by (auto simp: in_region_def)
qed

lemma all_readable_iff: "all_readable m a n \<longleftrightarrow> (\<forall>i<n. readable m (a + of_nat i))"
  by (auto simp: all_readable_def list_all_iff)

lemma all_writable_iff: "all_writable m a n \<longleftrightarrow> (\<forall>i<n. writable m (a + of_nat i))"
  by (auto simp: all_writable_def list_all_iff)

lemma find_upt_None: "find P [0..<n] = None \<longleftrightarrow> (\<forall>i<n. \<not> P i)"
  by (auto simp: find_None_iff)

lemma rd_bytes_Ok_iff: "rd_bytes m a n = Ok bs \<longleftrightarrow> all_readable m a n \<and> bs = peek m a n"
  by (auto simp: rd_bytes_def all_readable_iff find_upt_None split: option.splits)
     (auto simp: find_Some_iff)

lemma rd_bytes_Ok [simp]: "all_readable m a n \<Longrightarrow> rd_bytes m a n = Ok (peek m a n)"
  by (simp add: rd_bytes_Ok_iff)

lemma wr_bytes_Ok_iff:
  "wr_bytes m a bs = Ok m' \<longleftrightarrow> all_writable m a (length bs) \<and> m' = m\<lparr>mbytes := store (mbytes m) a bs\<rparr>"
  by (auto simp: wr_bytes_def all_writable_iff find_upt_None split: option.splits)
     (auto simp: find_Some_iff)

lemma peek_0 [simp]: "peek m a 0 = []"
  by (simp add: peek_def)

lemma peek_Suc: "peek m a (Suc n) = mbytes m a # peek m (a + 1) n"
proof -
  have "peek m a (Suc n) = map (\<lambda>i. mbytes m (a + of_nat i)) (0 # map Suc [0..<n])"
    by (simp only: peek_def upt_conv_Cons[OF zero_less_Suc] map_Suc_upt)
  then show ?thesis by (simp add: peek_def add.assoc)
qed

lemma all_readable_Suc: "all_readable m a (Suc n) \<longleftrightarrow> readable m a \<and> all_readable m (a + 1) n"
proof -
  have "all_readable m a (Suc n) = list_all (\<lambda>i. readable m (a + of_nat i)) (0 # map Suc [0..<n])"
    by (simp only: all_readable_def upt_conv_Cons[OF zero_less_Suc] map_Suc_upt)
  then show ?thesis by (simp add: all_readable_def list.pred_map comp_def add.assoc)
qed

lemma peek_append: "peek m a (i + j) = peek m a i @ peek m (a + of_nat i) j"
  by (induction i arbitrary: a) (simp_all add: peek_Suc add.assoc)

lemma peek_numeral: "peek m a (numeral k) = mbytes m a # peek m (a + 1) (pred_numeral k)"
  by (simp only: numeral_eq_Suc peek_Suc)

lemma rd8_Ok [simp]: "readable m a \<Longrightarrow> rd8 m a = Ok (mbytes m a)"
  by (simp add: rd8_def rd_bytes_Ok_iff all_readable_iff peek_def le_word_def)

lemma rd8_fault: "\<not> readable m a \<Longrightarrow> rd8 m a = Panic (SegFault a)"
  by (simp add: rd8_def rd_bytes_def)

lemma rd_bytes_fault: "\<not> readable m a \<Longrightarrow> 0 < n \<Longrightarrow> rd_bytes m a n = Panic (SegFault a)"
  by (simp add: rd_bytes_def upt_conv_Cons)

lemma rd16_fault: "\<not> readable m a \<Longrightarrow> rd16 m a = Panic (SegFault a)"
  and rd32_fault: "\<not> readable m a \<Longrightarrow> rd32 m a = Panic (SegFault a)"
  and rd64_fault: "\<not> readable m a \<Longrightarrow> rd64 m a = Panic (SegFault a)"
  by (simp_all add: rd16_def rd32_def rd64_def rd_bytes_fault)

lemma length_peek [simp]: "length (peek m a n) = n"
  by (simp add: peek_def)

lemma peek_cong:
  "(\<And>i. i < n \<Longrightarrow> mbytes m (a + of_nat i) = mbytes m' (a + of_nat i)) \<Longrightarrow> peek m a n = peek m' a n"
  by (simp add: peek_def)

lemma store_outside: "\<not> in_region a (length bs) x \<Longrightarrow> store f a bs x = f x"
  by (simp add: store_def in_region_def)

lemma store_at: "i < length bs \<Longrightarrow> i < 18446744073709551616 \<Longrightarrow> store f a bs (a + of_nat i) = bs ! i"
  by (simp add: store_def unat_of_nat64)

lemma peek_store:
  assumes "length bs = n" and "n \<le> 18446744073709551616"
  shows "peek (m\<lparr>mbytes := store f a bs\<rparr>) a n = bs"
proof (rule nth_equalityI)
  show "length (peek (m\<lparr>mbytes := store f a bs\<rparr>) a n) = length bs" using assms by simp
next
  fix i
  assume "i < length (peek (m\<lparr>mbytes := store f a bs\<rparr>) a n)"
  with assms show "peek (m\<lparr>mbytes := store f a bs\<rparr>) a n ! i = bs ! i"
    by (simp add: peek_def store_at)
qed

lemma returns_rd_bytes: "returns (rd_bytes m a n) \<longleftrightarrow> all_readable m a n"
  by (auto simp: rd_bytes_def all_readable_iff find_upt_None split: option.splits)
     (auto simp: find_Some_iff)

section \<open>Memory that holds given bytes\<close>

text \<open>The bytes from \<open>a\<close> on are \<open>bs\<close>, mapped readable: how tables laid out in memory are described.\<close>

definition holds :: "memory \<Rightarrow> u64 \<Rightarrow> bytes \<Rightarrow> bool" where
  "holds m a bs \<longleftrightarrow> all_readable m a (length bs) \<and> peek m a (length bs) = bs"

lemma all_readable_append:
  "all_readable m a (i + j) \<longleftrightarrow> all_readable m a i \<and> all_readable m (a + of_nat i) j"
  by (induction i arbitrary: a) (simp_all add: all_readable_Suc all_readable_def[of m _ 0] add.assoc)

lemma holds_Nil [simp]: "holds m a []"
  by (simp add: holds_def all_readable_def)

lemma holds_append: "holds m a (xs @ ys) \<longleftrightarrow> holds m a xs \<and> holds m (a + of_nat (length xs)) ys"
  by (auto simp: holds_def all_readable_append peek_append)

lemma holds_Cons: "holds m a (b # bs) \<longleftrightarrow> readable m a \<and> mbytes m a = b \<and> holds m (a + 1) bs"
  by (auto simp: holds_def all_readable_Suc peek_Suc)

lemma holds_drop: "holds m a bs \<Longrightarrow> k \<le> length bs \<Longrightarrow> holds m (a + of_nat k) (drop k bs)"
  using holds_append[of m a "take k bs" "drop k bs"] by simp

lemma holds_take: "holds m a bs \<Longrightarrow> holds m a (take k bs)"
  using holds_append[of m a "take k bs" "drop k bs"] by simp

lemma holds_store:
  assumes "length bs \<le> 18446744073709551616" and "all_readable m a (length bs)"
  shows "holds (m\<lparr>mbytes := store f a bs\<rparr>) a bs"
  using assms by (simp add: holds_def peek_store all_readable_def readable_def)

lemma holds_rd16: "holds m a (le_enc 2 (unat v)) \<Longrightarrow> rd16 m a = Ok v"
  and holds_rd32: "holds m a (le_enc 4 (unat w)) \<Longrightarrow> rd32 m a = Ok w"
  and holds_rd64: "holds m a (le_enc 8 (unat x)) \<Longrightarrow> rd64 m a = Ok x"
  by (simp_all add: holds_def rd16_def rd32_def rd64_def le_word_enc)

lemma holds_rd8: "holds m a [b] \<Longrightarrow> rd8 m a = Ok b"
  by (simp add: holds_def rd8_def le_word_def)

section \<open>The contract of a memory cell of fixed width\<close>

text \<open>
  What the relocation code relies on when it writes a word: the store succeeds where every byte is
  writable, it reads back, and it changes nothing else.
\<close>

locale mem_cell =
  fixes rd :: "memory \<Rightarrow> 64 word \<Rightarrow> ('e, 'v) result"
    and wr :: "memory \<Rightarrow> 64 word \<Rightarrow> 'v \<Rightarrow> ('e, memory) result"
    and width :: nat
  assumes wr_defined: "all_writable m a width \<Longrightarrow> \<exists>m'. wr m a v = Ok m'"
    and wr_writable: "wr m a v = Ok m' \<Longrightarrow> all_writable m a width"
    and rd_wr: "wr m a v = Ok m' \<Longrightarrow> all_readable m a width \<Longrightarrow> rd m' a = Ok v"
    and wr_frame: "wr m a v = Ok m' \<Longrightarrow> \<not> in_region a width x \<Longrightarrow> mbytes m' x = mbytes m x"
    and wr_prot: "wr m a v = Ok m' \<Longrightarrow> mprot m' = mprot m"
    and rd_cong: "(\<And>i. i < width \<Longrightarrow> mbytes m (a + of_nat i) = mbytes m' (a + of_nat i)) \<Longrightarrow>
      mprot m = mprot m' \<Longrightarrow> rd m a = rd m' a"
begin

text \<open>A store leaves every disjoint cell as it was.\<close>

lemma rd_wr_disjoint:
  assumes w: "wr m a v = Ok m'" and d: "\<And>i. i < width \<Longrightarrow> \<not> in_region a width (b + of_nat i)"
  shows "rd m' b = rd m b"
  using wr_frame[OF w d] wr_prot[OF w] by (intro rd_cong) auto

text \<open>Two stores to disjoint cells both read back.\<close>

lemma rd_wr_wr:
  assumes w1: "wr m a v = Ok m1" and w2: "wr m1 b u = Ok m2"
    and r: "all_readable m a width"
    and d: "\<And>i. i < width \<Longrightarrow> \<not> in_region b width (a + of_nat i)"
  shows "rd m2 a = Ok v"
  using rd_wr_disjoint[OF w2 d] rd_wr[OF w1 r] by simp

end

lemma readable_mbytes_update [simp]: "readable (m\<lparr>mbytes := f\<rparr>) x = readable m x"
  by (simp add: readable_def)

lemma writable_mbytes_update [simp]: "writable (m\<lparr>mbytes := f\<rparr>) x = writable m x"
  by (simp add: writable_def)

lemma all_readable_mbytes_update [simp]: "all_readable (m\<lparr>mbytes := f\<rparr>) a n = all_readable m a n"
  by (simp add: all_readable_def)

lemma rd_bytes_cong:
  assumes "\<And>i. i < n \<Longrightarrow> mbytes m (a + of_nat i) = mbytes m' (a + of_nat i)" and "mprot m = mprot m'"
  shows "rd_bytes m a n = rd_bytes m' a n"
proof -
  have "readable m = readable m'" using assms(2) by (intro ext) (simp add: readable_def)
  moreover have "peek m a n = peek m' a n" by (rule peek_cong) (rule assms(1))
  ultimately show ?thesis by (simp add: rd_bytes_def split: option.split)
qed

text \<open>The 32-bit and the 64-bit accesses are cells.\<close>

interpretation cell32: mem_cell rd32 wr32 4
proof
  show "\<And>m a v. all_writable m a 4 \<Longrightarrow> \<exists>m'. wr32 m a v = Ok m'"
    by (simp add: wr32_def wr_bytes_Ok_iff)
  show "\<And>m a v m'. wr32 m a v = Ok m' \<Longrightarrow> all_writable m a 4"
    by (simp add: wr32_def wr_bytes_Ok_iff)
  show "\<And>m a v m'. wr32 m a v = Ok m' \<Longrightarrow> all_readable m a 4 \<Longrightarrow> rd32 m' a = Ok v"
    by (auto simp: wr32_def wr_bytes_Ok_iff rd32_def peek_store le_word_enc)
  show "\<And>m a v m' x. wr32 m a v = Ok m' \<Longrightarrow> \<not> in_region a 4 x \<Longrightarrow> mbytes m' x = mbytes m x"
    by (auto simp: wr32_def wr_bytes_Ok_iff store_outside)
  show "\<And>m a v m'. wr32 m a v = Ok m' \<Longrightarrow> mprot m' = mprot m"
    by (auto simp: wr32_def wr_bytes_Ok_iff)
  show "\<And>m a m'. (\<And>i. i < 4 \<Longrightarrow> mbytes m (a + of_nat i) = mbytes m' (a + of_nat i)) \<Longrightarrow>
      mprot m = mprot m' \<Longrightarrow> rd32 m a = rd32 m' a"
    by (simp add: rd32_def cong: rd_bytes_cong)
qed

interpretation cell64: mem_cell rd64 wr64 8
proof
  show "\<And>m a v. all_writable m a 8 \<Longrightarrow> \<exists>m'. wr64 m a v = Ok m'"
    by (simp add: wr64_def wr_bytes_Ok_iff)
  show "\<And>m a v m'. wr64 m a v = Ok m' \<Longrightarrow> all_writable m a 8"
    by (simp add: wr64_def wr_bytes_Ok_iff)
  show "\<And>m a v m'. wr64 m a v = Ok m' \<Longrightarrow> all_readable m a 8 \<Longrightarrow> rd64 m' a = Ok v"
    by (auto simp: wr64_def wr_bytes_Ok_iff rd64_def peek_store le_word_enc)
  show "\<And>m a v m' x. wr64 m a v = Ok m' \<Longrightarrow> \<not> in_region a 8 x \<Longrightarrow> mbytes m' x = mbytes m x"
    by (auto simp: wr64_def wr_bytes_Ok_iff store_outside)
  show "\<And>m a v m'. wr64 m a v = Ok m' \<Longrightarrow> mprot m' = mprot m"
    by (auto simp: wr64_def wr_bytes_Ok_iff)
  show "\<And>m a m'. (\<And>i. i < 8 \<Longrightarrow> mbytes m (a + of_nat i) = mbytes m' (a + of_nat i)) \<Longrightarrow>
      mprot m = mprot m' \<Longrightarrow> rd64 m a = rd64 m' a"
    by (simp add: rd64_def cong: rd_bytes_cong)
qed

end
