(* ===== verification/Sym_String.thy ===== *)
theory Sym_String
  imports Machine
begin

text \<open>
  \<open>ReadCStringMem\<close> of \<open>symbol/symbol.go\<close>: C strings in mapped memory. The loop advances one address
  per turn, so after \<open>2 ^ 64\<close> turns it has visited every address and would go on for ever: that is the
  fuel, and running out of it is a hang of the code.
\<close>

unbundle bit_operations_syntax

text \<open>The loop; \<open>n\<close> is \<open>bytesRead\<close>.\<close>

primrec cstrLoop :: "nat \<Rightarrow> memory \<Rightarrow> u64 \<Rightarrow> u64 \<Rightarrow> u64 \<Rightarrow> u64 \<Rightarrow> string \<Rightarrow> ('e, string) result" where
  "cstrLoop 0 m ptr offset limit n buf = Hang"
| "cstrLoop (Suc fuel) m ptr offset limit n buf =
     (if limit > 0 \<and> offset + n \<ge> limit then Ok []
      else bindR (rd8 m ptr) (\<lambda>b.
        if b = 0 then Ok buf
        else cstrLoop fuel m (ptr + 1) offset limit (n + 1) (buf @ [chr b])))"

definition ReadCStringMem :: "memory \<Rightarrow> u64 \<Rightarrow> u64 \<Rightarrow> u64 \<Rightarrow> ('e, string) result" where
  "ReadCStringMem m base offset limit =
     (if limit > 0 \<and> offset \<ge> limit then Ok []
      else cstrLoop (2 ^ 64) m (base + offset) offset limit 0 [])"

section \<open>What the loop computes\<close>

definition nonzero :: "8 word \<Rightarrow> bool" where
  "nonzero b \<longleftrightarrow> b \<noteq> 0"

text \<open>Under a limit the loop looks at the bytes before it and nothing else.\<close>

lemma cstrLoop_bounded:
  assumes "unat offset + unat n + k = unat limit" and "0 < limit" and "k < fuel"
    and "all_readable m ptr k"
  shows "cstrLoop fuel m ptr offset limit n buf =
    Ok (if 0 \<in> set (peek m ptr k) then buf @ map chr (takeWhile nonzero (peek m ptr k)) else [])"
  using assms
proof (induction k arbitrary: fuel ptr n buf)
  case 0
  then obtain f where f: "fuel = Suc f" by (cases fuel) auto
  have "unat (offset + n) = unat limit"
    using 0 unat_bound64[of limit] by (simp add: unat_add_no_wrap)
  with 0 show ?case by (simp add: f word_le_nat_alt)
next
  case (Suc k)
  then obtain f where f: "fuel = Suc f" by (cases fuel) auto
  have sum: "unat (offset + n) = unat offset + unat n"
    using Suc.prems(1) unat_bound64[of limit] by (simp add: unat_add_no_wrap)
  have n1: "unat (n + 1) = unat n + 1"
    using Suc.prems(1) unat_bound64[of limit] by (simp add: unat_add_no_wrap)
  have go: "\<not> limit \<le> offset + n"
    using Suc.prems(1) sum by (simp add: word_le_nat_alt)
  have r: "readable m ptr" and rest: "all_readable m (ptr + 1) k"
    using Suc.prems(4) by (auto simp: all_readable_Suc)
  have "unat offset + unat (n + 1) + k = unat limit" and "k < f"
    using Suc.prems f n1 by auto
  note IH = Suc.IH[OF this(1) Suc.prems(2) this(2) rest, of "buf @ [chr (mbytes m ptr)]"]
  show ?case
    using go r IH by (simp add: f peek_Suc nonzero_def)
qed

lemma ReadCStringMem_bounded:
  assumes "offset < limit" and "all_readable m (base + offset) (unat limit - unat offset)"
  shows "ReadCStringMem m base offset limit =
    (let s = peek m (base + offset) (unat limit - unat offset)
     in Ok (if 0 \<in> set s then map chr (takeWhile nonzero s) else []))"
proof -
  have l: "0 < limit" using assms(1) by (metis word_gt_0 word_not_simps(1) less_le_trans not_le)
  have "unat limit - unat offset < 2 ^ 64" using unat_bound64[of limit] by simp
  moreover have "unat offset + unat (0 :: u64) + (unat limit - unat offset) = unat limit"
    using assms(1) by (simp add: word_less_nat_alt)
  ultimately show ?thesis
    using assms l by (simp add: ReadCStringMem_def Let_def cstrLoop_bounded)
qed

text \<open>
  A zero byte before the limit ends the loop there; only the bytes up to it are touched. Without a
  limit (\<open>0\<close>) the loop runs to the next zero byte or faults before it.
\<close>

lemma cstrLoop_stops:
  assumes "k < fuel" and "all_readable m ptr (Suc k)"
    and "list_all nonzero (peek m ptr k)" and "mbytes m (ptr + of_nat k) = 0"
    and "limit = 0 \<or> unat offset + unat n + k < unat limit"
  shows "(cstrLoop fuel m ptr offset limit n buf :: ('e, string) result) = Ok (buf @ map chr (peek m ptr k))"
  using assms
proof (induction k arbitrary: fuel ptr n buf)
  case 0
  then obtain f where f: "fuel = Suc f" by (cases fuel) auto
  have "limit = 0 \<or> \<not> limit \<le> offset + n"
    using 0(5) unat_bound64[of limit] by (auto simp: word_le_nat_alt unat_add_no_wrap)
  with 0 show ?case by (auto simp: f all_readable_Suc)
next
  case (Suc k)
  then obtain f where f: "fuel = Suc f" by (cases fuel) auto
  have p: "ptr + of_nat (Suc k) = ptr + 1 + of_nat k" by simp
  have go: "limit = 0 \<or> \<not> limit \<le> offset + n"
    using Suc.prems(5) unat_bound64[of limit] by (auto simp: word_le_nat_alt unat_add_no_wrap)
  have "k < f" and "all_readable m (ptr + 1) (Suc k)" and "list_all nonzero (peek m (ptr + 1) k)"
    and "mbytes m (ptr + 1 + of_nat k) = 0"
    using Suc.prems f unfolding p by (simp_all add: all_readable_Suc[of m ptr] peek_Suc)
  moreover have "limit = 0 \<or> unat offset + unat (n + 1) + k < unat limit"
    using Suc.prems(5) unat_bound64[of limit] by (auto simp: unat_add_no_wrap)
  ultimately have "\<And>buf. (cstrLoop f m (ptr + 1) offset limit (n + 1) buf :: ('e, string) result) =
      Ok (buf @ map chr (peek m (ptr + 1) k))"
    by (rule Suc.IH)
  moreover have "readable m ptr" and "mbytes m ptr \<noteq> 0"
    using Suc.prems by (auto simp: all_readable_Suc[of m ptr] peek_Suc nonzero_def)
  ultimately show ?case using go by (auto simp: f peek_Suc)
qed

text \<open>A name stored with its terminator is what is read.\<close>

lemma ReadCStringMem_holds:
  assumes "holds m (base + offset) (map ord s @ [0])" and "CHR 0x00 \<notin> set s"
    and "limit = 0 \<or> unat offset + length s < unat limit" and "length s < 2 ^ 64"
  shows "ReadCStringMem m base offset limit = Ok s"
proof -
  let ?p = "base + offset"
  have p: "peek m ?p (length s) = map ord s" and r: "all_readable m ?p (Suc (length s))"
    and z: "mbytes m (?p + of_nat (length s)) = 0"
    using assms(1) all_readable_append[of m ?p "length s" 1]
    by (simp_all add: holds_append) (simp_all add: holds_def peek_Suc)
  have "list_all nonzero (map ord s)"
    using assms(2) by (auto simp: list_all_iff nonzero_def)
  then have l: "list_all nonzero (peek m ?p (length s))" by (simp only: p)
  have "limit = 0 \<or> unat offset + unat (0 :: u64) + length s < unat limit" using assms(3) by simp
  note c = cstrLoop_stops[OF assms(4) r l z this, of "[]"]
  have "limit = 0 \<or> \<not> limit \<le> offset" using assms(3) by (auto simp: word_le_nat_alt)
  then show ?thesis by (auto simp: ReadCStringMem_def c[unfolded p] comp_def simp del: power_numeral)
qed

lemma cstrLoop_fault:
  assumes "k < fuel" and "all_readable m ptr k" and "list_all nonzero (peek m ptr k)"
    and "\<not> readable m (ptr + of_nat k)"
  shows "cstrLoop fuel m ptr offset 0 n buf = Panic (SegFault (ptr + of_nat k))"
  using assms
proof (induction k arbitrary: fuel ptr n buf)
  case 0
  then obtain f where f: "fuel = Suc f" by (cases fuel) auto
  with 0 show ?case by (simp add: rd8_fault)
next
  case (Suc k)
  then obtain f where f: "fuel = Suc f" by (cases fuel) auto
  have p: "ptr + of_nat (Suc k) = ptr + 1 + of_nat k" by simp
  have "k < f" and "all_readable m (ptr + 1) k" and "list_all nonzero (peek m (ptr + 1) k)"
    and "\<not> readable m (ptr + 1 + of_nat k)"
    using Suc.prems f unfolding p by (simp_all add: all_readable_Suc[of m ptr] peek_Suc)
  note Suc.IH[OF this, of "n + 1" "buf @ [chr (mbytes m ptr)]"]
  moreover have "readable m ptr" and "mbytes m ptr \<noteq> 0"
    using Suc.prems by (auto simp: all_readable_Suc[of m ptr] peek_Suc nonzero_def)
  ultimately show ?case by (simp add: f)
qed

section \<open>Properties\<close>

text \<open>
  With a table size given, reading a name returns for every offset and touches only the bytes of
  the string table: if those are mapped readable there is no fault and no hang. The name is the bytes
  up to the first zero byte, and empty where the table holds none.
\<close>

theorem ReadCStringMem_in_bounds:
  assumes "0 < limit" and "all_readable m (base + offset) (unat limit - unat offset)"
  shows "ReadCStringMem m base offset limit =
    Ok (let s = peek m (base + offset) (unat limit - unat offset)
        in if offset < limit \<and> 0 \<in> set s then map chr (takeWhile (\<lambda>b. b \<noteq> 0) s) else [])"
proof (cases "offset < limit")
  case True
  then show ?thesis
    using assms(2) by (simp add: ReadCStringMem_bounded Let_def nonzero_def[abs_def])
next
  case False
  with assms(1) show ?thesis by (simp add: ReadCStringMem_def Let_def linorder_not_less[symmetric])
qed

definition demoMem :: memory where
  "demoMem = \<lparr>mbytes = store (\<lambda>_. 0) 0x1000 (map ord ''xabc'' @ [0, 255]),
              mprot = (\<lambda>x. if in_region 0x1000 6 x then Some 3 else None)\<rparr>"

theorem ReadCStringMem_in_bounds_witness:
  "ReadCStringMem demoMem 0x1000 1 5 = Ok ''abc''"
proof -
  have r: "all_readable demoMem (0x1000 + 1) (unat (5 :: u64) - unat (1 :: u64))"
    by (simp add: all_readable_def readable_def demoMem_def in_region_def upt_conv_Cons)
  show ?thesis
    by (subst ReadCStringMem_in_bounds[OF _ r])
      (simp_all add: demoMem_def peek_numeral peek_Suc store_def)
qed

text \<open>
  Names read back. A string without a zero character that is stored with its terminator anywhere
  in a string table is what the loader reads at its offset.
\<close>

theorem ReadCStringMem_roundtrip:
  assumes "CHR 0x00 \<notin> set s" and "wr_bytes m (base + offset) (map ord s @ [0]) = Ok m'"
    and "unat offset + length s < unat limit" and "all_readable m (base + offset) (length s + 1)"
  shows "ReadCStringMem m' base offset limit = Ok s"
proof -
  have len: "length s < 2 ^ 64" using assms(3) unat_bound64[of limit] by simp
  have "holds m' (base + offset) (map ord s @ [0])"
    using assms(2,4) len by (auto simp: wr_bytes_Ok_iff intro!: holds_store)
  then show ?thesis using assms(1,3) len by (intro ReadCStringMem_holds) auto
qed

theorem ReadCStringMem_roundtrip_witness:
  "\<exists>m'. wr_bytes demoMem (0x1000 + 1) (map ord ''bc'' @ [0]) = Ok m' \<and> ReadCStringMem m' 0x1000 1 6 = Ok ''bc''"
proof -
  have w: "wr_bytes demoMem (0x1000 + 1) (map ord ''bc'' @ [0]) =
      Ok (demoMem\<lparr>mbytes := store (mbytes demoMem) (0x1000 + 1) (map ord ''bc'' @ [0])\<rparr>)"
    by (simp add: wr_bytes_Ok_iff all_writable_def writable_def demoMem_def in_region_def upt_conv_Cons)
  have r: "all_readable demoMem (0x1000 + 1) (length ''bc'' + 1)"
    by (simp add: all_readable_def readable_def demoMem_def in_region_def upt_conv_Cons)
  show ?thesis
    by (intro exI conjI, rule w, rule ReadCStringMem_roundtrip[OF _ w _ r]) (simp_all add: ord_def)
qed

end
