(* ===== verification/Elf_Parse.thy ===== *)
theory Elf_Parse
  imports Machine
begin

text \<open>
  The package \<open>elf\<close> (\<open>elf/parse.go\<close>): from the headers of a shared object to the metadata the loader
  needs. \<open>debug/elf\<close>'s reader is a parameter \<open>newFile\<close> of \<open>Parse\<close>, a file is its contents, and the
  file system is a map from paths to contents. Every check of the code that rejects a malformed file
  is a branch with its own error.
\<close>

unbundle bit_operations_syntax

section \<open>Constants of \<open>debug/elf\<close>\<close>

abbreviation (input) ELFCLASS64 :: u8 where "ELFCLASS64 \<equiv> 2"
abbreviation (input) EM_X86_64 :: u16 where "EM_X86_64 \<equiv> 62"
abbreviation (input) ET_DYN :: u16 where "ET_DYN \<equiv> 3"

abbreviation (input) PT_LOAD :: u32 where "PT_LOAD \<equiv> 1"
abbreviation (input) PT_DYNAMIC :: u32 where "PT_DYNAMIC \<equiv> 2"
abbreviation (input) PT_TLS :: u32 where "PT_TLS \<equiv> 7"
abbreviation (input) PT_GNU_RELRO :: u32 where "PT_GNU_RELRO \<equiv> 0x6474e552"

text \<open>Dynamic tags are Go \<open>int\<close>s converted from the 64-bit field of the entry.\<close>

abbreviation (input) DT_NULL :: u64 where "DT_NULL \<equiv> 0"
abbreviation (input) DT_NEEDED :: u64 where "DT_NEEDED \<equiv> 1"
abbreviation (input) DT_PLTRELSZ :: u64 where "DT_PLTRELSZ \<equiv> 2"
abbreviation (input) DT_HASH :: u64 where "DT_HASH \<equiv> 4"
abbreviation (input) DT_STRTAB :: u64 where "DT_STRTAB \<equiv> 5"
abbreviation (input) DT_SYMTAB :: u64 where "DT_SYMTAB \<equiv> 6"
abbreviation (input) DT_RELA :: u64 where "DT_RELA \<equiv> 7"
abbreviation (input) DT_RELASZ :: u64 where "DT_RELASZ \<equiv> 8"
abbreviation (input) DT_RELAENT :: u64 where "DT_RELAENT \<equiv> 9"
abbreviation (input) DT_STRSZ :: u64 where "DT_STRSZ \<equiv> 10"
abbreviation (input) DT_SYMENT :: u64 where "DT_SYMENT \<equiv> 11"
abbreviation (input) DT_INIT :: u64 where "DT_INIT \<equiv> 12"
abbreviation (input) DT_FINI :: u64 where "DT_FINI \<equiv> 13"
abbreviation (input) DT_SONAME :: u64 where "DT_SONAME \<equiv> 14"
abbreviation (input) DT_RPATH :: u64 where "DT_RPATH \<equiv> 15"
abbreviation (input) DT_JMPREL :: u64 where "DT_JMPREL \<equiv> 23"
abbreviation (input) DT_INIT_ARRAY :: u64 where "DT_INIT_ARRAY \<equiv> 25"
abbreviation (input) DT_FINI_ARRAY :: u64 where "DT_FINI_ARRAY \<equiv> 26"
abbreviation (input) DT_INIT_ARRAYSZ :: u64 where "DT_INIT_ARRAYSZ \<equiv> 27"
abbreviation (input) DT_FINI_ARRAYSZ :: u64 where "DT_FINI_ARRAYSZ \<equiv> 28"
abbreviation (input) DT_RUNPATH :: u64 where "DT_RUNPATH \<equiv> 29"
abbreviation (input) DT_GNU_HASH :: u64 where "DT_GNU_HASH \<equiv> 0x6ffffef5"
abbreviation (input) DT_VERSYM :: u64 where "DT_VERSYM \<equiv> 0x6ffffff0"
abbreviation (input) DT_VERDEF :: u64 where "DT_VERDEF \<equiv> 0x6ffffffc"
abbreviation (input) DT_VERDEFNUM :: u64 where "DT_VERDEFNUM \<equiv> 0x6ffffffd"
abbreviation (input) DT_VERNEED :: u64 where "DT_VERNEED \<equiv> 0x6ffffffe"
abbreviation (input) DT_VERNEEDNUM :: u64 where "DT_VERNEEDNUM \<equiv> 0x6fffffff"

section \<open>Data\<close>

text \<open>\<open>elf.ProgHeader\<close> (the physical address is not used) and the parts of \<open>elf.File\<close> the code reads.\<close>

record prog_header =
  ph_Type :: u32
  ph_Flags :: u32
  ph_Off :: u64
  ph_Vaddr :: u64
  ph_Filesz :: u64
  ph_Memsz :: u64
  ph_Align :: u64

record elf_file =
  ef_Class :: u8
  ef_Machine :: u16
  ef_Type :: u16
  ef_Progs :: "prog_header list"

record parsed_object =
  Path :: string
  File :: elf_file
  BaseVAddr :: u64
  MemSize :: u64
  LoadSegments :: "prog_header list"
  DynamicSeg :: "prog_header option"
  GNURelroSeg :: "prog_header option"
  TLSSeg :: "prog_header option"
  DynEntries :: "u64 \<rightharpoonup> u64"
  Needed :: "string list"
  Runpath :: string
  Rpath :: string
  DynData :: bytes
  DynVAddr :: u64

datatype elf_error =
    OpenFailed string
  | BadELF string
  | Not64Bit string
  | NotX8664 string u16
  | NotSharedObject string u16
  | FileszExceedsMemsz nat u64 u64
  | AddressOverflow nat u64 u64
  | NoLoadSegments
  | NoDynamicSegment
  | InvalidLayout u64 u64
  | MemSizeZero
  | NegativeOffset
  | ReadDynamic elf_error
  | MissingNull
  | AddressZero u64
  | AddressOutOfRange u64 u64
  | SizeZero u64
  | SizeExceeds u64 u64
  | ReadStrtab elf_error
  | VaddrNotFound u64
  | AtPath string elf_error

section \<open>Layout\<close>

definition PageAlign :: "u64 \<Rightarrow> u64" where
  "PageAlign v = (v + 4095) AND NOT 4095"

definition calculateMemoryLayout :: "parsed_object \<Rightarrow> u64 \<Rightarrow> u64 \<Rightarrow> (elf_error, parsed_object) result" where
  "calculateMemoryLayout obj minVAddr maxVAddr =
     (if maxVAddr < minVAddr then Err (InvalidLayout maxVAddr minVAddr)
      else let obj' = obj\<lparr>BaseVAddr := minVAddr, MemSize := PageAlign (maxVAddr - minVAddr)\<rparr>
           in if MemSize obj' = 0 then Err MemSizeZero else Ok obj')"

section \<open>Headers\<close>

definition validateELFHeader :: "elf_file \<Rightarrow> string \<Rightarrow> (elf_error, unit) result" where
  "validateELFHeader ef path =
     (if ef_Class ef \<noteq> ELFCLASS64 then Err (Not64Bit path)
      else if ef_Machine ef \<noteq> EM_X86_64 then Err (NotX8664 path (ef_Machine ef))
      else if ef_Type ef \<noteq> ET_DYN then Err (NotSharedObject path (ef_Type ef))
      else Ok ())"

definition openAndValidateELF ::
  "(bytes \<Rightarrow> elf_file option) \<Rightarrow> (string \<rightharpoonup> bytes) \<Rightarrow> string \<Rightarrow> (elf_error, bytes \<times> elf_file) result" where
  "openAndValidateELF newFile fs path =
     (case fs path of
        None \<Rightarrow> Err (OpenFailed path)
      | Some f \<Rightarrow>
          (case newFile f of
             None \<Rightarrow> Err (BadELF path)
           | Some ef \<Rightarrow> bindR (validateELFHeader ef path) (\<lambda>_. Ok (f, ef))))"

definition validatePTLoad :: "prog_header \<Rightarrow> nat \<Rightarrow> (elf_error, unit) result" where
  "validatePTLoad ph index =
     (if ph_Filesz ph > ph_Memsz ph then Err (FileszExceedsMemsz index (ph_Filesz ph) (ph_Memsz ph))
      else if ph_Vaddr ph > (NOT 0) - ph_Memsz ph then Err (AddressOverflow index (ph_Vaddr ph) (ph_Memsz ph))
      else Ok ())"

definition updateAddressRange :: "u64 \<Rightarrow> u64 \<Rightarrow> u64 \<Rightarrow> u64 \<Rightarrow> bool \<Rightarrow> u64 \<times> u64" where
  "updateAddressRange minVAddr maxVAddr vaddr memsz first =
     (let end = vaddr + memsz
      in if first then (vaddr, end)
         else (if vaddr < minVAddr then vaddr else minVAddr,
               if end > maxVAddr then end else maxVAddr))"

text \<open>The body of the loop over the program headers; the state is \<open>(obj, minVAddr, maxVAddr, first)\<close>.\<close>

type_synonym collect_state = "parsed_object \<times> u64 \<times> u64 \<times> bool"

fun collectStep :: "nat \<times> prog_header \<Rightarrow> collect_state \<Rightarrow> (elf_error, collect_state) result" where
  "collectStep (i, ph) (obj, minVAddr, maxVAddr, first) =
     (if ph_Type ph = PT_LOAD then
        bindR (validatePTLoad ph i) (\<lambda>_.
          let (lo, hi) = updateAddressRange minVAddr maxVAddr (ph_Vaddr ph) (ph_Memsz ph) first
          in Ok (obj\<lparr>LoadSegments := LoadSegments obj @ [ph]\<rparr>, lo, hi, False))
      else if ph_Type ph = PT_DYNAMIC then Ok (obj\<lparr>DynamicSeg := Some ph\<rparr>, minVAddr, maxVAddr, first)
      else if ph_Type ph = PT_GNU_RELRO then Ok (obj\<lparr>GNURelroSeg := Some ph\<rparr>, minVAddr, maxVAddr, first)
      else if ph_Type ph = PT_TLS then Ok (obj\<lparr>TLSSeg := Some ph\<rparr>, minVAddr, maxVAddr, first)
      else Ok (obj, minVAddr, maxVAddr, first))"

definition validateRequiredSegments :: "parsed_object \<Rightarrow> u64 \<Rightarrow> u64 \<Rightarrow> (elf_error, u64 \<times> u64) result" where
  "validateRequiredSegments obj minVAddr maxVAddr =
     (if length (LoadSegments obj) = 0 then Err NoLoadSegments
      else if DynamicSeg obj = None then Err NoDynamicSegment
      else Ok (minVAddr, maxVAddr))"

definition collectProgramHeaders ::
  "elf_file \<Rightarrow> parsed_object \<Rightarrow> (elf_error, parsed_object \<times> u64 \<times> u64) result" where
  "collectProgramHeaders ef obj =
     bindR (forR collectStep (enumerate 0 (ef_Progs ef)) (obj, 0, 0, True)) (\<lambda>(obj', lo, hi, _).
       bindR (validateRequiredSegments obj' lo hi) (\<lambda>(lo', hi'). Ok (obj', lo', hi')))"

section \<open>The dynamic section\<close>

text \<open>\<open>File.ReadAt\<close>: the bytes read, possibly fewer than asked for (then with \<open>io.EOF\<close>).\<close>

definition ReadAt :: "bytes \<Rightarrow> u64 \<Rightarrow> i64 \<Rightarrow> (elf_error, bytes) result" where
  "ReadAt f n off =
     (if sint off < 0 then Err NegativeOffset else Ok (take (unat n) (drop (unat off) f)))"

text \<open>\<open>make([]byte, n)\<close>: the run-time limit on one allocation is \<open>2 ^ 48\<close> bytes.\<close>

definition makeBytes :: "u64 \<Rightarrow> ('e, unit) result" where
  "makeBytes n = (if n > 0x1000000000000 then Panic MakeSliceLen else Ok ())"

definition Uint64 :: "bytes \<Rightarrow> u64" where
  "Uint64 bs = le_word (take 8 bs)"

text \<open>The loop over 16-byte entries, on the data from the current offset on; \<open>True\<close> for a terminator found.\<close>

function dynLoop :: "bytes \<Rightarrow> (u64 \<rightharpoonup> u64) \<Rightarrow> (u64 \<rightharpoonup> u64) \<times> bool" where
  "dynLoop dynData entries =
     (if 16 \<le> length dynData then
        let tag = Uint64 dynData; val = Uint64 (drop 8 dynData)
        in if tag = DT_NULL then (entries, True)
           else dynLoop (drop 16 dynData) (entries(tag \<mapsto> val))
      else (entries, False))"
  by pat_completeness auto
termination
  by (relation "measure (\<lambda>(d, _). length d)") auto

declare dynLoop.simps [simp del]

definition validateAddressTag :: "parsed_object \<Rightarrow> u64 \<Rightarrow> u64 \<Rightarrow> (elf_error, unit) result" where
  "validateAddressTag obj tag maxVAddr =
     (case DynEntries obj tag of
        None \<Rightarrow> Ok ()
      | Some val \<Rightarrow>
          if val = 0 then Err (AddressZero tag)
          else if val < BaseVAddr obj \<or> val \<ge> maxVAddr then Err (AddressOutOfRange tag val)
          else Ok ())"

definition addressTags :: "u64 list" where
  "addressTags =
     [DT_SYMTAB, DT_STRTAB, DT_RELA, DT_JMPREL,
      DT_HASH, DT_GNU_HASH, DT_INIT, DT_FINI,
      DT_INIT_ARRAY, DT_FINI_ARRAY, DT_VERSYM,
      DT_VERDEF, DT_VERNEED]"

definition validateAddressTags :: "parsed_object \<Rightarrow> (elf_error, unit) result" where
  "validateAddressTags obj =
     (let maxVAddr = BaseVAddr obj + MemSize obj
      in forR (\<lambda>tag _. validateAddressTag obj tag maxVAddr) addressTags ())"

definition validateSizeTag :: "parsed_object \<Rightarrow> u64 \<Rightarrow> (elf_error, unit) result" where
  "validateSizeTag obj tag =
     (case DynEntries obj tag of
        None \<Rightarrow> Ok ()
      | Some sz \<Rightarrow>
          if tag = DT_STRSZ \<and> sz = 0 then Err (SizeZero tag)
          else if sz > MemSize obj then Err (SizeExceeds tag sz)
          else Ok ())"

definition validateSizeTags :: "parsed_object \<Rightarrow> (elf_error, unit) result" where
  "validateSizeTags obj =
     forR (\<lambda>tag _. validateSizeTag obj tag) [DT_STRSZ, DT_RELASZ, DT_PLTRELSZ] ()"

definition validateDynEntries :: "parsed_object \<Rightarrow> (elf_error, unit) result" where
  "validateDynEntries obj = bindR (validateAddressTags obj) (\<lambda>_. validateSizeTags obj)"

definition readDynamicSection :: "bytes \<Rightarrow> parsed_object \<Rightarrow> (elf_error, parsed_object) result" where
  "readDynamicSection f obj =
     (case DynamicSeg obj of
        None \<Rightarrow> Panic NilPointer
      | Some dynProg \<Rightarrow>
          bindR (makeBytes (ph_Filesz dynProg)) (\<lambda>_.
          bindR (mapErr ReadDynamic (ReadAt f (ph_Filesz dynProg) (ph_Off dynProg))) (\<lambda>got.
            let dynData = got @ replicate (unat (ph_Filesz dynProg) - length got) 0;
                (entries, foundNull) = dynLoop dynData Map.empty;
                obj' = obj\<lparr>DynVAddr := ph_Vaddr dynProg, DynData := dynData, DynEntries := entries\<rparr>
            in if \<not> foundNull then Err MissingNull
               else bindR (validateDynEntries obj') (\<lambda>_. Ok obj'))))"

section \<open>Strings\<close>

text \<open>The loop that moves \<open>end\<close> to the next zero byte or the end of the data.\<close>

function nulIndex :: "bytes \<Rightarrow> nat \<Rightarrow> nat" where
  "nulIndex dat end = (if end < length dat \<and> dat ! end \<noteq> 0 then nulIndex dat (end + 1) else end)"
  by pat_completeness auto
termination
  by (relation "measure (\<lambda>(d, e). length d - e)") auto

declare nulIndex.simps [simp del]

definition readCString :: "bytes \<Rightarrow> i64 \<Rightarrow> string" where
  "readCString dat off =
     (if sint off < 0 \<or> sint off \<ge> int (length dat) then []
      else map chr (take (nulIndex dat (unat off) - unat off) (drop (unat off) dat)))"

function neededLoop :: "bytes \<Rightarrow> bytes \<Rightarrow> string list" where
  "neededLoop dynData strtabData =
     (if 16 \<le> length dynData then
        let tag = Uint64 dynData
        in if tag = DT_NULL then []
           else if tag = DT_NEEDED
             then readCString strtabData (Uint64 (drop 8 dynData)) # neededLoop (drop 16 dynData) strtabData
             else neededLoop (drop 16 dynData) strtabData
      else [])"
  by pat_completeness auto
termination
  by (relation "measure (\<lambda>(d, _). length d)") auto

declare neededLoop.simps [simp del]

definition extractNeededLibraries :: "bytes \<Rightarrow> bytes \<Rightarrow> string list" where
  "extractNeededLibraries dynData strtabData = neededLoop dynData strtabData"

definition extractRunpathAndRpath :: "(u64 \<rightharpoonup> u64) \<Rightarrow> bytes \<Rightarrow> string \<times> string" where
  "extractRunpathAndRpath dynEntries strtabData =
     ((case dynEntries DT_RUNPATH of None \<Rightarrow> [] | Some off \<Rightarrow> readCString strtabData off),
      (case dynEntries DT_RPATH of None \<Rightarrow> [] | Some off \<Rightarrow> readCString strtabData off))"

fun readBytesAtVAddr :: "bytes \<Rightarrow> prog_header list \<Rightarrow> u64 \<Rightarrow> (elf_error, bytes) result" where
  "readBytesAtVAddr f [] vaddr = Err (VaddrNotFound vaddr)"
| "readBytesAtVAddr f (ph # progs) vaddr =
     (if ph_Type ph \<noteq> PT_LOAD then readBytesAtVAddr f progs vaddr
      else if vaddr \<ge> ph_Vaddr ph \<and> vaddr < ph_Vaddr ph + ph_Filesz ph then
        let off = ph_Off ph + (vaddr - ph_Vaddr ph);
            sz = ph_Filesz ph - (vaddr - ph_Vaddr ph)
        in bindR (makeBytes sz) (\<lambda>_. ReadAt f sz off)
      else readBytesAtVAddr f progs vaddr)"

definition resolveStringReferences ::
  "bytes \<Rightarrow> elf_file \<Rightarrow> parsed_object \<Rightarrow> (elf_error, parsed_object) result" where
  "resolveStringReferences f ef obj =
     (case DynEntries obj DT_STRTAB of
        None \<Rightarrow> Ok obj
      | Some strtabVA \<Rightarrow>
          bindR (mapErr ReadStrtab (readBytesAtVAddr f (ef_Progs ef) strtabVA)) (\<lambda>strtabData.
            let (runpath, rpath) = extractRunpathAndRpath (DynEntries obj) strtabData
            in Ok (obj\<lparr>Needed := extractNeededLibraries (DynData obj) strtabData,
                       Runpath := runpath, Rpath := rpath\<rparr>)))"

section \<open>Parse\<close>

definition parseHeadersAndLayout ::
  "bytes \<Rightarrow> elf_file \<Rightarrow> parsed_object \<Rightarrow> (elf_error, parsed_object) result" where
  "parseHeadersAndLayout f ef obj =
     bindR (mapErr (AtPath (Path obj)) (collectProgramHeaders ef obj)) (\<lambda>(obj1, minVAddr, maxVAddr).
     bindR (calculateMemoryLayout obj1 minVAddr maxVAddr) (\<lambda>obj2.
     bindR (mapErr (AtPath (Path obj)) (readDynamicSection f obj2)) (\<lambda>obj3.
       mapErr (AtPath (Path obj)) (resolveStringReferences f ef obj3))))"

definition newParsedObject :: "string \<Rightarrow> elf_file \<Rightarrow> parsed_object" where
  "newParsedObject path ef =
     \<lparr>Path = path, File = ef, BaseVAddr = 0, MemSize = 0, LoadSegments = [], DynamicSeg = None,
      GNURelroSeg = None, TLSSeg = None, DynEntries = Map.empty, Needed = [], Runpath = [],
      Rpath = [], DynData = [], DynVAddr = 0\<rparr>"

definition Parse ::
  "(bytes \<Rightarrow> elf_file option) \<Rightarrow> (string \<rightharpoonup> bytes) \<Rightarrow> string \<Rightarrow> (elf_error, parsed_object) result" where
  "Parse newFile fs path =
     bindR (openAndValidateELF newFile fs path) (\<lambda>(f, ef).
       parseHeadersAndLayout f ef (newParsedObject path ef))"

interpretation page_align: round_up PageAlign 4096
proof
  fix v :: u64
  assume "unat v + (4096 - 1) < 2 ^ 64"
  moreover have "(4095 :: u64) = mask 12" by (simp add: mask_eq_exp_minus_1)
  ultimately show "unat (PageAlign v) = (unat v + (4096 - 1)) div 4096 * 4096"
    using round_up_word[of 12 v] unfolding PageAlign_def by simp
qed simp

section \<open>Reference description of the dynamic section\<close>

definition dynEntry :: "bytes \<Rightarrow> nat \<Rightarrow> u64 \<times> u64" where
  "dynEntry d i = (Uint64 (drop (16 * i) d), Uint64 (drop (16 * i + 8) d))"

definition dynTable :: "bytes \<Rightarrow> (u64 \<times> u64) list" where
  "dynTable d = map (dynEntry d) [0..<length d div 16]"

definition dynLive :: "bytes \<Rightarrow> (u64 \<times> u64) list" where
  "dynLive d = takeWhile (\<lambda>(tag, _). tag \<noteq> DT_NULL) (dynTable d)"

lemma dynTable_short: "length d < 16 \<Longrightarrow> dynTable d = []"
  by (simp add: dynTable_def)

lemma dynTable_long:
  assumes "16 \<le> length d"
  shows "dynTable d = (Uint64 d, Uint64 (drop 8 d)) # dynTable (drop 16 d)"
proof -
  have "length d div 16 = Suc (length (drop 16 d) div 16)"
    using assms by (simp add: div_if)
  then have "dynTable d = map (dynEntry d) (0 # map Suc [0..<length (drop 16 d) div 16])"
    by (simp only: dynTable_def upt_conv_Cons[OF zero_less_Suc] map_Suc_upt)
  moreover have "dynEntry d (Suc i) = dynEntry (drop 16 d) i" for i
    by (simp add: dynEntry_def algebra_simps)
  ultimately show ?thesis by (simp add: dynTable_def dynEntry_def comp_def)
qed

lemma dynLoop_spec:
  "dynLoop d m = (m ++ map_of (rev (dynLive d)), list_ex (\<lambda>(tag, _). tag = DT_NULL) (dynTable d))"
proof (induction d m rule: dynLoop.induct)
  case (1 d m)
  show ?case
  proof (cases "16 \<le> length d")
    case True
    have "dynLoop (drop 16 d) (m(Uint64 d \<mapsto> Uint64 (drop 8 d))) =
      (m(Uint64 d \<mapsto> Uint64 (drop 8 d)) ++ map_of (rev (dynLive (drop 16 d))),
       list_ex (\<lambda>(tag, _). tag = DT_NULL) (dynTable (drop 16 d)))" if "Uint64 d \<noteq> 0"
      using that by (rule "1.IH"[OF True refl refl])
    with True show ?thesis
      by (subst dynLoop.simps) (auto simp: dynLive_def dynTable_long Let_def map_add_rev_Cons)
  next
    case False
    then show ?thesis
      by (subst dynLoop.simps) (simp add: dynLive_def dynTable_short)
  qed
qed

lemma neededLoop_spec:
  "neededLoop d strtab =
     map (\<lambda>(_, off). readCString strtab off) (filter (\<lambda>(tag, _). tag = DT_NEEDED) (dynLive d))"
proof (induction d strtab rule: neededLoop.induct)
  case (1 d strtab)
  show ?case
  proof (cases "16 \<le> length d")
    case True
    then show ?thesis
      using "1.IH"[OF True refl]
      by (subst neededLoop.simps) (simp add: dynLive_def dynTable_long Let_def)
  next
    case False
    then show ?thesis
      by (subst neededLoop.simps) (simp add: dynLive_def dynTable_short)
  qed
qed

lemma nulIndex_spec:
  "i \<le> length d \<Longrightarrow> nulIndex d i = i + length (takeWhile (\<lambda>b. b \<noteq> 0) (drop i d))"
proof (induction d i rule: nulIndex.induct)
  case (1 d i)
  show ?case
  proof (cases "i < length d")
    case True
    then have "drop i d = d ! i # drop (i + 1) d" by (simp add: Cons_nth_drop_Suc)
    with True "1.IH" show ?thesis by (subst nulIndex.simps) simp
  next
    case False
    with "1.prems" show ?thesis by (subst nulIndex.simps) simp
  qed
qed

lemma readCString_spec:
  "readCString d off =
     (if sint off < 0 \<or> int (length d) \<le> sint off then []
      else map chr (takeWhile (\<lambda>b. b \<noteq> 0) (drop (unat off) d)))"
proof (cases "sint off < 0 \<or> int (length d) \<le> sint off")
  case True
  then show ?thesis by (auto simp: readCString_def)
next
  case False
  then have "int (unat off) \<le> int (length d)" using sint_nonneg[of off] by linarith
  then have le: "unat off \<le> length d" by (simp only: of_nat_le_iff)
  with False show ?thesis
    by (simp add: readCString_def nulIndex_spec takeWhile_eq_take[symmetric])
qed

section \<open>What a parsed object satisfies\<close>

definition segment_ok :: "parsed_object \<Rightarrow> prog_header \<Rightarrow> bool" where
  "segment_ok obj ph \<longleftrightarrow>
     ph_Filesz ph \<le> ph_Memsz ph \<and> unat (BaseVAddr obj) \<le> unat (ph_Vaddr ph) \<and>
     unat (ph_Vaddr ph) + unat (ph_Memsz ph) \<le> unat (BaseVAddr obj) + unat (MemSize obj)"

definition layout_ok :: "parsed_object \<Rightarrow> bool" where
  "layout_ok obj \<longleftrightarrow>
     LoadSegments obj \<noteq> [] \<and> DynamicSeg obj \<noteq> None \<and> MemSize obj \<noteq> 0 \<and>
     4096 dvd unat (MemSize obj) \<and> list_all (segment_ok obj) (LoadSegments obj)"

definition tags_ok :: "parsed_object \<Rightarrow> bool" where
  "tags_ok obj \<longleftrightarrow>
     list_all (\<lambda>tag. pred_option (\<lambda>v. v \<noteq> 0 \<and> unat (BaseVAddr obj) \<le> unat v \<and>
        unat v < unat (BaseVAddr obj) + unat (MemSize obj)) (DynEntries obj tag)) addressTags \<and>
     list_all (\<lambda>tag. pred_option (\<lambda>v. v \<le> MemSize obj) (DynEntries obj tag))
       [DT_STRSZ, DT_RELASZ, DT_PLTRELSZ] \<and>
     DynEntries obj DT_STRSZ \<noteq> Some 0"

text \<open>The loop over the headers keeps the range of the loadable segments seen so far.\<close>

definition end_of :: "prog_header \<Rightarrow> nat" where
  "end_of ph = unat (ph_Vaddr ph) + unat (ph_Memsz ph)"

fun collected :: "prog_header list \<Rightarrow> collect_state \<Rightarrow> bool" where
  "collected progs (obj, lo, hi, first) \<longleftrightarrow>
     LoadSegments obj = filter (\<lambda>ph. ph_Type ph = PT_LOAD) progs \<and>
     first = (LoadSegments obj = []) \<and>
     list_all (\<lambda>ph. ph_Filesz ph \<le> ph_Memsz ph \<and> end_of ph < 2 ^ 64) (LoadSegments obj) \<and>
     (LoadSegments obj \<noteq> [] \<longrightarrow>
        unat lo = Min (set (map (unat \<circ> ph_Vaddr) (LoadSegments obj))) \<and>
        unat hi = Max (set (map end_of (LoadSegments obj))))"

lemma validatePTLoad_Ok:
  "validatePTLoad ph i = Ok u \<longleftrightarrow> ph_Filesz ph \<le> ph_Memsz ph \<and> end_of ph < 2 ^ 64"
proof -
  have "unat ((NOT 0 :: u64) - ph_Memsz ph) = 18446744073709551615 - unat (ph_Memsz ph)"
    using unat_sub[OF word_n1_ge[of "ph_Memsz ph"]] by (simp add: unat_minus_one_64)
  then have "(ph_Vaddr ph > NOT 0 - ph_Memsz ph) \<longleftrightarrow> \<not> end_of ph < 2 ^ 64"
    using unat_bound64[of "ph_Memsz ph"] by (auto simp: word_less_nat_alt end_of_def)
  then show ?thesis by (auto simp: validatePTLoad_def not_less)
qed

lemma updateAddressRange_nat:
  assumes "end_of ph < 2 ^ 64" and "updateAddressRange lo hi (ph_Vaddr ph) (ph_Memsz ph) first = (lo', hi')"
  shows "unat lo' = (if first then unat (ph_Vaddr ph) else min (unat lo) (unat (ph_Vaddr ph)))"
    and "unat hi' = (if first then end_of ph else max (unat hi) (end_of ph))"
proof -
  have e: "unat (ph_Vaddr ph + ph_Memsz ph) = end_of ph"
    using assms(1) by (simp add: end_of_def unat_add_no_wrap)
  show "unat lo' = (if first then unat (ph_Vaddr ph) else min (unat lo) (unat (ph_Vaddr ph)))"
    and "unat hi' = (if first then end_of ph else max (unat hi) (end_of ph))"
    using assms(2) e by (auto simp: updateAddressRange_def Let_def word_less_nat_alt split: if_splits)
qed

lemma collectStep_collected:
  assumes "collectStep (i, ph) st = Ok st'" and "collected progs st"
  shows "collected (progs @ [ph]) st'"
proof -
  obtain obj lo hi first where st: "st = (obj, lo, hi, first)" by (cases st) auto
  show ?thesis
  proof (cases "ph_Type ph = PT_LOAD")
    case True
    then obtain lo' hi' where v: "validatePTLoad ph i = Ok ()"
      and u: "updateAddressRange lo hi (ph_Vaddr ph) (ph_Memsz ph) first = (lo', hi')"
      and st': "st' = (obj\<lparr>LoadSegments := LoadSegments obj @ [ph]\<rparr>, lo', hi', False)"
      using assms(1) by (auto simp: st split: prod.splits)
    have e: "end_of ph < 2 ^ 64" and f: "ph_Filesz ph \<le> ph_Memsz ph"
      using v by (auto simp: validatePTLoad_Ok)
    note c = assms(2)[unfolded st collected.simps]
    note L = c[THEN conjunct1, symmetric] and first = c[THEN conjunct2, THEN conjunct1]
      and ok = c[THEN conjunct2, THEN conjunct2, THEN conjunct1]
      and range = c[THEN conjunct2, THEN conjunct2, THEN conjunct2]
    show ?thesis
      using ok range updateAddressRange_nat[OF e u] e f
      by (cases "LoadSegments obj = []") (simp_all add: st' True L first min.commute max.commute)
  next
    case False
    with assms show ?thesis by (auto simp: st split: if_splits)
  qed
qed

lemma collectLoop_collected:
  assumes "forR collectStep (enumerate n progs) st = Ok st'" and "collected before st"
  shows "collected (before @ progs) st'"
  using assms
proof (induction progs arbitrary: n st before)
  case Nil
  then show ?case by simp
next
  case (Cons ph progs)
  then obtain st1 where 1: "collectStep (n, ph) st = Ok st1"
    and 2: "forR collectStep (enumerate (Suc n) progs) st1 = Ok st'" by auto
  from Cons.IH[OF 2 collectStep_collected[OF 1 Cons.prems(2)]] show ?case by simp
qed

lemma collectProgramHeaders_Ok:
  assumes "collectProgramHeaders ef obj0 = Ok (obj, lo, hi)" and "LoadSegments obj0 = []"
  shows "collected (ef_Progs ef) (obj, lo, hi, False)" and "DynamicSeg obj \<noteq> None"
    and "LoadSegments obj \<noteq> []"
proof -
  obtain first where l: "forR collectStep (enumerate 0 (ef_Progs ef)) (obj0, 0, 0, True) = Ok (obj, lo, hi, first)"
    and v: "validateRequiredSegments obj lo hi = Ok (lo, hi)"
    using assms(1) by (auto simp: collectProgramHeaders_def validateRequiredSegments_def split: if_splits)
  have "collected ([] @ ef_Progs ef) (obj, lo, hi, first)"
    by (rule collectLoop_collected[OF l]) (simp add: assms(2))
  moreover show "LoadSegments obj \<noteq> []" and "DynamicSeg obj \<noteq> None"
    using v by (auto simp: validateRequiredSegments_def split: if_splits)
  ultimately show "collected (ef_Progs ef) (obj, lo, hi, False)" by auto
qed


lemma PageAlign_nonzero: "PageAlign v \<noteq> 0 \<Longrightarrow> unat v + 4095 < 2 ^ 64"
proof (rule ccontr)
  assume nz: "PageAlign v \<noteq> 0" and "\<not> unat v + 4095 < 2 ^ 64"
  then have wrap: "18446744073709551616 \<le> unat v + 4095" by simp
  then have "unat (v + 4095) < 4096"
    using unat_bound64[of v] by (simp add: unat_plus_if')
  moreover have "(4095 :: u64) = mask 12" by (simp add: mask_eq_exp_minus_1)
  ultimately have "unat (PageAlign v) = 0"
    unfolding PageAlign_def using unat_and_not_mask[of "v + 4095" 12] by simp
  with nz show False by (simp add: unat_eq_zero)
qed

lemma validateAddressTag_Ok:
  "validateAddressTag obj tag hi = Ok () \<longleftrightarrow>
     pred_option (\<lambda>v. v \<noteq> 0 \<and> BaseVAddr obj \<le> v \<and> v < hi) (DynEntries obj tag)"
  by (auto simp: validateAddressTag_def split: option.splits)

lemma validateSizeTag_Ok:
  "validateSizeTag obj tag = Ok () \<longleftrightarrow>
     pred_option (\<lambda>v. v \<le> MemSize obj \<and> \<not> (tag = DT_STRSZ \<and> v = 0)) (DynEntries obj tag)"
  by (auto simp: validateSizeTag_def split: option.splits)

lemma validateDynEntries_tags_ok:
  assumes "validateDynEntries obj = Ok ()"
  shows "tags_ok obj"
proof -
  have "unat (BaseVAddr obj + MemSize obj) \<le> unat (BaseVAddr obj) + unat (MemSize obj)"
    by (simp add: unat_plus_if')
  then have w: "v < BaseVAddr obj + MemSize obj \<Longrightarrow> unat v < unat (BaseVAddr obj) + unat (MemSize obj)" for v
    by (simp add: word_less_nat_alt)
  have a: "list_all (\<lambda>tag. validateAddressTag obj tag (BaseVAddr obj + MemSize obj) = Ok ()) addressTags"
    and s: "list_all (\<lambda>tag. validateSizeTag obj tag = Ok ()) [DT_STRSZ, DT_RELASZ, DT_PLTRELSZ]"
    using assms by (auto simp: validateDynEntries_def validateAddressTags_def validateSizeTags_def
        Let_def forR_check)
  show ?thesis
    unfolding tags_ok_def
  proof (intro conjI)
    show "list_all (\<lambda>tag. pred_option (\<lambda>v. v \<noteq> 0 \<and> unat (BaseVAddr obj) \<le> unat v \<and>
        unat v < unat (BaseVAddr obj) + unat (MemSize obj)) (DynEntries obj tag)) addressTags"
      using a by (rule list.pred_mono_strong)
        (auto simp: validateAddressTag_Ok word_le_nat_alt w elim!: option.pred_mono_strong)
    show "list_all (\<lambda>tag. pred_option (\<lambda>v. v \<le> MemSize obj) (DynEntries obj tag))
       [DT_STRSZ, DT_RELASZ, DT_PLTRELSZ]"
      using s by (rule list.pred_mono_strong) (auto simp: validateSizeTag_Ok elim!: option.pred_mono_strong)
    show "DynEntries obj DT_STRSZ \<noteq> Some 0"
      using s by (auto simp: validateSizeTag_Ok)
  qed
qed

lemma readDynamicSection_Ok:
  assumes "readDynamicSection f obj = Ok obj'"
  shows "\<exists>vaddr dat entries. obj' = obj\<lparr>DynVAddr := vaddr, DynData := dat, DynEntries := entries\<rparr> \<and>
    dynLoop dat Map.empty = (entries, True) \<and> validateDynEntries obj' = Ok ()"
proof -
  obtain dynProg where "DynamicSeg obj = Some dynProg"
    using assms by (cases "DynamicSeg obj") (auto simp: readDynamicSection_def)
  with assms obtain got dat where
    dat: "dat = got @ replicate (unat (ph_Filesz dynProg) - length got) 0"
    and rest: "(case dynLoop dat Map.empty of (entries, foundNull) \<Rightarrow>
        let obj' = obj\<lparr>DynVAddr := ph_Vaddr dynProg, DynData := dat, DynEntries := entries\<rparr>
        in if \<not> foundNull then Err MissingNull
           else bindR (validateDynEntries obj') (\<lambda>_. Ok obj')) = Ok obj'"
    by (auto simp: readDynamicSection_def Let_def)
  obtain entries foundNull where l: "dynLoop dat Map.empty = (entries, foundNull)" by fastforce
  with rest show ?thesis
    by (intro exI[of _ "ph_Vaddr dynProg"] exI[of _ dat] exI[of _ entries]) (auto simp: Let_def split: if_splits)
qed

lemma resolveStringReferences_Ok:
  assumes "resolveStringReferences f ef obj = Ok obj'"
  shows "\<exists>n r p. obj' = obj\<lparr>Needed := n, Runpath := r, Rpath := p\<rparr>"
proof (cases "DynEntries obj DT_STRTAB")
  case None
  with assms have "obj' = obj\<lparr>Needed := Needed obj, Runpath := Runpath obj, Rpath := Rpath obj\<rparr>"
    by (simp add: resolveStringReferences_def)
  then show ?thesis by blast
next
  case (Some v)
  with assms show ?thesis
    by (auto simp: resolveStringReferences_def Let_def case_prod_beta)
qed

lemma calculateMemoryLayout_Ok:
  "calculateMemoryLayout obj lo hi = Ok obj' \<longleftrightarrow>
     lo \<le> hi \<and> PageAlign (hi - lo) \<noteq> 0 \<and> obj' = obj\<lparr>BaseVAddr := lo, MemSize := PageAlign (hi - lo)\<rparr>"
  by (auto simp: calculateMemoryLayout_def Let_def)

lemma Parse_steps:
  assumes "Parse newFile fs path = Ok obj"
  obtains f ef obj1 lo hi obj2 obj3 where
    "fs path = Some f" and "newFile f = Some ef" and "validateELFHeader ef path = Ok ()"
    and "collectProgramHeaders ef (newParsedObject path ef) = Ok (obj1, lo, hi)"
    and "calculateMemoryLayout obj1 lo hi = Ok obj2"
    and "readDynamicSection f obj2 = Ok obj3" and "resolveStringReferences f ef obj3 = Ok obj"
  using assms
  by (auto simp: Parse_def openAndValidateELF_def parseHeadersAndLayout_def split: option.splits)

theorem Parse_layout:
  assumes "Parse newFile fs path = Ok obj"
  shows "layout_ok obj \<and> tags_ok obj"
proof -
  obtain f ef obj1 lo hi obj2 obj3 where
    c: "collectProgramHeaders ef (newParsedObject path ef) = Ok (obj1, lo, hi)"
    and m: "calculateMemoryLayout obj1 lo hi = Ok obj2"
    and d: "readDynamicSection f obj2 = Ok obj3" and r: "resolveStringReferences f ef obj3 = Ok obj"
    using assms by (rule Parse_steps)
  have coll: "collected (ef_Progs ef) (obj1, lo, hi, False)"
    and dyn: "DynamicSeg obj1 \<noteq> None" and ne: "LoadSegments obj1 \<noteq> []"
    using collectProgramHeaders_Ok[OF c] by (auto simp: newParsedObject_def)
  have obj2: "obj2 = obj1\<lparr>BaseVAddr := lo, MemSize := PageAlign (hi - lo)\<rparr>"
    and le: "lo \<le> hi" and nz: "PageAlign (hi - lo) \<noteq> 0"
    using m by (auto simp: calculateMemoryLayout_Ok)
  obtain vaddr dat entries where
    obj3: "obj3 = obj2\<lparr>DynVAddr := vaddr, DynData := dat, DynEntries := entries\<rparr>"
    and tags: "validateDynEntries obj3 = Ok ()"
    using readDynamicSection_Ok[OF d] by blast
  obtain n rp p where obj: "obj = obj3\<lparr>Needed := n, Runpath := rp, Rpath := p\<rparr>"
    using resolveStringReferences_Ok[OF r] by blast
  note bound = PageAlign_nonzero[OF nz]
  have sz: "unat (hi - lo) = unat hi - unat lo" using le by (rule unat_sub)
  have up: "unat hi - unat lo \<le> unat (PageAlign (hi - lo))"
    using page_align.up_ge[of "hi - lo"] bound sz by simp
  have seg: "segment_ok obj ph" if "ph \<in> set (LoadSegments obj1)" for ph
  proof -
    note cc = coll[unfolded collected.simps]
    have "ph_Filesz ph \<le> ph_Memsz ph" using cc that by (simp add: list_all_iff)
    moreover have "unat lo \<le> unat (ph_Vaddr ph)" and "end_of ph \<le> unat hi"
      using cc ne that by auto
    ultimately show ?thesis
      using up le by (simp add: segment_ok_def obj obj3 obj2 end_of_def word_le_nat_alt)
  qed
  have "layout_ok obj"
    using ne dyn nz seg page_align.up_dvd[of "hi - lo"] bound
    by (simp add: layout_ok_def obj obj3 obj2 list_all_iff)
  moreover have "tags_ok obj"
    using validateDynEntries_tags_ok[OF tags] by (simp add: tags_ok_def obj)
  ultimately show ?thesis by blast
qed

text \<open>Zero bytes after the data always hold a terminator, wherever the 16-byte grid falls.\<close>

lemma Uint64_zeros: "Uint64 (drop i (xs @ replicate k 0)) = 0" if "length xs \<le> i"
proof -
  have "take 8 (drop i (xs @ replicate k 0)) = replicate (min 8 (k - (i - length xs))) (0 :: u8)"
    using that by (simp add: take_replicate)
  then show ?thesis by (simp add: Uint64_def le_word_def)
qed

lemma dynTable_zero_tail:
  assumes "31 \<le> k"
  shows "list_ex (\<lambda>(tag, _). tag = DT_NULL) (dynTable (xs @ replicate k 0))"
proof -
  let ?i = "(length xs + 15) div 16"
  have lo: "length xs \<le> 16 * ?i" and hi: "16 * ?i \<le> length xs + 15" by auto
  have "?i < (length xs + k) div 16" using assms by linarith
  then have "dynEntry (xs @ replicate k 0) ?i \<in> set (dynTable (xs @ replicate k 0))"
    by (auto simp: dynTable_def)
  moreover have "fst (dynEntry (xs @ replicate k 0) ?i) = 0"
    using Uint64_zeros[OF lo] by (simp add: dynEntry_def)
  ultimately show ?thesis
    by (auto simp: list_ex_iff case_prod_beta)
qed

text \<open>The table a linker writes: the entries, a terminator, and what follows.\<close>

definition dynEncode :: "(u64 \<times> u64) list \<Rightarrow> bytes" where
  "dynEncode es = concat (map (\<lambda>(tag, v). le_enc 8 (unat tag) @ le_enc 8 (unat v)) es)"

lemma Uint64_enc: "Uint64 (le_enc 8 (unat v) @ xs) = v"
  by (simp add: Uint64_def le_word_enc)

lemma dynTable_encode: "dynTable (dynEncode es @ rest) = es @ dynTable rest"
proof (induction es)
  case Nil
  then show ?case by (simp add: dynEncode_def)
next
  case (Cons e es)
  obtain tag v where e: "e = (tag, v)" by (cases e)
  let ?d = "le_enc 8 (unat tag) @ le_enc 8 (unat v) @ dynEncode es @ rest"
  have "dynTable ?d = (Uint64 ?d, Uint64 (drop 8 ?d)) # dynTable (drop 16 ?d)"
    by (rule dynTable_long) simp
  moreover have "drop 8 ?d = le_enc 8 (unat v) @ dynEncode es @ rest"
    and "drop 16 ?d = dynEncode es @ rest" by simp_all
  ultimately have "dynTable ?d = (tag, v) # dynTable (dynEncode es @ rest)"
    by (simp add: Uint64_enc)
  with Cons.IH show ?case by (simp add: dynEncode_def e)
qed

text \<open>The names a parsed object holds, from the string table the code reads.\<close>

definition names_from_strtab :: "bytes \<Rightarrow> prog_header list \<Rightarrow> parsed_object \<Rightarrow> bool" where
  "names_from_strtab f progs obj \<longleftrightarrow>
     (case DynEntries obj DT_STRTAB of
        None \<Rightarrow> Needed obj = [] \<and> Runpath obj = [] \<and> Rpath obj = []
      | Some va \<Rightarrow>
          (case readBytesAtVAddr f progs va of
             Ok strtab \<Rightarrow>
               Needed obj = map (\<lambda>(_, off). readCString strtab off)
                 (filter (\<lambda>(tag, _). tag = DT_NEEDED) (dynLive (DynData obj))) \<and>
               Runpath obj = case_option [] (readCString strtab) (DynEntries obj DT_RUNPATH) \<and>
               Rpath obj = case_option [] (readCString strtab) (DynEntries obj DT_RPATH)
           | _ \<Rightarrow> False))"

lemma resolveStringReferences_names:
  assumes "resolveStringReferences f ef obj = Ok obj'"
    and "Needed obj = []" and "Runpath obj = []" and "Rpath obj = []"
  shows "names_from_strtab f (ef_Progs ef) obj'"
proof (cases "DynEntries obj DT_STRTAB")
  case None
  with assms show ?thesis
    by (simp add: resolveStringReferences_def names_from_strtab_def)
next
  case (Some v)
  with assms obtain strtab where "readBytesAtVAddr f (ef_Progs ef) v = Ok strtab"
    and "obj' = obj\<lparr>Needed := extractNeededLibraries (DynData obj) strtab,
           Runpath := case_option [] (readCString strtab) (DynEntries obj DT_RUNPATH),
           Rpath := case_option [] (readCString strtab) (DynEntries obj DT_RPATH)\<rparr>"
    by (auto simp: resolveStringReferences_def extractRunpathAndRpath_def)
  with Some show ?thesis
    by (simp add: names_from_strtab_def extractNeededLibraries_def neededLoop_spec)
qed

text \<open>The header loop does not touch the names.\<close>

lemma collectProgramHeaders_names:
  assumes "collectProgramHeaders ef obj0 = Ok (obj, lo, hi)"
  shows "Needed obj = Needed obj0" and "Runpath obj = Runpath obj0" and "Rpath obj = Rpath obj0"
proof -
  obtain first where l: "forR collectStep (enumerate 0 (ef_Progs ef)) (obj0, 0, 0, True) = Ok (obj, lo, hi, first)"
    using assms by (auto simp: collectProgramHeaders_def validateRequiredSegments_def split: if_splits)
  let ?P = "\<lambda>st. Needed (fst st) = Needed obj0 \<and> Runpath (fst st) = Runpath obj0 \<and> Rpath (fst st) = Rpath obj0"
  have "?P (obj, lo, hi, first)"
    using l by (rule forR_invariant) (auto split: if_splits prod.splits)
  then show "Needed obj = Needed obj0" and "Runpath obj = Runpath obj0" and "Rpath obj = Rpath obj0"
    by simp_all
qed

section \<open>Properties\<close>

text \<open>
  C34: a file that parses has a usable layout: a loadable and a dynamic segment, a page-aligned
  non-zero span that covers every loadable segment, and every address tag of the dynamic section
  inside that span.
\<close>

theorem Parse_gives_valid_layout:
  assumes "Parse newFile fs path = Ok obj"
  shows "layout_ok obj \<and> tags_ok obj"
  using assms by (rule Parse_layout)

text \<open>A one-segment shared object used as the concrete input of the witnesses.\<close>

definition demoLoad :: prog_header where
  "demoLoad = \<lparr>ph_Type = PT_LOAD, ph_Flags = 5, ph_Off = 0, ph_Vaddr = 0x1000, ph_Filesz = 0x20,
     ph_Memsz = 0x20, ph_Align = 0x1000\<rparr>"

definition demoDyn :: prog_header where
  "demoDyn = \<lparr>ph_Type = PT_DYNAMIC, ph_Flags = 6, ph_Off = 0, ph_Vaddr = 0x1000, ph_Filesz = 0x20,
     ph_Memsz = 0x20, ph_Align = 8\<rparr>"

definition demoElf :: elf_file where
  "demoElf = \<lparr>ef_Class = 2, ef_Machine = 62, ef_Type = 3, ef_Progs = [demoLoad, demoDyn]\<rparr>"

definition demoBytes :: bytes where
  "demoBytes = [5, 0, 0, 0, 0, 0, 0, 0, 0x10, 0x10, 0, 0, 0, 0, 0, 0,
                0, 0, 0, 0, 0, 0, 0, 0, 0, 0, 0, 0, 0, 0, 0, 0]"

definition demoFs :: "string \<rightharpoonup> bytes" where
  "demoFs = (\<lambda>p. if p = ''a.so'' then Some demoBytes else None)"

definition demoParsed :: parsed_object where
  "demoParsed = \<lparr>Path = ''a.so'', File = demoElf, BaseVAddr = 0x1000, MemSize = 0x1000,
     LoadSegments = [demoLoad], DynamicSeg = Some demoDyn, GNURelroSeg = None, TLSSeg = None,
     DynEntries = [DT_STRTAB \<mapsto> 0x1010], Needed = [], Runpath = [], Rpath = [],
     DynData = demoBytes, DynVAddr = 0x1000\<rparr>"

lemma demo_dynLoop: "dynLoop demoBytes Map.empty = ([DT_STRTAB \<mapsto> 0x1010], True)"
  by (simp add: dynLoop.simps Uint64_def le_word_def demoBytes_def fun_eq_iff)

lemma demo_length [simp]: "length demoBytes = 32"
  by (simp add: demoBytes_def)

lemma demo_dynTable: "dynTable demoBytes = [(DT_STRTAB, 0x1010), (DT_NULL, 0)]"
  by (simp add: dynTable_def dynEntry_def Uint64_def le_word_def demoBytes_def upt_conv_Cons)

lemma demo_Parse: "Parse (\<lambda>_. Some demoElf) demoFs ''a.so'' = Ok demoParsed"
proof -
  have c: "collectProgramHeaders demoElf (newParsedObject ''a.so'' demoElf) =
    Ok ((newParsedObject ''a.so'' demoElf)\<lparr>LoadSegments := [demoLoad], DynamicSeg := Some demoDyn\<rparr>, 0x1000, 0x1020)"
    by (simp add: collectProgramHeaders_def validateRequiredSegments_def newParsedObject_def demoElf_def
        demoLoad_def demoDyn_def validatePTLoad_def updateAddressRange_def)
  let ?o2 = "(newParsedObject ''a.so'' demoElf)\<lparr>LoadSegments := [demoLoad], DynamicSeg := Some demoDyn,
     BaseVAddr := 0x1000, MemSize := 0x1000\<rparr>"
  let ?o3 = "?o2\<lparr>DynVAddr := 0x1000, DynData := demoBytes, DynEntries := [DT_STRTAB \<mapsto> 0x1010]\<rparr>"
  have h: "validateELFHeader demoElf ''a.so'' = Ok ()"
    by (simp add: validateELFHeader_def demoElf_def)
  have m: "PageAlign 0x20 = 0x1000" by (simp add: PageAlign_def)
  have got: "ReadAt demoBytes 32 0 = Ok demoBytes" by (simp add: ReadAt_def demoBytes_def)
  have v: "validateDynEntries ?o3 = Ok ()"
    by (simp add: validateDynEntries_def validateAddressTags_def addressTags_def validateAddressTag_def
        validateSizeTags_def validateSizeTag_def)
  have r: "readDynamicSection demoBytes ?o2 = Ok ?o3"
    using v by (simp add: readDynamicSection_def demoDyn_def makeBytes_def got demo_length demo_dynLoop)
  have s: "resolveStringReferences demoBytes demoElf ?o3 = Ok ?o3"
    by (simp add: resolveStringReferences_def demoElf_def demoLoad_def makeBytes_def ReadAt_def
        extractNeededLibraries_def neededLoop_spec dynLive_def demo_dynTable extractRunpathAndRpath_def
        newParsedObject_def)
  have "Parse (\<lambda>_. Some demoElf) demoFs ''a.so'' = Ok ?o3"
    using r s h by (simp add: Parse_def openAndValidateELF_def demoFs_def parseHeadersAndLayout_def
       c calculateMemoryLayout_def m)
  then show ?thesis by (simp add: demoParsed_def newParsedObject_def)
qed

theorem Parse_gives_valid_layout_witness: "layout_ok demoParsed \<and> tags_ok demoParsed"
  using Parse_gives_valid_layout[OF demo_Parse] .



text \<open>Outcomes that are neither a hang nor a panic other than an oversized \<open>make\<close>.\<close>

primrec only_make_panics :: "('e, 'a) result \<Rightarrow> bool" where
  "only_make_panics (Ok x) = True"
| "only_make_panics (Err e) = True"
| "only_make_panics (Panic p) = (p = MakeSliceLen)"
| "only_make_panics Hang = False"

lemma only_make_bind [intro!]:
  "only_make_panics r \<Longrightarrow> (\<And>x. r = Ok x \<Longrightarrow> only_make_panics (f x)) \<Longrightarrow> only_make_panics (bindR r f)"
  by (cases r) auto

lemma only_make_mapErr [simp]: "only_make_panics (mapErr g r) = only_make_panics r"
  by (cases r) auto

lemma only_make_forR [intro!]:
  "(\<And>x s. only_make_panics (f x s)) \<Longrightarrow> only_make_panics (forR f xs s)"
  by (induction xs arbitrary: s) auto

lemma only_make_checks:
  "only_make_panics (validateELFHeader ef path)" "only_make_panics (validatePTLoad ph i)"
  "only_make_panics (validateRequiredSegments obj lo hi)" "only_make_panics (validateAddressTag obj tag m)"
  "only_make_panics (validateSizeTag obj tag)" "only_make_panics (ReadAt f n off)"
  "only_make_panics (makeBytes n)" "only_make_panics (calculateMemoryLayout obj lo hi)"
  by (auto simp: validateELFHeader_def validatePTLoad_def validateRequiredSegments_def validateAddressTag_def
      validateSizeTag_def ReadAt_def makeBytes_def calculateMemoryLayout_def Let_def split: option.splits)

lemma only_make_validateDynEntries: "only_make_panics (validateDynEntries obj)"
  unfolding validateDynEntries_def validateAddressTags_def validateSizeTags_def Let_def
  by (intro only_make_bind only_make_forR only_make_checks)

lemma only_make_readBytes: "only_make_panics (readBytesAtVAddr f progs vaddr)"
  by (induction f progs vaddr rule: readBytesAtVAddr.induct)
    (auto simp: Let_def only_make_checks)

lemma only_make_readDynamicSection:
  "DynamicSeg obj \<noteq> None \<Longrightarrow> only_make_panics (readDynamicSection f obj)"
  by (auto simp: readDynamicSection_def Let_def only_make_checks only_make_validateDynEntries
      split: prod.splits)

lemma only_make_collect: "only_make_panics (collectProgramHeaders ef obj)"
proof -
  have "only_make_panics (collectStep x st)" for x st
    by (cases x; cases st) (auto simp: only_make_checks Let_def split: prod.splits)
  then show ?thesis
    by (auto simp: collectProgramHeaders_def only_make_checks split: prod.splits)
qed

lemma only_make_resolve: "only_make_panics (resolveStringReferences f ef obj)"
  by (auto simp: resolveStringReferences_def only_make_readBytes split: option.splits prod.splits)

lemma only_make_Parse: "only_make_panics (Parse newFile fs path)"
proof -
  have "only_make_panics (parseHeadersAndLayout f ef (newParsedObject path ef))" for f ef
    unfolding parseHeadersAndLayout_def
  proof (intro only_make_bind)
    show "only_make_panics (mapErr (AtPath (Path (newParsedObject path ef)))
        (collectProgramHeaders ef (newParsedObject path ef)))"
      by (simp add: only_make_collect)
  next
    fix x
    assume "mapErr (AtPath (Path (newParsedObject path ef)))
        (collectProgramHeaders ef (newParsedObject path ef)) = Ok x"
    then obtain obj1 lo hi where x: "x = (obj1, lo, hi)"
      and c: "collectProgramHeaders ef (newParsedObject path ef) = Ok (obj1, lo, hi)"
      by (cases x) auto
    have "DynamicSeg obj1 \<noteq> None"
      using collectProgramHeaders_Ok(2)[OF c] by (simp add: newParsedObject_def)
    then show "only_make_panics (case x of (obj1, minVAddr, maxVAddr) \<Rightarrow>
        bindR (calculateMemoryLayout obj1 minVAddr maxVAddr) (\<lambda>obj2.
        bindR (mapErr (AtPath (Path (newParsedObject path ef))) (readDynamicSection f obj2)) (\<lambda>obj3.
          mapErr (AtPath (Path (newParsedObject path ef))) (resolveStringReferences f ef obj3))))"
      by (auto simp: x only_make_checks only_make_resolve calculateMemoryLayout_Ok
          intro!: only_make_readDynamicSection)
  qed
  then show ?thesis
    by (auto simp: Parse_def openAndValidateELF_def only_make_checks split: option.splits)
qed


text \<open>
  A dynamic segment whose claimed file size exceeds the allocation limit crashes the process: the
  size is taken from the header and is not compared with the file.
\<close>

theorem oversized_dynamic_panics:
  assumes "DynamicSeg obj = Some ph" and "0x1000000000000 < ph_Filesz ph"
  shows "readDynamicSection f obj = Panic MakeSliceLen"
  using assms by (simp add: readDynamicSection_def makeBytes_def)

theorem oversized_dynamic_panics_witness:
  "readDynamicSection demoBytes (demoParsed\<lparr>DynamicSeg := Some (demoDyn\<lparr>ph_Filesz := 0x2000000000000\<rparr>)\<rparr>)
     = Panic MakeSliceLen"
  by (rule oversized_dynamic_panics[where ph = "demoDyn\<lparr>ph_Filesz := 0x2000000000000\<rparr>"]) simp_all

text \<open>
  Only x86-64 objects parse. Any 64-bit object of another machine, AArch64 included, is refused
  with the error that names its machine, on every architecture the loader is built for.
\<close>

theorem Parse_refuses_other_machines:
  assumes "fs path = Some f" and "newFile f = Some ef"
    and "ef_Class ef = ELFCLASS64" and "ef_Machine ef \<noteq> EM_X86_64"
  shows "Parse newFile fs path = Err (NotX8664 path (ef_Machine ef))"
  using assms by (simp add: Parse_def openAndValidateELF_def validateELFHeader_def)

theorem Parse_refuses_other_machines_witness:
  "Parse (\<lambda>_. Some (demoElf\<lparr>ef_Machine := 183\<rparr>)) demoFs ''a.so'' = Err (NotX8664 ''a.so'' 183)"
  using Parse_refuses_other_machines[of demoFs "''a.so''" demoBytes "\<lambda>_. Some (demoElf\<lparr>ef_Machine := 183\<rparr>)"]
  by (simp add: demoFs_def demoElf_def)

text \<open>
  The dynamic section reads back what a linker writes: for any entries without a null tag,
  followed by a terminator and arbitrary bytes, the loop stops at the terminator and maps every tag
  to the last value written for it.
\<close>

theorem dynamic_table_roundtrip:
  assumes "list_all (\<lambda>(tag, _). tag \<noteq> DT_NULL) es"
  shows "dynLoop (dynEncode (es @ [(DT_NULL, v)]) @ rest) Map.empty = (map_of (rev es), True)"
proof -
  have t: "dynTable (dynEncode (es @ [(DT_NULL, v)]) @ rest) = es @ (DT_NULL, v) # dynTable rest"
    by (simp add: dynTable_encode)
  have "takeWhile (\<lambda>(tag, _). tag \<noteq> DT_NULL) (es @ (DT_NULL, v) # dynTable rest) = es"
    using assms by (subst takeWhile_append2) (auto simp: list_all_iff)
  then show ?thesis by (simp add: dynLoop_spec dynLive_def t)
qed

theorem dynamic_table_roundtrip_witness:
  "dynLoop (dynEncode ([(DT_NEEDED, 7), (DT_STRTAB, 64), (DT_NEEDED, 9)] @ [(DT_NULL, 0)]) @ [1, 2]) Map.empty
     = ([DT_NEEDED \<mapsto> 9, DT_STRTAB \<mapsto> 64], True)"
  using dynamic_table_roundtrip[of "[(DT_NEEDED, 7), (DT_STRTAB, 64), (DT_NEEDED, 9)]" 0 "[1, 2]"]
  by (simp add: fun_eq_iff fun_upd_def)

text \<open>
  The terminator check passes for a file that ends inside the dynamic segment. The buffer is
  allocated zeroed and \<open>io.EOF\<close> is ignored, so as soon as 31 bytes are missing the zero padding is
  read as the missing terminator.
\<close>

theorem truncated_dynamic_has_terminator:
  assumes "31 \<le> k"
  shows "snd (dynLoop (got @ replicate k 0) Map.empty)"
  using dynTable_zero_tail[OF assms] by (simp add: dynLoop_spec)

theorem truncated_dynamic_has_terminator_witness:
  "snd (dynLoop ([5, 0, 0, 0, 0, 0, 0, 0, 16] @ replicate 31 0) Map.empty)"
  by (rule truncated_dynamic_has_terminator) simp

end
