(* ===== verification/Sym_Version.thy ===== *)
theory Sym_Version
  imports Sym_String Elf_Parse
begin

text \<open>
  \<open>symbol/version.go\<close>: the GNU symbol version tables. \<open>DT_VERSYM\<close> stays a slice of mapped memory
  (its address and length), loaded entry by entry; the \<open>DT_VERNEED\<close> and \<open>DT_VERDEF\<close> chains are
  parsed into two maps from version index to version. A table that fails to parse is dropped by the
  only caller, so the methods return the table on success only.
\<close>

unbundle bit_operations_syntax

record version_requirement =
  vr_Name :: string
  vr_Index :: u16

record version_definition =
  vd_Name :: string
  vd_Index :: u16

record version_table =
  vt_Requirements :: "u16 \<rightharpoonup> version_requirement"
  vt_Definitions :: "u16 \<rightharpoonup> version_definition"
  vt_SymbolVersions :: "(u64 \<times> u64) option"

datatype version_error =
    UnsupportedVerneed u16
  | UnsupportedVerdef u16
  | ParseVerneedErr version_error
  | ParseVerdefErr version_error

definition NewVersionTable :: version_table where
  "NewVersionTable = \<lparr>vt_Requirements = Map.empty, vt_Definitions = Map.empty, vt_SymbolVersions = None\<rparr>"

section \<open>The requirements\<close>

text \<open>The first argument is \<open>count - j\<close>, the iterations left.\<close>

primrec parseVernauxChain :: "nat \<Rightarrow> memory \<Rightarrow> u64 \<Rightarrow> u64 \<Rightarrow> u64 \<Rightarrow> version_table \<Rightarrow> (version_error, version_table) result" where
  "parseVernauxChain 0 m auxCurrent strtabAddr strtabSize vt = Ok vt"
| "parseVernauxChain (Suc n) m auxCurrent strtabAddr strtabSize vt =
     bindR (rd16 m (auxCurrent + 6)) (\<lambda>vnaOther.
     bindR (rd32 m (auxCurrent + 8)) (\<lambda>vnaName.
     bindR (rd32 m (auxCurrent + 12)) (\<lambda>vnaNext.
     bindR (ReadCStringMem m strtabAddr (ucast vnaName) strtabSize) (\<lambda>name.
       let vt' = vt\<lparr>vt_Requirements := (vt_Requirements vt)(vnaOther \<mapsto> \<lparr>vr_Name = name, vr_Index = vnaOther\<rparr>)\<rparr>
       in if vnaNext = 0 then Ok vt'
          else parseVernauxChain n m (auxCurrent + ucast vnaNext) strtabAddr strtabSize vt'))))"

definition parseVerneedEntry :: "memory \<Rightarrow> u64 \<Rightarrow> u64 \<Rightarrow> u64 \<Rightarrow> version_table \<Rightarrow> (version_error, u32 \<times> version_table) result" where
  "parseVerneedEntry m current strtabAddr strtabSize vt =
     bindR (rd16 m current) (\<lambda>vnVersion.
     bindR (rd16 m (current + 2)) (\<lambda>vnCnt.
     bindR (rd32 m (current + 8)) (\<lambda>vnAux.
     bindR (rd32 m (current + 12)) (\<lambda>vnNext.
       if vnVersion \<noteq> 1 then Err (UnsupportedVerneed vnVersion)
       else bindR (parseVernauxChain (unat vnCnt) m (current + ucast vnAux) strtabAddr strtabSize vt) (\<lambda>vt'.
         Ok (vnNext, vt'))))))"

primrec parseVerneed :: "nat \<Rightarrow> memory \<Rightarrow> u64 \<Rightarrow> u64 \<Rightarrow> u64 \<Rightarrow> version_table \<Rightarrow> (version_error, version_table) result" where
  "parseVerneed 0 m current strtabAddr strtabSize vt = Ok vt"
| "parseVerneed (Suc n) m current strtabAddr strtabSize vt =
     bindR (parseVerneedEntry m current strtabAddr strtabSize vt) (\<lambda>(vnNext, vt').
       if vnNext = 0 then Ok vt'
       else parseVerneed n m (current + ucast vnNext) strtabAddr strtabSize vt')"

section \<open>The definitions\<close>

primrec parseVerdef :: "nat \<Rightarrow> memory \<Rightarrow> u64 \<Rightarrow> u64 \<Rightarrow> u64 \<Rightarrow> version_table \<Rightarrow> (version_error, version_table) result" where
  "parseVerdef 0 m current strtabAddr strtabSize vt = Ok vt"
| "parseVerdef (Suc n) m current strtabAddr strtabSize vt =
     bindR (rd16 m current) (\<lambda>vdVersion.
     bindR (rd16 m (current + 2)) (\<lambda>_.
     bindR (rd16 m (current + 4)) (\<lambda>vdNdx.
     bindR (rd16 m (current + 6)) (\<lambda>_.
     bindR (rd32 m (current + 8)) (\<lambda>_.
     bindR (rd32 m (current + 12)) (\<lambda>vdAux.
     bindR (rd32 m (current + 16)) (\<lambda>vdNext.
       if vdVersion \<noteq> 1 then Err (UnsupportedVerdef vdVersion)
       else
         bindR (rd32 m (current + ucast vdAux)) (\<lambda>vdaName.
         bindR (ReadCStringMem m strtabAddr (ucast vdaName) strtabSize) (\<lambda>name.
           let vt' = vt\<lparr>vt_Definitions := (vt_Definitions vt)(vdNdx \<mapsto> \<lparr>vd_Name = name, vd_Index = vdNdx\<rparr>)\<rparr>
           in if vdNext = 0 then Ok vt'
              else parseVerdef n m (current + ucast vdNext) strtabAddr strtabSize vt')))))))))"

section \<open>The tables of an object\<close>

definition ParseVersionTables ::
    "memory \<Rightarrow> u64 \<Rightarrow> u64 \<Rightarrow> u64 \<Rightarrow> u64 \<Rightarrow> u64 \<Rightarrow> u64 \<Rightarrow> u64 \<Rightarrow> u64 \<Rightarrow> version_table \<Rightarrow>
      (version_error, version_table) result" where
  "ParseVersionTables m versymAddr versymCount verneedAddr verneedNum verdefAddr verdefNum strtabAddr strtabSize vt =
     bindR (if versymAddr \<noteq> 0 \<and> versymCount > 0
            then bindR (unsafeSlice versymAddr versymCount 2) (\<lambda>s. Ok (vt\<lparr>vt_SymbolVersions := Some s\<rparr>))
            else Ok vt) (\<lambda>vt.
     bindR (if verneedAddr \<noteq> 0 \<and> verneedNum > 0
            then mapErr ParseVerneedErr (parseVerneed (unat verneedNum) m verneedAddr strtabAddr strtabSize vt)
            else Ok vt) (\<lambda>vt.
       if verdefAddr \<noteq> 0 \<and> verdefNum > 0
       then mapErr ParseVerdefErr (parseVerdef (unat verdefNum) m verdefAddr strtabAddr strtabSize vt)
       else Ok vt))"

definition getDynAddrAndCount :: "(u64 \<rightharpoonup> u64) \<Rightarrow> u64 \<Rightarrow> u64 \<Rightarrow> u64 \<Rightarrow> u64 \<times> u64" where
  "getDynAddrAndCount dynEntries baseAddr addrTag countTag =
     ((case dynEntries addrTag of Some v \<Rightarrow> baseAddr + v | None \<Rightarrow> 0),
      (case dynEntries countTag of Some v \<Rightarrow> v | None \<Rightarrow> 0))"

abbreviation (input) DT_VERSYM :: u64 where "DT_VERSYM \<equiv> 0x6ffffff0"
abbreviation (input) DT_VERNEED :: u64 where "DT_VERNEED \<equiv> 0x6ffffffe"
abbreviation (input) DT_VERNEEDNUM :: u64 where "DT_VERNEEDNUM \<equiv> 0x6fffffff"
abbreviation (input) DT_VERDEF :: u64 where "DT_VERDEF \<equiv> 0x6ffffffc"
abbreviation (input) DT_VERDEFNUM :: u64 where "DT_VERDEFNUM \<equiv> 0x6ffffffd"

definition ParseVersionInfo ::
    "memory \<Rightarrow> (u64 \<rightharpoonup> u64) \<Rightarrow> u64 \<Rightarrow> u64 \<Rightarrow> u64 \<Rightarrow> u64 \<Rightarrow> (version_error, version_table) result" where
  "ParseVersionInfo m dynEntries baseAddr strtabAddr strtabSize symCount =
     (let vt = NewVersionTable;
          versymAddr = (case dynEntries DT_VERSYM of Some v \<Rightarrow> baseAddr + v | None \<Rightarrow> 0);
          (verneedAddr, verneedNum) = getDynAddrAndCount dynEntries baseAddr DT_VERNEED DT_VERNEEDNUM;
          (verdefAddr, verdefNum) = getDynAddrAndCount dynEntries baseAddr DT_VERDEF DT_VERDEFNUM
      in ParseVersionTables m versymAddr symCount verneedAddr verneedNum verdefAddr verdefNum
           strtabAddr strtabSize vt)"

section \<open>Lookups\<close>

definition GetSymbolVersion :: "memory \<Rightarrow> version_table \<Rightarrow> u32 \<Rightarrow> ('e, u16) result" where
  "GetSymbolVersion m vt symIdx =
     (case vt_SymbolVersions vt of
        None \<Rightarrow> Ok 0
      | Some (p, n) \<Rightarrow>
          if ucast symIdx \<ge> n then Ok 0
          else bindR (rd16 m (p + 2 * ucast symIdx)) (\<lambda>v. Ok (v AND 0x7fff)))"

definition GetVersionName :: "version_table \<Rightarrow> u16 \<Rightarrow> string" where
  "GetVersionName vt verIdx =
     (case vt_Requirements vt verIdx of
        Some req \<Rightarrow> vr_Name req
      | None \<Rightarrow> (case vt_Definitions vt verIdx of Some d \<Rightarrow> vd_Name d | None \<Rightarrow> []))"

section \<open>The dynamic tags from raw bytes\<close>

function parseDynTagsLoop :: "bytes \<Rightarrow> (u64 \<rightharpoonup> u64) \<Rightarrow> (u64 \<rightharpoonup> u64)" where
  "parseDynTagsLoop dynData tags =
     (if 16 \<le> length dynData then
        let tag = Uint64 dynData; val = Uint64 (drop 8 dynData)
        in if tag = DT_NULL then tags
           else parseDynTagsLoop (drop 16 dynData) (tags(tag \<mapsto> val))
      else tags)"
  by pat_completeness auto
termination
  by (relation "measure (\<lambda>(d, _). length d)") auto

declare parseDynTagsLoop.simps [simp del]

definition ParseDynTags :: "bytes \<Rightarrow> (u64 \<rightharpoonup> u64)" where
  "ParseDynTags dynData = parseDynTagsLoop dynData Map.empty"

text \<open>It reads the same tags as the parser of \<open>elf/parse.go\<close>, which also notes the terminator.\<close>

lemma parseDynTagsLoop_dynLoop: "parseDynTagsLoop d e = fst (dynLoop d e)"
proof (induction d e rule: parseDynTagsLoop.induct)
  case (1 d e)
  note IH = "1.IH"[OF _ refl refl]
  show ?case
    by (subst parseDynTagsLoop.simps, subst dynLoop.simps) (simp add: Let_def IH del: fun_upd_apply)
qed

section \<open>The layout of the sections\<close>

text \<open>
  The encodings the format prescribes, as a linker writes them: every \<open>Verneed\<close> is followed by its
  \<open>Vernaux\<close> entries, every \<open>Verdef\<close> by its \<open>Verdaux\<close>, links are relative, the last link is zero.
\<close>

record vernaux =
  vna_hash :: u32
  vna_flags :: u16
  vna_other :: u16
  vna_name :: u32

record verneed =
  vn_file :: u32
  vn_auxs :: "vernaux list"

record verdef =
  vd_flags :: u16
  vd_ndx :: u16
  vd_hash :: u32
  vda_name :: u32

primrec encVernauxs :: "vernaux list \<Rightarrow> bytes" where
  "encVernauxs [] = []"
| "encVernauxs (x # xs) =
     le_enc 4 (unat (vna_hash x)) @ le_enc 2 (unat (vna_flags x)) @ le_enc 2 (unat (vna_other x)) @
     le_enc 4 (unat (vna_name x)) @ le_enc 4 (unat (if xs = [] then 0 else 16 :: u32)) @ encVernauxs xs"

primrec encVerneeds :: "verneed list \<Rightarrow> bytes" where
  "encVerneeds [] = []"
| "encVerneeds (x # xs) =
     le_enc 2 (unat (1 :: u16)) @ le_enc 2 (unat (of_nat (length (vn_auxs x)) :: u16)) @
     le_enc 4 (unat (vn_file x)) @ le_enc 4 (unat (16 :: u32)) @
     le_enc 4 (unat (if xs = [] then 0 else 16 + 16 * of_nat (length (vn_auxs x)) :: u32)) @
     encVernauxs (vn_auxs x) @ encVerneeds xs"

primrec encVerdefs :: "verdef list \<Rightarrow> bytes" where
  "encVerdefs [] = []"
| "encVerdefs (x # xs) =
     le_enc 2 (unat (1 :: u16)) @ le_enc 2 (unat (vd_flags x)) @ le_enc 2 (unat (vd_ndx x)) @
     le_enc 2 (unat (1 :: u16)) @ le_enc 4 (unat (vd_hash x)) @ le_enc 4 (unat (20 :: u32)) @
     le_enc 4 (unat (if xs = [] then 0 else 28 :: u32)) @
     le_enc 4 (unat (vda_name x)) @ le_enc 4 (unat (0 :: u32)) @ encVerdefs xs"

lemma length_encVernauxs [simp]: "length (encVernauxs xs) = 16 * length xs"
  by (induction xs) auto

abbreviation (input) requirement_of :: "(u32 \<Rightarrow> string) \<Rightarrow> vernaux \<Rightarrow> u16 \<times> version_requirement" where
  "requirement_of nm x \<equiv> (vna_other x, \<lparr>vr_Name = nm (vna_name x), vr_Index = vna_other x\<rparr>)"

abbreviation (input) definition_of :: "(u32 \<Rightarrow> string) \<Rightarrow> verdef \<Rightarrow> u16 \<times> version_definition" where
  "definition_of nm x \<equiv> (vd_ndx x, \<lparr>vd_Name = nm (vda_name x), vd_Index = vd_ndx x\<rparr>)"

lemma parseVernauxChain_enc:
  assumes "holds m a (encVernauxs xs)" and "\<And>x. x \<in> set xs \<Longrightarrow>
      (ReadCStringMem m strtab (ucast (vna_name x)) strsz :: (version_error, string) result) = Ok (nm (vna_name x))"
  shows "parseVernauxChain (length xs) m a strtab strsz vt =
    Ok (vt\<lparr>vt_Requirements := vt_Requirements vt ++ map_of (rev (map (requirement_of nm) xs))\<rparr>)"
  using assms
proof (induction xs arbitrary: a vt)
  case Nil
  then show ?case by simp
next
  case (Cons x xs)
  have fields: "rd16 m (a + 6) = Ok (vna_other x)" "rd32 m (a + 8) = Ok (vna_name x)"
      "rd32 m (a + 12) = Ok (if xs = [] then 0 else 16)" and rest: "holds m (a + 16) (encVernauxs xs)"
    using Cons.prems(1) by (simp_all add: holds_append add.assoc holds_rd16 holds_rd32 del: unsigned_numeral)
  note IH = Cons.IH[OF rest Cons.prems(2)]
  have upd: "vt_Requirements vt ++ map_of (rev (map (requirement_of nm) (x # xs))) =
      (vt_Requirements vt)(vna_other x \<mapsto> \<lparr>vr_Name = nm (vna_name x), vr_Index = vna_other x\<rparr>) ++
      map_of (rev (map (requirement_of nm) xs))"
    by (simp add: map_add_rev_Cons del: map_of_append)
  show ?case
    unfolding upd using Cons.prems(2)[of x]
    by (cases "xs = []") (simp_all add: fields IH fun_upd_def cong: if_cong)
qed

lemma parseVerneedEntry_enc:
  assumes h: "holds m a (encVerneeds (y # ys))" and n: "length (vn_auxs y) < 2 ^ 16"
    and nm: "\<And>x. x \<in> set (vn_auxs y) \<Longrightarrow>
      (ReadCStringMem m strtab (ucast (vna_name x)) strsz :: (version_error, string) result) = Ok (nm (vna_name x))"
  shows "parseVerneedEntry m a strtab strsz vt =
    Ok (if ys = [] then 0 else 16 + 16 * of_nat (length (vn_auxs y)),
        vt\<lparr>vt_Requirements := vt_Requirements vt ++ map_of (rev (map (requirement_of nm) (vn_auxs y)))\<rparr>)"
proof -
  have fields: "rd16 m a = Ok (1 :: u16)" "rd16 m (a + 2) = Ok (of_nat (length (vn_auxs y)) :: u16)"
      "rd32 m (a + 8) = Ok (16 :: u32)"
      "rd32 m (a + 12) = Ok (if ys = [] then 0 else 16 + 16 * of_nat (length (vn_auxs y)))"
    and auxs: "holds m (a + 16) (encVernauxs (vn_auxs y))"
    using h by (simp_all add: holds_append add.assoc holds_rd16 holds_rd32
        del: unsigned_numeral unsigned_1 unsigned_of_nat)
  have len: "unat (of_nat (length (vn_auxs y)) :: u16) = length (vn_auxs y)"
    using n by (simp add: unat_of_nat)
  show ?thesis
    unfolding parseVerneedEntry_def
    by (simp add: fields parseVernauxChain_enc[OF auxs nm] len del: unsigned_of_nat)
qed

lemma parseVerneed_enc:
  assumes "holds m a (encVerneeds ys)" and "length ys \<le> n"
    and "\<And>y. y \<in> set ys \<Longrightarrow> length (vn_auxs y) < 2 ^ 16"
    and "\<And>y x. y \<in> set ys \<Longrightarrow> x \<in> set (vn_auxs y) \<Longrightarrow>
      (ReadCStringMem m strtab (ucast (vna_name x)) strsz :: (version_error, string) result) = Ok (nm (vna_name x))"
    and "ys \<noteq> []"
  shows "parseVerneed n m a strtab strsz vt =
    Ok (vt\<lparr>vt_Requirements := vt_Requirements vt ++
         map_of (rev (map (requirement_of nm) (concat (map vn_auxs ys))))\<rparr>)"
  using assms
proof (induction ys arbitrary: a n vt)
  case Nil
  then show ?case by simp
next
  case (Cons y ys)
  obtain k where n: "n = Suc k" and k: "length ys \<le> k"
    using Cons.prems(2) by (cases n) auto
  note entry = parseVerneedEntry_enc[OF Cons.prems(1) Cons.prems(3) Cons.prems(4), OF list.set_intros(1) list.set_intros(1)]
  show ?case
  proof (cases "ys = []")
    case True
    then show ?thesis by (simp add: n entry)
  next
    case False
    let ?l = "16 + 16 * of_nat (length (vn_auxs y)) :: u32"
    have len: "length (vn_auxs y) < 65536" using Cons.prems(3)[of y] by simp
    then have l: "unat ?l = 16 + 16 * length (vn_auxs y)"
      by (simp add: unat_plus_if' unat_mult_lem[THEN iffD1] unat_of_nat)
    then have nz: "?l \<noteq> 0" by auto
    have "(ucast ?l :: u64) = of_nat (unat ?l)" by simp
    then have cast: "(ucast ?l :: u64) = 16 + 16 * of_nat (length (vn_auxs y))"
      by (simp only: l) simp
    have rest: "holds m (a + ucast ?l) (encVerneeds ys)"
      using Cons.prems(1) by (simp add: holds_append add.assoc cast)
    have "\<And>z. z \<in> set ys \<Longrightarrow> length (vn_auxs z) < 2 ^ 16"
      and "\<And>z x. z \<in> set ys \<Longrightarrow> x \<in> set (vn_auxs z) \<Longrightarrow>
        (ReadCStringMem m strtab (ucast (vna_name x)) strsz :: (version_error, string) result) = Ok (nm (vna_name x))"
      using Cons.prems(3,4) by auto
    note IH = Cons.IH[OF rest k this False]
    show ?thesis
      using False nz by (simp add: n entry IH)
  qed
qed

lemma parseVerdef_enc:
  assumes "holds m a (encVerdefs xs)" and "length xs \<le> n"
    and "\<And>x. x \<in> set xs \<Longrightarrow>
      (ReadCStringMem m strtab (ucast (vda_name x)) strsz :: (version_error, string) result) = Ok (nm (vda_name x))"
    and "xs \<noteq> []"
  shows "parseVerdef n m a strtab strsz vt =
    Ok (vt\<lparr>vt_Definitions := vt_Definitions vt ++ map_of (rev (map (definition_of nm) xs))\<rparr>)"
  using assms
proof (induction xs arbitrary: a n vt)
  case Nil
  then show ?case by simp
next
  case (Cons x xs)
  obtain k where n: "n = Suc k" and k: "length xs \<le> k"
    using Cons.prems(2) by (cases n) auto
  have fields: "rd16 m a = Ok (1 :: u16)" "rd16 m (a + 2) = Ok (vd_flags x)" "rd16 m (a + 4) = Ok (vd_ndx x)"
      "rd16 m (a + 6) = Ok (1 :: u16)" "rd32 m (a + 8) = Ok (vd_hash x)" "rd32 m (a + 12) = Ok (20 :: u32)"
      "rd32 m (a + 16) = Ok (if xs = [] then 0 else 28)" "rd32 m (a + 20) = Ok (vda_name x)"
    and rest: "holds m (a + 28) (encVerdefs xs)"
    using Cons.prems(1) by (simp_all add: holds_append add.assoc holds_rd16 holds_rd32
        del: unsigned_numeral unsigned_1)
  have upd: "vt_Definitions vt ++ map_of (rev (map (definition_of nm) (x # xs))) =
      (vt_Definitions vt)(vd_ndx x \<mapsto> \<lparr>vd_Name = nm (vda_name x), vd_Index = vd_ndx x\<rparr>) ++
      map_of (rev (map (definition_of nm) xs))"
    by (simp add: map_add_rev_Cons del: map_of_append)
  note name = Cons.prems(3)[OF list.set_intros(1)]
  show ?case
  proof (cases "xs = []")
    case True
    then show ?thesis unfolding upd by (simp add: n fields name fun_upd_def)
  next
    case False
    note IH = Cons.IH[OF rest k Cons.prems(3)[OF list.set_intros(2)] False]
    show ?thesis unfolding upd using False by (simp add: n fields name IH)
  qed
qed

section \<open>Properties\<close>

text \<open>
  C38: symbol version tables round trip. When the mapped object holds the \<open>DT_VERNEED\<close> and \<open>DT_VERDEF\<close>
  sections a linker writes for the versions it needs and defines, and \<open>DT_VERSYM\<close> gives a slice Go
  accepts, \<open>ParseVersionInfo\<close> succeeds and has exactly those versions, under their indices and with the
  names the string table gives (a later entry of an index replaces an earlier one).
\<close>

theorem ParseVersionInfo_roundtrip:
  assumes dyn: "dyn DT_VERSYM = Some vs" "dyn DT_VERNEED = Some vn" "dyn DT_VERNEEDNUM = Some nn"
      "dyn DT_VERDEF = Some vd" "dyn DT_VERDEFNUM = Some nd"
    and nonnull: "base + vs \<noteq> 0" "base + vn \<noteq> 0" "base + vd \<noteq> 0" and count: "0 < symCount"
    and slice: "unsafeSlice (base + vs) symCount 2 = (Ok (base + vs, symCount) :: (version_error, u64 \<times> u64) result)"
    and need: "holds m (base + vn) (encVerneeds needs)" "needs \<noteq> []" "length needs = unat nn"
      "\<forall>y\<in>set needs. length (vn_auxs y) < 2 ^ 16"
    and defs: "holds m (base + vd) (encVerdefs defs)" "defs \<noteq> []" "length defs = unat nd"
    and names: "\<forall>off\<in>vda_name ` set defs \<union> vna_name ` set (concat (map vn_auxs needs)).
      ReadCStringMem m strtab (ucast off) strsz = (Ok (nm off) :: (version_error, string) result)"
  shows "ParseVersionInfo m dyn base strtab strsz symCount =
    Ok \<lparr>vt_Requirements = map_of (rev (map (\<lambda>x. (vna_other x, \<lparr>vr_Name = nm (vna_name x), vr_Index = vna_other x\<rparr>))
                                       (concat (map vn_auxs needs)))),
        vt_Definitions = map_of (rev (map (\<lambda>x. (vd_ndx x, \<lparr>vd_Name = nm (vda_name x), vd_Index = vd_ndx x\<rparr>)) defs)),
        vt_SymbolVersions = Some (base + vs, symCount)\<rparr>"
proof -
  have nn: "0 < nn" using need(2,3) by (cases "nn = 0") (auto simp: word_gt_0)
  have nd: "0 < nd" using defs(2,3) by (cases "nd = 0") (auto simp: word_gt_0)
  have "\<And>y. y \<in> set needs \<Longrightarrow> length (vn_auxs y) < 2 ^ 16"
    and "\<And>y x. y \<in> set needs \<Longrightarrow> x \<in> set (vn_auxs y) \<Longrightarrow>
      (ReadCStringMem m strtab (ucast (vna_name x)) strsz :: (version_error, string) result) = Ok (nm (vna_name x))"
    using need(4) by (simp, intro names[THEN bspec] UnI2 imageI) auto
  note vneed = parseVerneed_enc[OF need(1) eq_refl[OF need(3)] this need(2)]
  have "\<And>x. x \<in> set defs \<Longrightarrow>
      (ReadCStringMem m strtab (ucast (vda_name x)) strsz :: (version_error, string) result) = Ok (nm (vda_name x))"
    using names by auto
  note vdef = parseVerdef_enc[OF defs(1) eq_refl[OF defs(3)] this defs(2)]
  show ?thesis
    using nn nd nonnull count
    by (simp add: ParseVersionInfo_def getDynAddrAndCount_def dyn ParseVersionTables_def slice vneed vdef
        NewVersionTable_def)
qed

text \<open>A library that needs version \<open>V2\<close> (index 3) of one file and defines version \<open>V1\<close> (index 2).\<close>

definition demoNeeds :: "verneed list" where
  "demoNeeds = [\<lparr>vn_file = 0, vn_auxs = [\<lparr>vna_hash = 9, vna_flags = 0, vna_other = 3, vna_name = 4\<rparr>]\<rparr>]"

definition demoDefs :: "verdef list" where
  "demoDefs = [\<lparr>vd_flags = 0, vd_ndx = 2, vd_hash = 7, vda_name = 1\<rparr>]"

definition demoVerBytes :: bytes where
  "demoVerBytes = encVerneeds demoNeeds @ encVerdefs demoDefs @
     [0] @ map ord ''V1'' @ [0] @ map ord ''V2'' @ [0]"

definition demoVerMem :: memory where
  "demoVerMem = \<lparr>mbytes = store (\<lambda>_. 0) 0x1000 demoVerBytes,
                 mprot = (\<lambda>x. if in_region 0x1000 4096 x then Some 1 else None)\<rparr>"

definition demoVerDyn :: "u64 \<rightharpoonup> u64" where
  "demoVerDyn = [DT_VERSYM \<mapsto> 0x80, DT_VERNEED \<mapsto> 0, DT_VERNEEDNUM \<mapsto> 1, DT_VERDEF \<mapsto> 32, DT_VERDEFNUM \<mapsto> 1]"

lemma demoVer_holds: "holds demoVerMem 0x1000 demoVerBytes"
proof -
  have "length demoVerBytes = 67"
    by (simp add: demoVerBytes_def demoNeeds_def demoDefs_def)
  then have "holds (demoVerMem\<lparr>mbytes := store (\<lambda>_. 0) 0x1000 demoVerBytes\<rparr>) 0x1000 demoVerBytes"
    by (intro holds_store) (auto simp: all_readable_iff readable_def demoVerMem_def in_region_def unat_of_nat64)
  then show ?thesis by (simp add: demoVerMem_def)
qed

lemma demoVer_names:
  "ReadCStringMem demoVerMem 0x103C 1 7 = Ok ''V1''" "ReadCStringMem demoVerMem 0x103C 4 7 = Ok ''V2''"
proof -
  have "holds demoVerMem 0x103D (map ord ''V1'' @ [0])"
    using holds_take[OF holds_drop[OF demoVer_holds, of 61], of 3]
    by (simp add: demoVerBytes_def demoNeeds_def demoDefs_def)
  moreover have "holds demoVerMem 0x1040 (map ord ''V2'' @ [0])"
    using holds_drop[OF demoVer_holds, of 64]
    by (simp add: demoVerBytes_def demoNeeds_def demoDefs_def)
  ultimately show "ReadCStringMem demoVerMem 0x103C 1 7 = Ok ''V1''"
    and "ReadCStringMem demoVerMem 0x103C 4 7 = Ok ''V2''"
    by (simp_all add: ReadCStringMem_holds)
qed

theorem ParseVersionInfo_roundtrip_witness:
  "ParseVersionInfo demoVerMem demoVerDyn 0x1000 0x103C 7 4 =
    Ok \<lparr>vt_Requirements = [3 \<mapsto> \<lparr>vr_Name = ''V2'', vr_Index = 3\<rparr>],
        vt_Definitions = [2 \<mapsto> \<lparr>vd_Name = ''V1'', vd_Index = 2\<rparr>],
        vt_SymbolVersions = Some (0x1080, 4)\<rparr>"
proof -
  have n: "holds demoVerMem (0x1000 + 0) (encVerneeds demoNeeds)"
    and d: "holds demoVerMem (0x1000 + 32) (encVerdefs demoDefs)"
    using demoVer_holds
    by (simp_all add: demoVerBytes_def holds_append) (simp_all add: demoNeeds_def)
  have dyn: "demoVerDyn DT_VERSYM = Some 0x80" "demoVerDyn DT_VERNEED = Some 0"
    "demoVerDyn DT_VERNEEDNUM = Some 1" "demoVerDyn DT_VERDEF = Some 32" "demoVerDyn DT_VERDEFNUM = Some 1"
    by (simp_all add: demoVerDyn_def)
  show ?thesis
    by (subst ParseVersionInfo_roundtrip[OF dyn _ _ _ _ _ n _ _ _ d,
          where nm = "\<lambda>x. if x = 1 then ''V1'' else ''V2''"])
      (simp_all add: unsafeSlice_def demoNeeds_def demoDefs_def demoVer_names)
qed

end
