(* ===== verification/Sym_Table.thy ===== *)
theory Sym_Table
  imports Sym_Version
begin

text \<open>
  \<open>symbol/symbol.go\<close>: the name index of a loaded object and how it is filled from the symbol table in
  mapped memory. An \<open>Elf64_Sym\<close> is read through a pointer, field by field, when the code uses the
  field. \<open>elf.SymBind\<close>, \<open>elf.SymType\<close> and \<open>elf.SectionIndex\<close> are Go \<open>int\<close>s.
\<close>

unbundle bit_operations_syntax

record symbol =
  sym_Name :: string
  sym_Value :: u64
  sym_Size :: u64
  sym_Bind :: i64
  sym_Type :: i64
  sym_Section :: i64
  sym_VerIdx :: u16
  sym_VerName :: string

record symtable =
  t_symbols :: "string \<rightharpoonup> symbol"
  t_base :: u64
  t_versions :: "version_table option"

datatype symbol_error = SymtabAddrZero | HashAddrZero | SymbolNotFound string

definition NewTable :: "u64 \<Rightarrow> symtable" where
  "NewTable base = \<lparr>t_symbols = Map.empty, t_base = base, t_versions = None\<rparr>"

definition SetVersionTable :: "symtable \<Rightarrow> version_table option \<Rightarrow> symtable" where
  "SetVersionTable t vt = t\<lparr>t_versions := vt\<rparr>"

definition AddSymbol :: "symtable \<Rightarrow> string \<Rightarrow> symbol \<Rightarrow> symtable" where
  "AddSymbol t name s = t\<lparr>t_symbols := (t_symbols t)(name \<mapsto> s)\<rparr>"

definition Lookup :: "symtable \<Rightarrow> string \<Rightarrow> symbol option" where
  "Lookup t name = t_symbols t name"

definition LookupVersion :: "symtable \<Rightarrow> string \<Rightarrow> string \<Rightarrow> symbol option" where
  "LookupVersion t name version =
     (if version = [] then Lookup t name
      else case t_symbols t name of
             None \<Rightarrow> None
           | Some s \<Rightarrow> if sym_VerName s = version \<or> sym_VerName s = [] then Some s else None)"

text \<open>\<open>order\<close> is the order in which Go happens to iterate over the map: any enumeration of its keys.\<close>

definition ForEach :: "string list \<Rightarrow> symtable \<Rightarrow> (string \<Rightarrow> symbol \<Rightarrow> 's \<Rightarrow> 's) \<Rightarrow> 's \<Rightarrow> 's" where
  "ForEach order t fn s =
     fold (\<lambda>k s. case t_symbols t k of Some v \<Rightarrow> fn k v s | None \<Rightarrow> s) order s"

section \<open>Loading the table\<close>

abbreviation (input) symEntSize :: u64 where "symEntSize \<equiv> 24"
abbreviation (input) maxFallbackSymbols :: u64 where "maxFallbackSymbols \<equiv> 4096"

definition computeSymtabSize :: "u64 \<Rightarrow> u64" where
  "computeSymtabSize symtabSize = (if symtabSize = 0 then symEntSize * maxFallbackSymbols else symtabSize)"

text \<open>The pointer \<open>s\<close> is an address; the conditions load the fields in the order the code does.\<close>

definition shouldProcessSymbol :: "memory \<Rightarrow> u64 \<Rightarrow> ('e, bool) result" where
  "shouldProcessSymbol m s =
     bindR (rd32 m s) (\<lambda>name.
     bindR (if name = 0 then bindR (rd64 m (s + 8)) (\<lambda>v. Ok (v = 0)) else Ok False) (\<lambda>null.
       if null then Ok False
       else bindR (rd8 m (s + 4)) (\<lambda>info.
         if drop_bit 4 info \<noteq> 1 \<and> drop_bit 4 info \<noteq> 2 then Ok False
         else bindR (rd16 m (s + 6)) (\<lambda>shndx. Ok (shndx \<noteq> 0)))))"

definition buildSymbol :: "memory \<Rightarrow> symtable \<Rightarrow> u64 \<Rightarrow> string \<Rightarrow> u64 \<Rightarrow> ('e, symbol) result" where
  "buildSymbol m t s name idx =
     bindR (rd8 m (s + 4)) (\<lambda>info.
     bindR (rd64 m (s + 8)) (\<lambda>value.
     bindR (rd64 m (s + 16)) (\<lambda>sz.
     bindR (rd16 m (s + 6)) (\<lambda>shndx.
       let sym = \<lparr>sym_Name = name, sym_Value = t_base t + value, sym_Size = sz,
                  sym_Bind = ucast (drop_bit 4 info), sym_Type = ucast (info AND 0xf),
                  sym_Section = ucast shndx, sym_VerIdx = 0, sym_VerName = []\<rparr>
       in (case t_versions t of
             None \<Rightarrow> Ok sym
           | Some vt \<Rightarrow>
               bindR (GetSymbolVersion m vt (ucast idx)) (\<lambda>verIdx.
                 Ok (sym\<lparr>sym_VerIdx := verIdx,
                         sym_VerName := if verIdx > 1 then GetVersionName vt verIdx else []\<rparr>)))))))"

definition shouldSkipSymbol :: "memory \<Rightarrow> symtable \<Rightarrow> string \<Rightarrow> u64 \<Rightarrow> ('e, bool) result" where
  "shouldSkipSymbol m t name symIdx =
     (case t_symbols t name of
        None \<Rightarrow> Ok False
      | Some _ \<Rightarrow>
         (case t_versions t of
            None \<Rightarrow> Ok False
          | Some vt \<Rightarrow>
             (case vt_SymbolVersions vt of
                None \<Rightarrow> Ok False
              | Some (p, n) \<Rightarrow>
                 if symIdx < n then bindR (rd16 m (p + 2 * symIdx)) (\<lambda>v. Ok (v AND 0x8000 \<noteq> 0))
                 else Ok False)))"

definition loadSymbolEntry ::
    "memory \<Rightarrow> u64 \<Rightarrow> u64 \<Rightarrow> u64 \<Rightarrow> u64 \<Rightarrow> symtable \<Rightarrow> (symbol_error, symtable) result" where
  "loadSymbolEntry m symtabAddr strtabAddr idx strtabSize t =
     (let s = symtabAddr + idx * symEntSize
      in bindR (shouldProcessSymbol m s) (\<lambda>process.
           if \<not> process then Ok t
           else
             bindR (rd32 m s) (\<lambda>nameOff.
             bindR (ReadCStringMem m strtabAddr (ucast nameOff) strtabSize) (\<lambda>name.
               if name = [] then Ok t
               else
                 bindR (buildSymbol m t s name idx) (\<lambda>sym.
                 bindR (shouldSkipSymbol m t name idx) (\<lambda>skip.
                   if skip then Ok t
                   else Ok (t\<lparr>t_symbols := (t_symbols t)(name \<mapsto> sym)\<rparr>)))))))"

definition LoadFromDynamic ::
    "memory \<Rightarrow> symtable \<Rightarrow> u64 \<Rightarrow> u64 \<Rightarrow> u64 \<Rightarrow> u64 \<Rightarrow> (symbol_error, symtable) result" where
  "LoadFromDynamic m t symtabAddr strtabAddr symtabSize strtabSize =
     (if symtabAddr = 0 then Err SymtabAddrZero
      else
        let n = computeSymtabSize symtabSize div symEntSize
        in forR (\<lambda>i. loadSymbolEntry m symtabAddr strtabAddr (of_nat i) strtabSize) [0..<unat n] t)"

section \<open>The table as it is laid out\<close>

record elf64sym =
  st_name :: u32
  st_info :: u8
  st_other :: u8
  st_shndx :: u16
  st_value :: u64
  st_size :: u64

definition encSym :: "elf64sym \<Rightarrow> bytes" where
  "encSym e = le_enc 4 (unat (st_name e)) @ [st_info e] @ [st_other e] @ le_enc 2 (unat (st_shndx e)) @
     le_enc 8 (unat (st_value e)) @ le_enc 8 (unat (st_size e))"

lemma length_encSym [simp]: "length (encSym e) = 24"
  by (simp add: encSym_def)

lemma encSym_fields:
  assumes "holds m a (encSym e)"
  shows "rd32 m a = Ok (st_name e)" and "rd8 m (a + 4) = Ok (st_info e)" and "rd16 m (a + 6) = Ok (st_shndx e)"
    and "rd64 m (a + 8) = Ok (st_value e)" and "rd64 m (a + 16) = Ok (st_size e)"
  using assms
  by (simp_all add: encSym_def holds_append holds_Cons add.assoc holds_rd16 holds_rd32 holds_rd64)

text \<open>The \<open>i\<close>-th entry of the table.\<close>

lemma holds_concat:
  assumes "holds m a (concat (map enc xs))" and "\<And>x. length (enc x) = k" and "i < length xs"
  shows "holds m (a + of_nat (i * k)) (enc (xs ! i))"
  using assms(1,3)
proof (induction xs arbitrary: a i)
  case Nil
  then show ?case by simp
next
  case (Cons x xs)
  have h: "holds m a (enc x)" "holds m (a + of_nat k) (concat (map enc xs))"
    using Cons.prems(1) by (simp_all add: holds_append assms(2))
  show ?case
  proof (cases i)
    case 0
    with h show ?thesis by simp
  next
    case (Suc j)
    with Cons.IH[OF h(2), of j] Cons.prems(2) show ?thesis by (simp add: add.assoc)
  qed
qed

section \<open>The specification: one symbol per name\<close>

definition eligible :: "elf64sym \<Rightarrow> bool" where
  "eligible e \<longleftrightarrow> \<not> (st_name e = 0 \<and> st_value e = 0) \<and> drop_bit 4 (st_info e) \<in> {1, 2} \<and> st_shndx e \<noteq> 0"

text \<open>The raw \<open>DT_VERSYM\<close> entry of a symbol: 0 where there is none.\<close>

definition rawVersion :: "version_table option \<Rightarrow> u16 list \<Rightarrow> nat \<Rightarrow> u16" where
  "rawVersion vo vs i =
     (case vo of None \<Rightarrow> 0 | Some vt \<Rightarrow>
        (case vt_SymbolVersions vt of None \<Rightarrow> 0 | Some _ \<Rightarrow> if i < length vs then vs ! i else 0))"

definition versionString :: "version_table option \<Rightarrow> u16 \<Rightarrow> string" where
  "versionString vo v = (case vo of None \<Rightarrow> [] | Some vt \<Rightarrow> if v > 1 then GetVersionName vt v else [])"

definition symbolOf :: "u64 \<Rightarrow> version_table option \<Rightarrow> u16 \<Rightarrow> string \<Rightarrow> elf64sym \<Rightarrow> symbol" where
  "symbolOf base vo raw name e =
     \<lparr>sym_Name = name, sym_Value = base + st_value e, sym_Size = st_size e,
      sym_Bind = ucast (drop_bit 4 (st_info e)), sym_Type = ucast (st_info e AND 0xf),
      sym_Section = ucast (st_shndx e), sym_VerIdx = raw AND 0x7fff,
      sym_VerName = versionString vo (raw AND 0x7fff)\<rparr>"

text \<open>The symbols of the first \<open>n\<close> entries that count, in table order, each with its hidden mark.\<close>

definition candidates ::
    "u64 \<Rightarrow> version_table option \<Rightarrow> u16 list \<Rightarrow> (u32 \<Rightarrow> string) \<Rightarrow> elf64sym list \<Rightarrow> nat \<Rightarrow> (symbol \<times> bool) list" where
  "candidates base vo vs nm es n =
     map (\<lambda>i. (symbolOf base vo (rawVersion vo vs i) (nm (st_name (es ! i))) (es ! i),
               rawVersion vo vs i AND 0x8000 \<noteq> 0))
       (filter (\<lambda>i. eligible (es ! i) \<and> nm (st_name (es ! i)) \<noteq> []) [0..<n])"

text \<open>
  The choice among the symbols of one name: the last default version; where all are hidden, the first.
\<close>

definition pick :: "('a \<times> bool) list \<Rightarrow> 'a option" where
  "pick xs = (case filter (Not \<circ> snd) xs of
     [] \<Rightarrow> (case xs of [] \<Rightarrow> None | x # _ \<Rightarrow> Some (fst x))
   | ys \<Rightarrow> Some (fst (last ys)))"

lemma pick_Nil [simp]: "pick [] = None"
  by (simp add: pick_def)

lemma pick_snoc: "pick (xs @ [(s, h)]) = (if pick xs \<noteq> None \<and> h then pick xs else Some s)"
  by (cases "filter (Not \<circ> snd) xs") (auto simp: pick_def split: list.splits)

section \<open>The loop meets it\<close>

lemma shouldProcessSymbol_enc: "holds m s (encSym e) \<Longrightarrow> shouldProcessSymbol m s = Ok (eligible e)"
  by (auto simp: shouldProcessSymbol_def encSym_fields eligible_def ex_bool_eq)

definition versions_held :: "memory \<Rightarrow> version_table option \<Rightarrow> u16 list \<Rightarrow> bool" where
  "versions_held m vo vs \<longleftrightarrow>
     (case vo of None \<Rightarrow> True | Some vt \<Rightarrow>
        (case vt_SymbolVersions vt of None \<Rightarrow> True
         | Some (p, n) \<Rightarrow> unat n = length vs \<and> holds m p (concat (map (\<lambda>v. le_enc 2 (unat v)) vs))))"

lemma versions_held_rd:
  assumes "versions_held m (Some vt) vs" and "vt_SymbolVersions vt = Some (p, n)" and "i < length vs"
  shows "rd16 m (p + 2 * of_nat i) = Ok (vs ! i)"
proof -
  have "holds m p (concat (map (\<lambda>v. le_enc 2 (unat v)) vs))"
    using assms(1,2) by (simp add: versions_held_def)
  from holds_concat[OF this, of 2 i] assms(3) show ?thesis
    by (simp add: holds_rd16 mult.commute)
qed

lemma versions_held_slice:
  assumes "versions_held m (Some vt) vs" and "vt_SymbolVersions vt = Some (p, n)" and "i < 2 ^ 64"
  shows "of_nat i < n \<longleftrightarrow> i < length vs"
  using assms by (simp add: versions_held_def word_less_nat_alt unat_of_nat64)

lemma GetSymbolVersion_held:
  assumes "versions_held m (Some vt) vs" and "i < 2 ^ 32"
  shows "GetSymbolVersion m vt (of_nat i) = Ok (rawVersion (Some vt) vs i AND 0x7fff)"
proof (cases "vt_SymbolVersions vt")
  case None
  then show ?thesis by (simp add: GetSymbolVersion_def rawVersion_def)
next
  case (Some pn)
  obtain p n where pn: "vt_SymbolVersions vt = Some (p, n)" using Some by (cases pn) auto
  have "unat (of_nat i :: u32) = i" using assms(2) by (simp add: unat_of_nat)
  then have "(ucast (of_nat i :: u32) :: u64) = of_nat i" by (simp add: unsigned_of_nat take_bit_nat_eq_self)
  then show ?thesis
    using versions_held_slice[OF assms(1) pn, of i] assms(2)
    by (simp add: GetSymbolVersion_def rawVersion_def pn linorder_not_less[symmetric]
        versions_held_rd[OF assms(1) pn] del: not_less)
qed

lemma buildSymbol_enc:
  assumes "holds m s (encSym e)" and "versions_held m (t_versions t) vs" and "i < 2 ^ 32"
  shows "buildSymbol m t s name (of_nat i) =
    Ok (symbolOf (t_base t) (t_versions t) (rawVersion (t_versions t) vs i) name e)"
proof (cases "t_versions t")
  case None
  with assms(1) show ?thesis
    by (simp add: buildSymbol_def encSym_fields symbolOf_def rawVersion_def versionString_def)
next
  case (Some vt)
  have "(ucast (of_nat i :: u64) :: u32) = of_nat i"
    using assms(3) by (simp add: unsigned_of_nat take_bit_nat_eq_self)
  then show ?thesis
    using assms Some GetSymbolVersion_held[of m vt vs i]
    by (simp add: buildSymbol_def encSym_fields symbolOf_def versionString_def)
qed

lemma shouldSkipSymbol_held:
  assumes "versions_held m (t_versions t) vs" and "i < 2 ^ 64"
  shows "shouldSkipSymbol m t name (of_nat i) =
    Ok (t_symbols t name \<noteq> None \<and> rawVersion (t_versions t) vs i AND 0x8000 \<noteq> 0)"
proof (cases "t_versions t")
  case None
  then show ?thesis by (simp add: shouldSkipSymbol_def rawVersion_def split: option.split)
next
  case (Some vt)
  show ?thesis
  proof (cases "vt_SymbolVersions vt")
    case None
    with Some show ?thesis by (simp add: shouldSkipSymbol_def rawVersion_def split: option.split)
  next
    case (Some pn)
    then obtain p n where pn: "vt_SymbolVersions vt = Some (p, n)" by (cases pn) auto
    with assms \<open>t_versions t = Some vt\<close> show ?thesis
      using versions_held_slice[of m vt vs p n i]
      by (simp add: shouldSkipSymbol_def rawVersion_def versions_held_rd[of m vt vs p n i] split: option.split)
  qed
qed

text \<open>The table after the first \<open>n\<close> entries.\<close>

definition loaded ::
    "u64 \<Rightarrow> version_table option \<Rightarrow> u16 list \<Rightarrow> (u32 \<Rightarrow> string) \<Rightarrow> elf64sym list \<Rightarrow> nat \<Rightarrow> symtable" where
  "loaded base vo vs nm es n =
     \<lparr>t_symbols = (\<lambda>name. pick (filter (\<lambda>c. sym_Name (fst c) = name) (candidates base vo vs nm es n))),
      t_base = base, t_versions = vo\<rparr>"

lemma loaded_0: "loaded base vo vs nm es 0 = \<lparr>t_symbols = Map.empty, t_base = base, t_versions = vo\<rparr>"
  by (simp add: loaded_def candidates_def fun_eq_iff)

lemma candidates_Suc:
  "candidates base vo vs nm es (Suc n) = candidates base vo vs nm es n @
     (if eligible (es ! n) \<and> nm (st_name (es ! n)) \<noteq> []
      then [(symbolOf base vo (rawVersion vo vs n) (nm (st_name (es ! n))) (es ! n),
             rawVersion vo vs n AND 0x8000 \<noteq> 0)]
      else [])"
  by (simp add: candidates_def)

lemma loadSymbolEntry_loaded:
  assumes es: "holds m symtab (concat (map encSym es))" and vs: "versions_held m vo vs"
    and nm: "\<And>e. e \<in> set es \<Longrightarrow> eligible e \<Longrightarrow>
      (ReadCStringMem m strtab (ucast (st_name e)) strsz :: (symbol_error, string) result) = Ok (nm (st_name e))"
    and n: "n < length es" "n < 2 ^ 32"
  shows "loadSymbolEntry m symtab strtab (of_nat n) strsz (loaded base vo vs nm es n) =
    Ok (loaded base vo vs nm es (Suc n))"
proof -
  let ?e = "es ! n" and ?t = "loaded base vo vs nm es n" and ?s = "symtab + of_nat n * 24"
  have h: "holds m ?s (encSym ?e)"
    using holds_concat[OF es length_encSym n(1)] by simp
  have t: "t_base ?t = base" "t_versions ?t = vo"
    by (simp_all add: loaded_def)
  show ?thesis
  proof (cases "eligible ?e \<and> nm (st_name ?e) \<noteq> []")
    case False
    then have "loaded base vo vs nm es (Suc n) = ?t"
      by (simp only: loaded_def candidates_Suc if_not_P[OF False] if_False append_Nil2)
    then show ?thesis
      using False nm[of ?e] n(1)
      by (auto simp: loadSymbolEntry_def shouldProcessSymbol_enc[OF h] encSym_fields[OF h] Let_def)
  next
    case True
    let ?name = "nm (st_name ?e)" and ?raw = "rawVersion vo vs n"
    let ?sym = "symbolOf base vo ?raw ?name ?e"
    have name: "sym_Name ?sym = ?name" by (simp add: symbolOf_def)
    have step: "loaded base vo vs nm es (Suc n) =
        (if t_symbols ?t ?name \<noteq> None \<and> ?raw AND 0x8000 \<noteq> 0 then ?t
         else ?t\<lparr>t_symbols := (t_symbols ?t)(?name \<mapsto> ?sym)\<rparr>)"
      by (auto simp: loaded_def candidates_Suc if_P[OF True] fun_eq_iff pick_snoc name simp del: not_None_eq)
    have b: "buildSymbol m ?t ?s ?name (of_nat n) = Ok ?sym"
      using buildSymbol_enc[OF h, of ?t vs n] vs n(2) by (simp add: t)
    have k: "shouldSkipSymbol m ?t ?name (of_nat n) = Ok (t_symbols ?t ?name \<noteq> None \<and> ?raw AND 0x8000 \<noteq> 0)"
      using shouldSkipSymbol_held[of m ?t vs n] vs n(2) by (simp add: t)
    show ?thesis
      unfolding step using True nm[of ?e] n(1)
      by (simp add: loadSymbolEntry_def shouldProcessSymbol_enc[OF h] encSym_fields[OF h] b k Let_def)
  qed
qed

lemma LoadFromDynamic_loaded:
  assumes "holds m symtab (concat (map encSym es))" and "versions_held m vo vs"
    and "\<And>e. e \<in> set es \<Longrightarrow> eligible e \<Longrightarrow>
      (ReadCStringMem m strtab (ucast (st_name e)) strsz :: (symbol_error, string) result) = Ok (nm (st_name e))"
    and "n \<le> length es" and "length es < 2 ^ 32"
  shows "forR (\<lambda>i. loadSymbolEntry m symtab strtab (of_nat i) strsz) [0..<n] (loaded base vo vs nm es 0) =
    Ok (loaded base vo vs nm es n)"
  using assms(4)
proof (induction n)
  case 0
  then show ?case by simp
next
  case (Suc n)
  then show ?case
    using loadSymbolEntry_loaded[OF assms(1,2,3), of n] assms(5) by (simp add: forR_append)
qed

lemma LoadFromDynamic_run:
  assumes "symtab \<noteq> 0" and "es \<noteq> []" and "length es < 2 ^ 32"
    and "holds m symtab (concat (map encSym es))" and "versions_held m vo vs"
    and "\<And>e. e \<in> set es \<Longrightarrow> eligible e \<Longrightarrow>
      (ReadCStringMem m strtab (ucast (st_name e)) strsz :: (symbol_error, string) result) = Ok (nm (st_name e))"
  shows "LoadFromDynamic m (SetVersionTable (NewTable base) vo) symtab strtab (24 * of_nat (length es)) strsz =
    Ok (loaded base vo vs nm es (length es))"
proof -
  let ?sz = "24 * of_nat (length es) :: u64"
  have sz: "unat ?sz = 24 * length es"
    using assms(3) by (simp add: unat_mult_lem[THEN iffD1] unat_of_nat64)
  then have nz: "?sz \<noteq> 0" using assms(2) by auto
  have n: "unat (computeSymtabSize ?sz div 24) = length es"
    using nz sz by (simp add: computeSymtabSize_def unat_div)
  note loop = LoadFromDynamic_loaded[OF assms(4,5,6) order_refl assms(3)]
  show ?thesis
    using loop assms(1) by (simp only: LoadFromDynamic_def if_not_P Let_def n loaded_0 SetVersionTable_def
        NewTable_def symtable.simps symtable.update_convs simp_thms if_False)
qed

section \<open>Properties\<close>

text \<open>
  C28: loading refines the specification. For a mapped symbol table of given entries and a matching
  \<open>DT_VERSYM\<close> array, the index built from an empty table holds under each name exactly one symbol:
  the last default-version definition of the name, or where every definition is hidden the first;
  names without a global or weak definition are absent. Values are base plus \<open>st_value\<close>.
\<close>

theorem LoadFromDynamic_table:
  assumes "symtab \<noteq> 0" and "es \<noteq> []" and "length es < 2 ^ 32"
    and "holds m symtab (concat (map encSym es))" and "versions_held m vo vs"
    and "\<forall>e\<in>set es. eligible e \<longrightarrow>
      ReadCStringMem m strtab (ucast (st_name e)) strsz = (Ok (nm (st_name e)) :: (symbol_error, string) result)"
  shows "\<exists>t'. LoadFromDynamic m (SetVersionTable (NewTable base) vo) symtab strtab (24 * of_nat (length es)) strsz = Ok t' \<and>
    t_base t' = base \<and> t_versions t' = vo \<and>
    (\<forall>name. Lookup t' name =
       pick (filter (\<lambda>c. sym_Name (fst c) = name) (candidates base vo vs nm es (length es))))"
  using LoadFromDynamic_run[OF assms(1-5)] assms(6) by (simp add: loaded_def Lookup_def)

text \<open>A library with two versions of \<open>f\<close>: the old one, \<open>V1\<close>, is hidden.\<close>

definition demoSyms :: "elf64sym list" where
  "demoSyms =
     [\<lparr>st_name = 0, st_info = 0, st_other = 0, st_shndx = 0, st_value = 0, st_size = 0\<rparr>,
      \<lparr>st_name = 1, st_info = 0x12, st_other = 0, st_shndx = 9, st_value = 0x100, st_size = 8\<rparr>,
      \<lparr>st_name = 1, st_info = 0x12, st_other = 0, st_shndx = 9, st_value = 0x200, st_size = 8\<rparr>]"

definition demoVersym :: "u16 list" where
  "demoVersym = [0, 3, 0x8002]"

definition demoVersions :: version_table where
  "demoVersions = \<lparr>vt_Requirements = Map.empty,
     vt_Definitions = [2 \<mapsto> \<lparr>vd_Name = ''V1'', vd_Index = 2\<rparr>, 3 \<mapsto> \<lparr>vd_Name = ''V2'', vd_Index = 3\<rparr>],
     vt_SymbolVersions = Some (0x1048, 3)\<rparr>"

definition demoSymBytes :: bytes where
  "demoSymBytes = concat (map encSym demoSyms) @ concat (map (\<lambda>v. le_enc 2 (unat v)) demoVersym) @
     [0] @ map ord ''f'' @ [0]"

definition demoSymMem :: memory where
  "demoSymMem = \<lparr>mbytes = store (\<lambda>_. 0) 0x1000 demoSymBytes,
                 mprot = (\<lambda>x. if in_region 0x1000 4096 x then Some 1 else None)\<rparr>"

lemma demoSym_holds: "holds demoSymMem 0x1000 demoSymBytes"
proof -
  have "length demoSymBytes = 81"
    by (simp add: demoSymBytes_def demoSyms_def demoVersym_def)
  then have "holds (demoSymMem\<lparr>mbytes := store (\<lambda>_. 0) 0x1000 demoSymBytes\<rparr>) 0x1000 demoSymBytes"
    by (intro holds_store) (auto simp: all_readable_iff readable_def demoSymMem_def in_region_def unat_of_nat64)
  then show ?thesis by (simp add: demoSymMem_def)
qed

lemma demoSym_parts:
  "holds demoSymMem 0x1000 (concat (map encSym demoSyms))"
  "holds demoSymMem 0x1048 (concat (map (\<lambda>v. le_enc 2 (unat v)) demoVersym))"
  "holds demoSymMem 0x104F (map ord ''f'' @ [0])"
  using demoSym_holds
  by (simp_all add: demoSymBytes_def holds_append) (simp_all add: demoSyms_def demoVersym_def holds_Cons)

theorem LoadFromDynamic_table_witness:
  "\<exists>t'. LoadFromDynamic demoSymMem (SetVersionTable (NewTable 0x5000) (Some demoVersions)) 0x1000 0x104E 72 3 = Ok t' \<and>
     Lookup t' ''f'' = Some \<lparr>sym_Name = ''f'', sym_Value = 0x5100, sym_Size = 8, sym_Bind = 1, sym_Type = 2,
       sym_Section = 9, sym_VerIdx = 3, sym_VerName = ''V2''\<rparr>"
proof -
  have v: "versions_held demoSymMem (Some demoVersions) demoVersym"
    using demoSym_parts(2) by (simp add: versions_held_def demoVersions_def demoVersym_def)
  have n: "\<forall>e\<in>set demoSyms. eligible e \<longrightarrow>
      ReadCStringMem demoSymMem 0x104E (ucast (st_name e)) 3 = (Ok ((\<lambda>_. ''f'') (st_name e)) :: (symbol_error, string) result)"
    using demoSym_parts(3) by (simp add: demoSyms_def eligible_def ReadCStringMem_holds)
  obtain t' where "LoadFromDynamic demoSymMem (SetVersionTable (NewTable 0x5000) (Some demoVersions)) 0x1000 0x104E
        (24 * of_nat (length demoSyms)) 3 = Ok t'"
    and "Lookup t' ''f'' = pick (filter (\<lambda>c. sym_Name (fst c) = ''f'')
        (candidates 0x5000 (Some demoVersions) demoVersym (\<lambda>_. ''f'') demoSyms (length demoSyms)))"
    using LoadFromDynamic_table[OF _ _ _ demoSym_parts(1) v n, where base = "0x5000"] by (auto simp: demoSyms_def)
  then show ?thesis
    by (simp add: demoSyms_def demoVersym_def candidates_def upt_conv_Cons eligible_def pick_def symbolOf_def
        rawVersion_def versionString_def demoVersions_def GetVersionName_def)
qed

text \<open>
  Without a size (the strings precede the symbols in the file, so the loader passes 0) the fallback
  does not end at an all-zero entry: it goes on over 4096 entries, and where the mapping ends earlier the
  process faults, whatever the table holds.
\<close>

theorem fallback_reads_past_table:
  assumes "symtab \<noteq> 0" and "k < 4096" and "holds m symtab (replicate (24 * k) 0)"
    and "\<not> readable m (symtab + 24 * of_nat k)"
  shows "LoadFromDynamic m t symtab strtab 0 strsz = Panic (SegFault (symtab + 24 * of_nat k))"
proof -
  have zero: "loadSymbolEntry m symtab strtab (of_nat i) strsz t = Ok t" if "i < k" for i
  proof -
    let ?e = "\<lparr>st_name = 0, st_info = 0, st_other = 0, st_shndx = 0, st_value = 0, st_size = 0\<rparr>"
    have enc: "encSym ?e = replicate 24 0"
      by (simp add: encSym_def) (simp add: numeral_eq_Suc)
    have "concat (map encSym (replicate k ?e)) = replicate (24 * k) 0"
      by (induction k) (simp_all add: enc replicate_add)
    with assms(3) have "holds m symtab (concat (map encSym (replicate k ?e)))" by simp
    from holds_concat[OF this length_encSym] that
    have "holds m (symtab + of_nat i * 24) (encSym ?e)" by simp
    then show ?thesis by (simp add: loadSymbolEntry_def shouldProcessSymbol_enc eligible_def)
  qed
  have "forR (\<lambda>i. loadSymbolEntry m symtab strtab (of_nat i) strsz) [0..<j] t = Ok t" if "j \<le> k" for j
    using that by (induction j) (simp_all add: forR_append zero)
  moreover have "loadSymbolEntry m symtab strtab (of_nat k) strsz t = Panic (SegFault (symtab + 24 * of_nat k))"
    using assms(4) by (simp add: loadSymbolEntry_def shouldProcessSymbol_def rd32_fault mult.commute)
  moreover have "[0..<4096] = [0..<k] @ k # [Suc k..<4096]"
    using assms(2) upt_add_eq_append[of 0 k "4096 - k"] upt_conv_Cons[of k 4096] by simp
  moreover have "unat (computeSymtabSize 0 div 24 :: u64) = 4096"
    by (simp add: computeSymtabSize_def)
  ultimately show ?thesis
    using assms(1) by (simp add: LoadFromDynamic_def forR_append del: upt_conv_Cons)
qed

theorem fallback_reads_past_table_witness:
  "LoadFromDynamic \<lparr>mbytes = (\<lambda>_. 0), mprot = (\<lambda>x. if in_region 0x1000 48 x then Some 1 else None)\<rparr>
     (NewTable 0x1000) 0x1000 0x800 0 10 = Panic (SegFault 0x1030)"
proof -
  let ?m = "\<lparr>mbytes = (\<lambda>_. 0), mprot = (\<lambda>x. if in_region 0x1000 48 x then Some 1 else None)\<rparr>"
  have h: "holds ?m 0x1000 (replicate (24 * 2) 0)"
    by (auto simp: holds_def all_readable_iff readable_def in_region_def unat_of_nat64 peek_def
        map_replicate_const)
  show ?thesis
    using fallback_reads_past_table[OF _ _ h, where t = "NewTable 0x1000" and strtab = "0x800" and strsz = 10]
    by (simp add: readable_def in_region_def)
qed

end
