(* ===== verification/Sym_Hash.thy ===== *)
theory Sym_Hash
  imports Sym_Table
begin

text \<open>
  \<open>symbol/sysv_hash.go\<close> and \<open>symbol/gnu_hash.go\<close>: the two hash functions and the lookups in the
  mapped hash tables. A lookup loop that has taken \<open>2 ^ 32\<close> turns has seen a 32-bit index twice (the
  SysV chain) or all of them (the GNU chain), and the memory does not change under it: it never ends.
\<close>

unbundle bit_operations_syntax

section \<open>Hash functions\<close>

definition sysvStep :: "u32 \<Rightarrow> char \<Rightarrow> u32" where
  "sysvStep h c =
     (let h = push_bit 4 h + ucast (ord c);
          g = h AND 0xf0000000;
          h = (if g \<noteq> 0 then h XOR drop_bit 24 g else h)
      in h AND NOT 0xf0000000)"

definition SysvHash :: "string \<Rightarrow> u32" where
  "SysvHash name = foldl sysvStep 0 name"

definition gnuStep :: "u32 \<Rightarrow> char \<Rightarrow> u32" where
  "gnuStep h c = h * 33 + ucast (ord c)"

definition GnuHash :: "string \<Rightarrow> u32" where
  "GnuHash name = foldl gnuStep 5381 name"

section \<open>Lookup in a SysV table\<close>

definition symAtIndex :: "u64 \<Rightarrow> u64 \<Rightarrow> u64" where
  "symAtIndex symtabAddr idx = symtabAddr + idx * symEntSize"

text \<open>The symbol both lookups return: the value is \<open>st_value\<close>, without a base, and no version.\<close>

definition foundSymbol :: "memory \<Rightarrow> u64 \<Rightarrow> string \<Rightarrow> (symbol_error, symbol) result" where
  "foundSymbol m ptr name =
     bindR (rd8 m (ptr + 4)) (\<lambda>info.
     bindR (rd64 m (ptr + 8)) (\<lambda>value.
     bindR (rd64 m (ptr + 16)) (\<lambda>sz.
     bindR (rd16 m (ptr + 6)) (\<lambda>shndx.
       Ok \<lparr>sym_Name = name, sym_Value = value, sym_Size = sz, sym_Bind = ucast (drop_bit 4 info),
           sym_Type = ucast (info AND 0xf), sym_Section = ucast shndx, sym_VerIdx = 0, sym_VerName = []\<rparr>))))"

primrec sysvLoop ::
    "nat \<Rightarrow> memory \<Rightarrow> string \<Rightarrow> u64 \<Rightarrow> u64 \<Rightarrow> u64 \<Rightarrow> u64 \<Rightarrow> u32 \<Rightarrow> (symbol_error, symbol) result" where
  "sysvLoop 0 m name chainsBase symtabAddr strtabAddr strtabSize idx = Hang"
| "sysvLoop (Suc fuel) m name chainsBase symtabAddr strtabAddr strtabSize idx =
     (if idx = 0 then Err (SymbolNotFound name)
      else
        let sym = symAtIndex symtabAddr (ucast idx)
        in bindR (rd32 m sym) (\<lambda>nameOff.
           bindR (ReadCStringMem m strtabAddr (ucast nameOff) strtabSize) (\<lambda>symName.
             if symName = name then foundSymbol m sym name
             else bindR (rd32 m (chainsBase + ucast idx * 4))
                    (sysvLoop fuel m name chainsBase symtabAddr strtabAddr strtabSize))))"

definition SysvLookup :: "memory \<Rightarrow> string \<Rightarrow> u64 \<Rightarrow> u64 \<Rightarrow> u64 \<Rightarrow> u64 \<Rightarrow> (symbol_error, symbol) result" where
  "SysvLookup m name hashAddr symtabAddr strtabAddr strtabSize =
     (if hashAddr = 0 then Err HashAddrZero
      else
        bindR (rd32 m hashAddr) (\<lambda>nbuckets.
          let bucketsBase = hashAddr + 8;
              chainsBase = bucketsBase + ucast nbuckets * 4
          in if nbuckets = 0 then Panic DivideByZero
             else
               let h = SysvHash name mod nbuckets
               in bindR (rd32 m (bucketsBase + ucast h * 4))
                    (sysvLoop (2 ^ 32) m name chainsBase symtabAddr strtabAddr strtabSize)))"

section \<open>Lookup in a GNU table\<close>

record gnuHashHeader =
  gh_nbuckets :: u32
  gh_symoffset :: u32
  gh_bloomSize :: u32
  gh_bloomShift :: u32
  gh_bloomBase :: u64
  gh_bucketsBase :: u64
  gh_chainsBase :: u64

definition parseGnuHashHeader :: "memory \<Rightarrow> u64 \<Rightarrow> ('e, gnuHashHeader) result" where
  "parseGnuHashHeader m gnuHashAddr =
     bindR (rd32 m gnuHashAddr) (\<lambda>nbuckets.
     bindR (rd32 m (gnuHashAddr + 4)) (\<lambda>symoffset.
     bindR (rd32 m (gnuHashAddr + 8)) (\<lambda>bloomSize.
     bindR (rd32 m (gnuHashAddr + 12)) (\<lambda>bloomShift.
       let bloomBase = gnuHashAddr + 16;
           bucketsBase = bloomBase + ucast bloomSize * 8;
           chainsBase = bucketsBase + ucast nbuckets * 4
       in Ok \<lparr>gh_nbuckets = nbuckets, gh_symoffset = symoffset, gh_bloomSize = bloomSize,
              gh_bloomShift = bloomShift, gh_bloomBase = bloomBase, gh_bucketsBase = bucketsBase,
              gh_chainsBase = chainsBase\<rparr>))))"

definition checkBloomFilter :: "memory \<Rightarrow> u32 \<Rightarrow> gnuHashHeader \<Rightarrow> ('e, bool) result" where
  "checkBloomFilter m h header =
     (if gh_bloomSize header = 0 then Panic DivideByZero
      else
        bindR (rd64 m (gh_bloomBase header + ucast ((h div 64) mod gh_bloomSize header) * 8)) (\<lambda>bloomWord.
          let bit1 = drop_bit 0 h AND 63;
              bit2 = drop_bit (unat (gh_bloomShift header)) h AND 63
          in Ok (drop_bit (unat bit1) bloomWord AND 1 \<noteq> 0 \<and> drop_bit (unat bit2) bloomWord AND 1 \<noteq> 0)))"

primrec searchHashChainLoop ::
    "nat \<Rightarrow> memory \<Rightarrow> string \<Rightarrow> u32 \<Rightarrow> gnuHashHeader \<Rightarrow> u64 \<Rightarrow> u64 \<Rightarrow> u64 \<Rightarrow> u32 \<Rightarrow> (symbol_error, symbol) result" where
  "searchHashChainLoop 0 m name h header symtabAddr strtabAddr strtabSize symIdx = Hang"
| "searchHashChainLoop (Suc fuel) m name h header symtabAddr strtabAddr strtabSize symIdx =
     bindR (rd32 m (gh_chainsBase header + ucast (symIdx - gh_symoffset header) * 4)) (\<lambda>chainVal.
       let continue =
         (if chainVal AND 1 \<noteq> 0 then Err (SymbolNotFound name)
          else searchHashChainLoop fuel m name h header symtabAddr strtabAddr strtabSize (symIdx + 1))
       in if chainVal AND NOT 1 = h AND NOT 1 then
            let sym = symAtIndex symtabAddr (ucast symIdx)
            in bindR (rd32 m sym) (\<lambda>nameOff.
               bindR (ReadCStringMem m strtabAddr (ucast nameOff) strtabSize) (\<lambda>symName.
                 if symName = name then foundSymbol m sym name else continue))
          else continue)"

definition searchHashChain ::
    "memory \<Rightarrow> string \<Rightarrow> u32 \<Rightarrow> u32 \<Rightarrow> gnuHashHeader \<Rightarrow> u64 \<Rightarrow> u64 \<Rightarrow> u64 \<Rightarrow> (symbol_error, symbol) result" where
  "searchHashChain m name h bucket header symtabAddr strtabAddr strtabSize =
     searchHashChainLoop (2 ^ 32) m name h header symtabAddr strtabAddr strtabSize bucket"

definition GnuLookup :: "memory \<Rightarrow> string \<Rightarrow> u64 \<Rightarrow> u64 \<Rightarrow> u64 \<Rightarrow> u64 \<Rightarrow> (symbol_error, symbol) result" where
  "GnuLookup m name gnuHashAddr symtabAddr strtabAddr strtabSize =
     (if gnuHashAddr = 0 then Err HashAddrZero
      else
        bindR (parseGnuHashHeader m gnuHashAddr) (\<lambda>header.
          let h = GnuHash name
          in bindR (checkBloomFilter m h header) (\<lambda>maybe.
               if \<not> maybe then Err (SymbolNotFound name)
               else if gh_nbuckets header = 0 then Panic DivideByZero
               else
                 bindR (rd32 m (gh_bucketsBase header + ucast (h mod gh_nbuckets header) * 4)) (\<lambda>bucket.
                   if bucket = 0 then Err (SymbolNotFound name)
                   else searchHashChain m name h bucket header symtabAddr strtabAddr strtabSize))))"

section \<open>What the hash functions compute\<close>

text \<open>The reference text of the System V ABI clears the bits it has folded back, \<open>h &= ~g\<close>.\<close>

definition abiStep :: "u32 \<Rightarrow> char \<Rightarrow> u32" where
  "abiStep h c =
     (let h = push_bit 4 h + ucast (ord c);
          g = h AND 0xf0000000
      in (if g \<noteq> 0 then h XOR drop_bit 24 g else h) AND NOT g)"

lemma high_nibble: "(0xf0000000 :: u32) = NOT (mask 28)"
  by (simp add: mask_eq_exp_minus_1)

lemma sysvStep_less: "sysvStep h c < 0x10000000"
proof -
  have "x AND NOT 0xf0000000 < (0x10000000 :: u32)" for x :: u32
    unfolding high_nibble using and_mask_less_size[of 28 x] by (simp add: word_size)
  then show ?thesis by (simp add: sysvStep_def Let_def)
qed

lemma clear_high_nibble:
  fixes h :: u32
  defines "g \<equiv> h AND 0xf0000000"
  shows "(h XOR drop_bit 24 g) AND NOT 0xf0000000 = (h XOR drop_bit 24 g) AND NOT g"
  unfolding g_def high_nibble by (rule bit_eqI) (auto simp: bit_simps)

lemma sysvStep_abi: "sysvStep h c = abiStep h c"
proof -
  let ?h = "push_bit 4 h + ucast (ord c) :: u32"
  have "?h AND NOT 0xf0000000 = ?h AND NOT (?h AND 0xf0000000)"
    unfolding high_nibble by (rule bit_eqI) (auto simp: bit_simps)
  then show ?thesis
    unfolding sysvStep_def abiStep_def Let_def
    by (cases "?h AND 0xf0000000 = 0") (simp_all only: clear_high_nibble if_True if_False simp_thms)
qed

text \<open>
  C39: the SysV hash is the hash of the System V ABI on every name, and it never uses the top four bits.
\<close>

theorem SysvHash_abi: "SysvHash s = foldl abiStep 0 s \<and> unat (SysvHash s) < 2 ^ 28"
proof
  have "sysvStep = abiStep" by (intro ext sysvStep_abi)
  then show "SysvHash s = foldl abiStep 0 s" by (simp add: SysvHash_def)
  show "unat (SysvHash s) < 2 ^ 28"
  proof (cases s rule: rev_cases)
    case Nil
    then show ?thesis by (simp add: SysvHash_def)
  next
    case (snoc xs c)
    then show ?thesis
      using sysvStep_less[of "foldl sysvStep 0 xs" c] by (simp add: SysvHash_def word_less_nat_alt)
  qed
qed

lemma unat_gnuStep: "unat (gnuStep h c) = (unat h * 33 + of_char c) mod 2 ^ 32"
proof -
  have "(of_char c :: nat) < 2 ^ 32" by (rule less_le_trans[OF of_char_less_256]) simp
  then have "unat (ucast (ord c) :: u32) = of_char c"
    by (simp add: ord_def unsigned_ucast_eq unat_of_nat take_bit_nat_eq_self)
  then show ?thesis
    by (simp add: gnuStep_def unat_word_ariths mod_simps)
qed

lemma horner_mod: "(a mod M * 33 + b) mod M = (a * 33 + b) mod (M :: nat)"
  by (metis mod_add_left_eq mod_mult_left_eq)

text \<open>
  The GNU hash of a name \<open>c0 ... c(n-1)\<close> is \<open>5381 * 33^n + c0 * 33^(n-1) + ... + c(n-1)\<close>, modulo
  \<open>2 ^ 32\<close>.
\<close>

theorem GnuHash_polynomial:
  "unat (GnuHash s) =
    (5381 * 33 ^ length s + (\<Sum>i<length s. of_char (s ! i) * 33 ^ (length s - Suc i))) mod 2 ^ 32"
proof (induction s rule: rev_induct)
  case Nil
  then show ?case by (simp add: GnuHash_def)
next
  case (snoc c s)
  let ?S = "\<Sum>i<length s. of_char (s ! i) * 33 ^ (length s - Suc i) :: nat"
  have sum: "(\<Sum>i<length s. of_char ((s @ [c]) ! i) * 33 ^ (length s - i)) = 33 * ?S"
    unfolding sum_distrib_left
    by (rule sum.cong) (auto simp: nth_append Suc_diff_Suc[symmetric] simp flip: power_Suc)
  have "unat (GnuHash (s @ [c])) = (unat (GnuHash s) * 33 + of_char c) mod 2 ^ 32"
    by (simp add: GnuHash_def unat_gnuStep)
  also have "\<dots> = ((5381 * 33 ^ length s + ?S) * 33 + of_char c) mod 2 ^ 32"
    unfolding snoc by (rule horner_mod)
  finally show ?case by (simp add: sum algebra_simps)
qed

end
