(* ===== verification/Sym_Lookup.thy ===== *)
theory Sym_Lookup
  imports Sym_Hash
begin

text \<open>
  What the two hash lookups promise on the tables a linker writes. A table in memory is described by
  the lists it encodes; the interface \<open>hash_lookup\<close> says that a lookup scans one chain of symbol
  indices that holds every symbol of the requested name, and both lookups are instances of it.
\<close>

unbundle bit_operations_syntax

section \<open>Tables in memory\<close>

record hash_image =
  im_mem :: memory
  im_hash :: u64
  im_symtab :: u64
  im_strtab :: u64
  im_strsz :: u64
  im_syms :: "elf64sym list"
  im_names :: "string list"
  im_buckets :: "u32 list"
  im_chains :: "u32 list"
  im_bloom :: "u64 list"
  im_symoffset :: u32
  im_shift :: u32

definition encWords :: "u32 list \<Rightarrow> bytes" where
  "encWords ws = concat (map (\<lambda>w. le_enc 4 (unat w)) ws)"

definition encDwords :: "u64 list \<Rightarrow> bytes" where
  "encDwords ws = concat (map (\<lambda>w. le_enc 8 (unat w)) ws)"

lemma length_encWords [simp]: "length (encWords ws) = 4 * length ws"
  by (induction ws) (auto simp: encWords_def)

lemma length_encDwords [simp]: "length (encDwords ws) = 8 * length ws"
  by (induction ws) (auto simp: encDwords_def)

lemma holds_encWords: "holds m a (encWords ws) \<Longrightarrow> i < length ws \<Longrightarrow> rd32 m (a + of_nat i * 4) = Ok (ws ! i)"
  unfolding encWords_def by (drule holds_concat[where k = 4 and i = i]) (simp_all add: holds_rd32)

lemma holds_encDwords: "holds m a (encDwords ws) \<Longrightarrow> i < length ws \<Longrightarrow> rd64 m (a + of_nat i * 8) = Ok (ws ! i)"
  unfolding encDwords_def by (drule holds_concat[where k = 8 and i = i]) (simp_all add: holds_rd64)

text \<open>The symbols and their names, as every lookup finds them.\<close>

definition symbols_held :: "hash_image \<Rightarrow> bool" where
  "symbols_held T \<longleftrightarrow>
     im_hash T \<noteq> 0 \<and> length (im_syms T) < 2 ^ 32 \<and> length (im_names T) = length (im_syms T) \<and>
     holds (im_mem T) (im_symtab T) (concat (map encSym (im_syms T))) \<and>
     list_all2 (\<lambda>e nm. ReadCStringMem (im_mem T) (im_strtab T) (ucast (st_name e)) (im_strsz T) =
       (Ok nm :: (symbol_error, string) result)) (im_syms T) (im_names T)"

definition rawSymbol :: "elf64sym \<Rightarrow> string \<Rightarrow> symbol" where
  "rawSymbol e name =
     \<lparr>sym_Name = name, sym_Value = st_value e, sym_Size = st_size e,
      sym_Bind = ucast (drop_bit 4 (st_info e)), sym_Type = ucast (st_info e AND 0xf),
      sym_Section = ucast (st_shndx e), sym_VerIdx = 0, sym_VerName = []\<rparr>"

lemma ucast_of_nat_u32: "i < 2 ^ 32 \<Longrightarrow> (ucast (of_nat i :: u32) :: u64) = of_nat i"
  by (simp add: unsigned_of_nat take_bit_nat_eq_self)

lemma ucast_u32: "(ucast (w :: u32) :: u64) = of_nat (unat w)"
  by simp

lemma symbols_held_fields:
  assumes "symbols_held T" and "i < length (im_syms T)"
  shows "rd32 (im_mem T) (im_symtab T + of_nat i * 24) = Ok (st_name (im_syms T ! i))"
    and "ReadCStringMem (im_mem T) (im_strtab T) (ucast (st_name (im_syms T ! i))) (im_strsz T) =
      (Ok (im_names T ! i) :: (symbol_error, string) result)"
    and "foundSymbol (im_mem T) (im_symtab T + of_nat i * 24) name = Ok (rawSymbol (im_syms T ! i) name)"
proof -
  have "holds (im_mem T) (im_symtab T) (concat (map encSym (im_syms T)))"
    using assms(1) by (simp add: symbols_held_def)
  from holds_concat[OF this length_encSym assms(2)]
  have "holds (im_mem T) (im_symtab T + of_nat i * 24) (encSym (im_syms T ! i))" by simp
  note fields = encSym_fields[OF this]
  show "rd32 (im_mem T) (im_symtab T + of_nat i * 24) = Ok (st_name (im_syms T ! i))"
    by (rule fields)
  show "foundSymbol (im_mem T) (im_symtab T + of_nat i * 24) name = Ok (rawSymbol (im_syms T ! i) name)"
    by (simp add: foundSymbol_def fields rawSymbol_def)
  show "ReadCStringMem (im_mem T) (im_strtab T) (ucast (st_name (im_syms T ! i))) (im_strsz T) =
      (Ok (im_names T ! i) :: (symbol_error, string) result)"
  proof -
    have "list_all2 (\<lambda>e nm. ReadCStringMem (im_mem T) (im_strtab T) (ucast (st_name e)) (im_strsz T) =
       (Ok nm :: (symbol_error, string) result)) (im_syms T) (im_names T)"
      using assms(1) by (simp add: symbols_held_def)
    from list_all2_nthD[OF this assms(2)] show ?thesis .
  qed
qed

section \<open>The interface\<close>

locale hash_lookup =
  fixes lookup :: "hash_image \<Rightarrow> string \<Rightarrow> (symbol_error, symbol) result"
    and wf :: "hash_image \<Rightarrow> bool"
    and first :: "hash_image \<Rightarrow> nat"
    and chain :: "hash_image \<Rightarrow> string \<Rightarrow> nat list"
  assumes lookup_chain: "wf T \<Longrightarrow> lookup T nm =
      (case find (\<lambda>i. im_names T ! i = nm) (chain T nm) of
         Some i \<Rightarrow> Ok (rawSymbol (im_syms T ! i) nm)
       | None \<Rightarrow> Err (SymbolNotFound nm))"
    and chain_range: "wf T \<Longrightarrow> i \<in> set (chain T nm) \<Longrightarrow> first T \<le> i \<and> i < length (im_syms T)"
    and chain_complete: "wf T \<Longrightarrow> first T \<le> i \<Longrightarrow> i < length (im_syms T) \<Longrightarrow> i \<in> set (chain T (im_names T ! i))"
begin

lemma lookup_sound:
  assumes "wf T" and "lookup T nm = Ok s"
  shows "\<exists>i. first T \<le> i \<and> i < length (im_syms T) \<and> im_names T ! i = nm \<and> s = rawSymbol (im_syms T ! i) nm"
proof -
  obtain i where i: "find (\<lambda>i. im_names T ! i = nm) (chain T nm) = Some i"
    and s: "s = rawSymbol (im_syms T ! i) nm"
    using assms lookup_chain[OF assms(1), of nm] by (auto split: option.splits)
  then have "i \<in> set (chain T nm)" and "im_names T ! i = nm"
    by (auto simp: find_Some_iff)
  with s chain_range[OF assms(1)] show ?thesis by blast
qed

lemma lookup_found:
  assumes "wf T" and "first T \<le> i" and "i < length (im_syms T)"
  shows "\<exists>j. first T \<le> j \<and> j < length (im_syms T) \<and> im_names T ! j = im_names T ! i \<and>
    lookup T (im_names T ! i) = Ok (rawSymbol (im_syms T ! j) (im_names T ! i))"
proof -
  have "find (\<lambda>j. im_names T ! j = im_names T ! i) (chain T (im_names T ! i)) \<noteq> None"
    using chain_complete[OF assms] by (auto simp: find_None_iff)
  then obtain j where j: "find (\<lambda>j. im_names T ! j = im_names T ! i) (chain T (im_names T ! i)) = Some j"
    by auto
  then have "j \<in> set (chain T (im_names T ! i))" and "im_names T ! j = im_names T ! i"
    by (auto simp: find_Some_iff)
  with j show ?thesis using chain_range[OF assms(1)] lookup_chain[OF assms(1)] by auto
qed

lemma lookup_absent:
  assumes "wf T" and "\<And>i. first T \<le> i \<Longrightarrow> i < length (im_syms T) \<Longrightarrow> im_names T ! i \<noteq> nm"
  shows "lookup T nm = Err (SymbolNotFound nm)"
proof -
  have "find (\<lambda>i. im_names T ! i = nm) (chain T nm) = None"
    using chain_range[OF assms(1)] assms(2) by (auto simp: find_None_iff)
  then show ?thesis by (simp add: lookup_chain[OF assms(1)])
qed

lemma lookup_correct:
  assumes "wf T"
  shows "if \<exists>i\<in>{first T..<length (im_syms T)}. im_names T ! i = nm
    then \<exists>i\<in>{first T..<length (im_syms T)}. im_names T ! i = nm \<and> lookup T nm = Ok (rawSymbol (im_syms T ! i) nm)
    else lookup T nm = Err (SymbolNotFound nm)"
proof (cases "\<exists>i\<in>{first T..<length (im_syms T)}. im_names T ! i = nm")
  case True
  then obtain i where "first T \<le> i" "i < length (im_syms T)" "im_names T ! i = nm" by auto
  with lookup_found[OF assms, of i] obtain j where "first T \<le> j" "j < length (im_syms T)"
    "im_names T ! j = nm" "lookup T nm = Ok (rawSymbol (im_syms T ! j) nm)" by auto
  then have "\<exists>i\<in>{first T..<length (im_syms T)}. im_names T ! i = nm \<and>
      lookup T nm = Ok (rawSymbol (im_syms T ! i) nm)"
    by (intro bexI[of _ j]) auto
  with True show ?thesis by (simp only: if_True)
next
  case False
  then have "lookup T nm = Err (SymbolNotFound nm)" by (intro lookup_absent[OF assms]) auto
  with False show ?thesis by (simp only: if_False)
qed

end

section \<open>SysV tables\<close>

primrec sysvPath :: "u32 list \<Rightarrow> nat \<Rightarrow> nat \<Rightarrow> nat list" where
  "sysvPath ch 0 i = []"
| "sysvPath ch (Suc f) i = (if i = 0 then [] else i # sysvPath ch f (unat (ch ! i)))"

text \<open>The chain from \<open>i\<close> stays in the table and reaches 0 within \<open>f\<close> links.\<close>

primrec sysvEnds :: "u32 list \<Rightarrow> nat \<Rightarrow> nat \<Rightarrow> bool" where
  "sysvEnds ch 0 i = (i = 0)"
| "sysvEnds ch (Suc f) i = (i = 0 \<or> i < length ch \<and> sysvEnds ch f (unat (ch ! i)))"

definition sysv_wf :: "hash_image \<Rightarrow> bool" where
  "sysv_wf T \<longleftrightarrow>
     symbols_held T \<and> im_buckets T \<noteq> [] \<and> length (im_buckets T) < 2 ^ 32 \<and>
     length (im_chains T) = length (im_syms T) \<and>
     holds (im_mem T) (im_hash T) (le_enc 4 (length (im_buckets T)) @ le_enc 4 (length (im_chains T)) @
       encWords (im_buckets T) @ encWords (im_chains T)) \<and>
     list_all (\<lambda>b. sysvEnds (im_chains T) (length (im_syms T)) (unat b)) (im_buckets T) \<and>
     list_all (\<lambda>i. i \<in> set (sysvPath (im_chains T) (length (im_syms T))
         (unat (im_buckets T ! (unat (SysvHash (im_names T ! i)) mod length (im_buckets T))))))
       [1..<length (im_syms T)]"

definition sysvChain :: "hash_image \<Rightarrow> string \<Rightarrow> nat list" where
  "sysvChain T nm = sysvPath (im_chains T) (length (im_syms T))
     (unat (im_buckets T ! (unat (SysvHash nm) mod length (im_buckets T))))"

abbreviation (input) sysvLookupIn :: "hash_image \<Rightarrow> string \<Rightarrow> (symbol_error, symbol) result" where
  "sysvLookupIn T nm \<equiv> SysvLookup (im_mem T) nm (im_hash T) (im_symtab T) (im_strtab T) (im_strsz T)"

lemma sysvLoop_path:
  assumes "symbols_held T" and "length (im_chains T) = length (im_syms T)"
    and "holds (im_mem T) base (encWords (im_chains T))"
    and "sysvEnds (im_chains T) f i" and "f < fuel"
  shows "sysvLoop fuel (im_mem T) nm base (im_symtab T) (im_strtab T) (im_strsz T) (of_nat i) =
      (case find (\<lambda>i. im_names T ! i = nm) (sysvPath (im_chains T) f i) of
         Some i \<Rightarrow> Ok (rawSymbol (im_syms T ! i) nm)
       | None \<Rightarrow> Err (SymbolNotFound nm))"
  using assms(4,5)
proof (induction f arbitrary: fuel i)
  case 0
  then show ?case by (cases fuel) auto
next
  case (Suc f)
  then obtain k where k: "fuel = Suc k" by (cases fuel) auto
  show ?case
  proof (cases "i = 0")
    case True
    then show ?thesis by (simp add: k)
  next
    case False
    with Suc.prems have i: "i < length (im_syms T)" and e: "sysvEnds (im_chains T) f (unat (im_chains T ! i))"
      using assms(2) by auto
    have i32: "i < 2 ^ 32" using i assms(1) by (simp add: symbols_held_def)
    then have nz: "(of_nat i :: u32) \<noteq> 0" using False by (simp add: word_unat_eq_iff unat_of_nat)
    have next_link: "rd32 (im_mem T) (base + of_nat i * 4) = Ok (im_chains T ! i)"
      using holds_encWords[OF assms(3), of i] i assms(2) by simp
    note IH = Suc.IH[OF e, of k]
    show ?thesis
      using False nz IH Suc.prems(2) k
      by (simp add: symAtIndex_def ucast_of_nat_u32[OF i32] symbols_held_fields[OF assms(1) i] next_link)
  qed
qed

lemma sysvPath_range:
  "sysvEnds ch f i \<Longrightarrow> j \<in> set (sysvPath ch f i) \<Longrightarrow> 0 < j \<and> j < length ch"
  by (induction f arbitrary: i) (auto split: if_splits)

lemma sysv_lookup_chain:
  assumes "sysv_wf T"
  shows "sysvLookupIn T nm =
      (case find (\<lambda>i. im_names T ! i = nm) (sysvChain T nm) of
         Some i \<Rightarrow> Ok (rawSymbol (im_syms T ! i) nm)
       | None \<Rightarrow> Err (SymbolNotFound nm))"
proof -
  let ?nb = "length (im_buckets T)" and ?b = "unat (SysvHash nm) mod length (im_buckets T)"
  have sym: "symbols_held T" and nb: "?nb \<noteq> 0" "?nb < 2 ^ 32" and ch: "length (im_chains T) = length (im_syms T)"
    and h: "holds (im_mem T) (im_hash T) (le_enc 4 ?nb @ le_enc 4 (length (im_chains T)) @
       encWords (im_buckets T) @ encWords (im_chains T))"
    and ends: "\<forall>b\<in>set (im_buckets T). sysvEnds (im_chains T) (length (im_syms T)) (unat b)"
    using assms by (auto simp: sysv_wf_def list_all_iff)
  have unb: "unat (of_nat ?nb :: u32) = ?nb" using nb by (simp add: unat_of_nat)
  then have enz: "(of_nat ?nb :: u32) \<noteq> 0" using nb(1) by auto
  have rd_nb: "rd32 (im_mem T) (im_hash T) = Ok (of_nat ?nb)"
    using h holds_rd32[of "im_mem T" "im_hash T" "of_nat ?nb"] by (simp add: holds_append unb)
  have buckets: "holds (im_mem T) (im_hash T + 8) (encWords (im_buckets T))"
    and chains: "holds (im_mem T) (im_hash T + 8 + of_nat ?nb * 4) (encWords (im_chains T))"
    using h by (simp_all add: holds_append add.assoc mult.commute)
  have b: "?b < ?nb" using nb(1) by simp
  have idx: "(ucast (SysvHash nm mod of_nat ?nb) :: u64) = of_nat ?b"
    by (simp only: ucast_u32 unat_mod unb)
  have rd_b: "rd32 (im_mem T) (im_hash T + 8 + of_nat ?b * 4) = Ok (im_buckets T ! ?b)"
    by (rule holds_encWords[OF buckets b])
  have e: "sysvEnds (im_chains T) (length (im_syms T)) (unat (im_buckets T ! ?b))"
    using ends nth_mem[OF b] by blast
  have fuel: "length (im_syms T) < 2 ^ 32" and "im_hash T \<noteq> 0" using sym by (auto simp: symbols_held_def)
  note loop = sysvLoop_path[OF sym ch chains e fuel, of nm]
  show ?thesis
    using \<open>im_hash T \<noteq> 0\<close> enz
    by (simp add: SysvLookup_def rd_nb idx rd_b ucast_of_nat_u32[OF nb(2)] sysvChain_def loop[simplified])
qed

interpretation sysv: hash_lookup sysvLookupIn sysv_wf "\<lambda>_. 1" sysvChain
proof
  fix T nm
  assume wf: "sysv_wf T"
  then show "sysvLookupIn T nm = (case find (\<lambda>i. im_names T ! i = nm) (sysvChain T nm) of
         Some i \<Rightarrow> Ok (rawSymbol (im_syms T ! i) nm)
       | None \<Rightarrow> Err (SymbolNotFound nm))"
    by (rule sysv_lookup_chain)
  fix i
  assume i: "i \<in> set (sysvChain T nm)"
  have "unat (SysvHash nm) mod length (im_buckets T) < length (im_buckets T)"
    using wf by (simp add: sysv_wf_def)
  then have "sysvEnds (im_chains T) (length (im_syms T))
      (unat (im_buckets T ! (unat (SysvHash nm) mod length (im_buckets T))))"
    using wf by (auto simp: sysv_wf_def list_all_iff)
  then have "0 < i \<and> i < length (im_chains T)"
    by (rule sysvPath_range) (rule i[unfolded sysvChain_def])
  then show "1 \<le> i \<and> i < length (im_syms T)"
    using wf by (simp add: sysv_wf_def Suc_le_eq)
next
  fix T i
  assume "sysv_wf T" and "1 \<le> i" and "i < length (im_syms T)"
  then show "i \<in> set (sysvChain T (im_names T ! i))"
    by (simp add: sysv_wf_def sysvChain_def list_all_iff)
qed

section \<open>GNU tables\<close>

text \<open>A run of chain values, from symbol \<open>i\<close> to the first value with its low bit set.\<close>

primrec gnuRun :: "u32 list \<Rightarrow> nat \<Rightarrow> nat list" where
  "gnuRun [] i = []"
| "gnuRun (c # cs) i = i # (if c AND 1 \<noteq> 0 then [] else gnuRun cs (Suc i))"

definition gnuChain :: "hash_image \<Rightarrow> string \<Rightarrow> nat list" where
  "gnuChain T nm =
     (let b = unat (im_buckets T ! (unat (GnuHash nm) mod length (im_buckets T)))
      in if b = 0 then [] else gnuRun (drop (b - unat (im_symoffset T)) (im_chains T)) b)"

definition bloomHit :: "hash_image \<Rightarrow> u32 \<Rightarrow> bool" where
  "bloomHit T h =
     (let w = im_bloom T ! (unat h div 64 mod length (im_bloom T))
      in bit w (unat h mod 64) \<and> bit w (unat (drop_bit (unat (im_shift T)) h) mod 64))"

definition gnu_wf :: "hash_image \<Rightarrow> bool" where
  "gnu_wf T \<longleftrightarrow>
     symbols_held T \<and> im_buckets T \<noteq> [] \<and> length (im_buckets T) < 2 ^ 32 \<and>
     im_bloom T \<noteq> [] \<and> length (im_bloom T) < 2 ^ 32 \<and>
     0 < im_symoffset T \<and> unat (im_symoffset T) + length (im_chains T) = length (im_syms T) \<and>
     holds (im_mem T) (im_hash T) (le_enc 4 (length (im_buckets T)) @ le_enc 4 (unat (im_symoffset T)) @
       le_enc 4 (length (im_bloom T)) @ le_enc 4 (unat (im_shift T)) @
       encDwords (im_bloom T) @ encWords (im_buckets T) @ encWords (im_chains T)) \<and>
     list_all (\<lambda>b. b = 0 \<or> im_symoffset T \<le> b \<and>
       list_ex (\<lambda>c. c AND 1 \<noteq> 0) (drop (unat b - unat (im_symoffset T)) (im_chains T))) (im_buckets T) \<and>
     list_all (\<lambda>i. im_chains T ! (i - unat (im_symoffset T)) AND NOT 1 = GnuHash (im_names T ! i) AND NOT 1 \<and>
         bloomHit T (GnuHash (im_names T ! i)) \<and> i \<in> set (gnuChain T (im_names T ! i)))
       [unat (im_symoffset T)..<length (im_syms T)]"

abbreviation (input) gnuLookupIn :: "hash_image \<Rightarrow> string \<Rightarrow> (symbol_error, symbol) result" where
  "gnuLookupIn T nm \<equiv> GnuLookup (im_mem T) nm (im_hash T) (im_symtab T) (im_strtab T) (im_strsz T)"

lemma gnuRun_range: "j \<in> set (gnuRun cs i) \<Longrightarrow> i \<le> j \<and> j < i + length cs"
  by (induction cs arbitrary: i) (fastforce split: if_splits)+

lemma searchHashChain_run:
  assumes sym: "symbols_held T" and off: "unat (im_symoffset T) + length (im_chains T) = length (im_syms T)"
    and chains: "holds (im_mem T) (gh_chainsBase hdr) (encWords (im_chains T))"
    and so: "gh_symoffset hdr = im_symoffset T"
    and "list_ex (\<lambda>c. c AND 1 \<noteq> 0) cs" and "cs = drop (i - unat (im_symoffset T)) (im_chains T)"
    and "unat (im_symoffset T) \<le> i" and "length cs < fuel"
  shows "searchHashChainLoop fuel (im_mem T) nm h hdr (im_symtab T) (im_strtab T) (im_strsz T) (of_nat i) =
      (case find (\<lambda>j. im_chains T ! (j - unat (im_symoffset T)) AND NOT 1 = h AND NOT 1 \<and> im_names T ! j = nm)
              (gnuRun cs i) of
         Some i \<Rightarrow> Ok (rawSymbol (im_syms T ! i) nm)
       | None \<Rightarrow> Err (SymbolNotFound nm))"
  using assms(5-8)
proof (induction cs arbitrary: fuel i)
  case Nil
  then show ?case by simp
next
  case (Cons c cs)
  let ?off = "unat (im_symoffset T)"
  obtain k where k: "fuel = Suc k" using Cons.prems(4) by (cases fuel) auto
  have lt: "i - ?off < length (im_chains T)"
  proof (rule ccontr)
    assume "\<not> i - ?off < length (im_chains T)"
    then have "drop (i - ?off) (im_chains T) = []" by simp
    with Cons.prems(2) show False by simp
  qed
  then have i: "i < length (im_syms T)" using off Cons.prems(3) by linarith
  have "c # cs = im_chains T ! (i - ?off) # drop (Suc (i - ?off)) (im_chains T)"
    by (simp only: Cons.prems(2) Cons_nth_drop_Suc[OF lt])
  then have c: "im_chains T ! (i - ?off) = c" and cs: "cs = drop (Suc i - ?off) (im_chains T)"
    using Cons.prems(3) by (auto simp: Suc_diff_le)
  have i32: "i < 2 ^ 32" using i sym by (simp add: symbols_held_def)
  have "(of_nat i :: u32) - im_symoffset T = of_nat (i - ?off)"
    using Cons.prems(3) by (simp add: of_nat_diff)
  then have pos: "(ucast ((of_nat i :: u32) - im_symoffset T) :: u64) = of_nat (i - ?off)"
    using i32 by (simp only:) (rule ucast_of_nat_u32, simp)
  have rd: "rd32 (im_mem T) (gh_chainsBase hdr + of_nat (i - ?off) * 4) = Ok c"
    using holds_encWords[OF chains lt] c by simp
  have cont: "(if c AND 1 \<noteq> 0 then Err (SymbolNotFound nm)
      else searchHashChainLoop k (im_mem T) nm h hdr (im_symtab T) (im_strtab T) (im_strsz T) (of_nat i + 1)) =
    (case find (\<lambda>j. im_chains T ! (j - ?off) AND NOT 1 = h AND NOT 1 \<and> im_names T ! j = nm)
         (if c AND 1 \<noteq> 0 then [] else gnuRun cs (Suc i)) of
       Some i \<Rightarrow> Ok (rawSymbol (im_syms T ! i) nm) | None \<Rightarrow> Err (SymbolNotFound nm))"
  proof (cases "c AND 1 = 0")
    case True
    then have "list_ex (\<lambda>c. c AND 1 \<noteq> 0) cs" using Cons.prems(1) by simp
    note IH = Cons.IH[OF this cs]
    show ?thesis using True IH[of k] Cons.prems(3,4) k by (simp add: add.commute)
  next
    case False
    then show ?thesis by simp
  qed
  show ?case
    unfolding k searchHashChainLoop.simps so pos rd bindR.simps Let_def cont
    by (simp add: symAtIndex_def ucast_of_nat_u32[OF i32] symbols_held_fields[OF sym i] c)
qed

lemma and_63: "unat ((h :: u32) AND 63) = unat h mod 64"
proof -
  have "h AND 63 = take_bit 6 h" by (simp add: take_bit_eq_mask mask_eq_exp_minus_1)
  then show ?thesis by (simp add: unsigned_take_bit_eq take_bit_eq_mod unat_mod)
qed

lemma drop_bit_and_1: "(drop_bit n (w :: u64) AND 1 \<noteq> 0) = bit w n"
  by (simp add: and_one_eq bit_iff_odd_drop_bit odd_iff_mod_2_eq_one)

text \<open>A Bloom filter made for the symbols never rejects one of them.\<close>

lemma checkBloomFilter_hit:
  assumes "holds m (gh_bloomBase hdr) (encDwords (im_bloom T))" and "im_bloom T \<noteq> []"
    and "length (im_bloom T) < 2 ^ 32" and "gh_bloomSize hdr = of_nat (length (im_bloom T))"
    and "gh_bloomShift hdr = im_shift T"
  shows "checkBloomFilter m h hdr = Ok (bloomHit T h)"
proof -
  let ?n = "length (im_bloom T)" and ?i = "unat h div 64 mod length (im_bloom T)"
  have n: "unat (of_nat ?n :: u32) = ?n" using assms(3) by (simp add: unat_of_nat)
  then have nz: "(of_nat ?n :: u32) \<noteq> 0" using assms(2) by auto
  have "unat (h div 64 mod of_nat ?n) = ?i" by (simp only: unat_mod unat_div n) simp
  then have idx: "(ucast (h div 64 mod of_nat ?n) :: u64) = of_nat ?i" by (simp only: ucast_u32)
  have "?i < ?n" using assms(2) by simp
  note rd = holds_encDwords[OF assms(1) this]
  show ?thesis
    unfolding checkBloomFilter_def assms(4,5) idx
    by (simp add: nz rd bloomHit_def Let_def drop_bit_and_1 and_63)
qed

lemma find_cong_on:
  "(\<And>x. x \<in> set xs \<Longrightarrow> P x = Q x) \<Longrightarrow> find P xs = find Q xs"
  by (induction xs) auto

lemma gnu_hash_matches:
  assumes "gnu_wf T" and "unat (im_symoffset T) \<le> i" and "i < length (im_syms T)"
  shows "im_chains T ! (i - unat (im_symoffset T)) AND NOT 1 = GnuHash (im_names T ! i) AND NOT 1"
    and "bloomHit T (GnuHash (im_names T ! i))" and "i \<in> set (gnuChain T (im_names T ! i))"
  using assms by (auto simp: gnu_wf_def list_all_iff)

lemma gnuChain_range:
  assumes "gnu_wf T" and "i \<in> set (gnuChain T nm)"
  shows "unat (im_symoffset T) \<le> i \<and> i < length (im_syms T)"
proof -
  let ?b = "im_buckets T ! (unat (GnuHash nm) mod length (im_buckets T))"
  have "unat (GnuHash nm) mod length (im_buckets T) < length (im_buckets T)"
    using assms(1) by (simp add: gnu_wf_def)
  then have "?b \<in> set (im_buckets T)" by simp
  moreover have "list_all (\<lambda>b. b = 0 \<or> im_symoffset T \<le> b \<and>
       list_ex (\<lambda>c. c AND 1 \<noteq> 0) (drop (unat b - unat (im_symoffset T)) (im_chains T))) (im_buckets T)"
    using assms(1) by (simp add: gnu_wf_def)
  moreover have nz: "?b \<noteq> 0" using assms(2) by (auto simp: gnuChain_def Let_def)
  ultimately have b: "unat (im_symoffset T) \<le> unat ?b"
    by (auto simp: list_all_iff word_le_nat_alt)
  have "unat ?b \<le> i \<and> i < unat ?b + (length (im_chains T) - (unat ?b - unat (im_symoffset T)))"
    using assms(2) nz gnuRun_range[of i "drop (unat ?b - unat (im_symoffset T)) (im_chains T)" "unat ?b"]
    by (simp add: gnuChain_def Let_def unat_eq_zero)
  moreover have "unat (im_symoffset T) + length (im_chains T) = length (im_syms T)"
    using assms(1) by (simp add: gnu_wf_def)
  ultimately show ?thesis using b by auto
qed

lemma gnu_lookup_chain:
  assumes wf: "gnu_wf T"
  shows "gnuLookupIn T nm =
      (case find (\<lambda>i. im_names T ! i = nm) (gnuChain T nm) of
         Some i \<Rightarrow> Ok (rawSymbol (im_syms T ! i) nm)
       | None \<Rightarrow> Err (SymbolNotFound nm))"
proof -
  let ?m = "im_mem T" and ?a = "im_hash T" and ?h = "GnuHash nm"
  let ?nb = "length (im_buckets T)" and ?bl = "length (im_bloom T)"
  let ?i = "unat ?h mod ?nb"
  have sym: "symbols_held T" and nb: "?nb \<noteq> 0" "?nb < 2 ^ 32" and bl: "im_bloom T \<noteq> []" "?bl < 2 ^ 32"
    and off: "unat (im_symoffset T) + length (im_chains T) = length (im_syms T)"
    and h: "holds ?m ?a (le_enc 4 ?nb @ le_enc 4 (unat (im_symoffset T)) @ le_enc 4 ?bl @
       le_enc 4 (unat (im_shift T)) @ encDwords (im_bloom T) @ encWords (im_buckets T) @ encWords (im_chains T))"
    and ends: "list_all (\<lambda>b. b = 0 \<or> im_symoffset T \<le> b \<and>
       list_ex (\<lambda>c. c AND 1 \<noteq> 0) (drop (unat b - unat (im_symoffset T)) (im_chains T))) (im_buckets T)"
    using wf by (simp_all add: gnu_wf_def)
  have n32: "length (im_syms T) < 2 ^ 32" using sym by (simp only: symbols_held_def)
  have unb: "unat (of_nat ?nb :: u32) = ?nb" "unat (of_nat ?bl :: u32) = ?bl"
    using nb bl by (simp_all add: unat_of_nat)
  then have enz: "(of_nat ?nb :: u32) \<noteq> 0" using nb(1) by auto
  let ?hdr = "\<lparr>gh_nbuckets = of_nat ?nb, gh_symoffset = im_symoffset T, gh_bloomSize = of_nat ?bl,
    gh_bloomShift = im_shift T, gh_bloomBase = ?a + 16, gh_bucketsBase = ?a + 16 + of_nat ?bl * 8,
    gh_chainsBase = ?a + 16 + of_nat ?bl * 8 + of_nat ?nb * 4\<rparr>"
  have hdr: "parseGnuHashHeader ?m ?a = Ok ?hdr"
    using h holds_rd32[of ?m ?a "of_nat ?nb"] holds_rd32[of ?m "?a + 8" "of_nat ?bl"]
    by (simp add: parseGnuHashHeader_def holds_append add.assoc holds_rd32 unb Let_def
        ucast_of_nat_u32[OF nb(2)] ucast_of_nat_u32[OF bl(2)] del: unsigned_of_nat)
  have bloom: "holds ?m (gh_bloomBase ?hdr) (encDwords (im_bloom T))"
    and buckets: "holds ?m (?a + 16 + of_nat ?bl * 8) (encWords (im_buckets T))"
    and chains: "holds ?m (gh_chainsBase ?hdr) (encWords (im_chains T))"
    using h by (simp_all add: holds_append add.assoc mult.commute)
  have i: "?i < ?nb" using nb(1) by simp
  have idx: "(ucast (?h mod of_nat ?nb) :: u64) = of_nat ?i"
    by (simp only: ucast_u32 unat_mod unb)
  note rd = holds_encWords[OF buckets i]
  let ?b = "im_buckets T ! ?i"
  have none: "find (\<lambda>i. im_names T ! i = nm) (gnuChain T nm) = None" if "\<not> bloomHit T ?h"
    using that gnuChain_range[OF wf, of _ nm] gnu_hash_matches(2)[OF wf] by (auto simp: find_None_iff)
  have same: "find (\<lambda>j. im_chains T ! (j - unat (im_symoffset T)) AND NOT 1 = ?h AND NOT 1 \<and> im_names T ! j = nm)
      (gnuChain T nm) = find (\<lambda>i. im_names T ! i = nm) (gnuChain T nm)"
    using gnuChain_range[OF wf, of _ nm] gnu_hash_matches(1)[OF wf] by (intro find_cong_on) blast
  have run: "searchHashChainLoop (2 ^ 32) ?m nm ?h ?hdr (im_symtab T) (im_strtab T) (im_strsz T) ?b =
      (case find (\<lambda>i. im_names T ! i = nm) (gnuChain T nm) of
         Some i \<Rightarrow> Ok (rawSymbol (im_syms T ! i) nm) | None \<Rightarrow> Err (SymbolNotFound nm))" if nz: "?b \<noteq> 0"
  proof -
    have "?b \<in> set (im_buckets T)" using i by simp
    with ends nz have le: "unat (im_symoffset T) \<le> unat ?b"
      and ex: "list_ex (\<lambda>c. c AND 1 \<noteq> 0) (drop (unat ?b - unat (im_symoffset T)) (im_chains T))"
      by (auto simp: list_all_iff word_le_nat_alt)
    have fuel: "length (drop (unat ?b - unat (im_symoffset T)) (im_chains T)) < 2 ^ 32"
      using n32 off by simp
    have "gnuChain T nm = gnuRun (drop (unat ?b - unat (im_symoffset T)) (im_chains T)) (unat ?b)"
      using nz by (simp add: gnuChain_def Let_def unat_eq_zero)
    then show ?thesis
      using searchHashChain_run[OF sym off chains _ ex refl le fuel, of nm ?h] same by simp
  qed
  have "?a \<noteq> 0" using sym by (simp add: symbols_held_def)
  then show ?thesis
    using enz none run
    by (auto simp: GnuLookup_def hdr Let_def checkBloomFilter_hit[OF bloom bl] idx rd searchHashChain_def
        gnuChain_def)
qed

interpretation gnu: hash_lookup gnuLookupIn gnu_wf "\<lambda>T. unat (im_symoffset T)" gnuChain
  by unfold_locales (auto intro: gnu_lookup_chain gnuChain_range[THEN conjunct1] gnuChain_range[THEN conjunct2]
      gnu_hash_matches(3))

section \<open>Properties\<close>

text \<open>
  C37: the SysV lookup is correct on every well-formed \<open>DT_HASH\<close> table: a name that the table's symbols
  carry is found and the answer is one of those symbols, any other name is reported as not found. It
  neither hangs nor faults.
\<close>

theorem SysvLookup_correct:
  assumes "sysv_wf T"
  shows "if \<exists>i\<in>{1..<length (im_syms T)}. im_names T ! i = nm
    then \<exists>i\<in>{1..<length (im_syms T)}. im_names T ! i = nm \<and>
      SysvLookup (im_mem T) nm (im_hash T) (im_symtab T) (im_strtab T) (im_strsz T) = Ok (rawSymbol (im_syms T ! i) nm)
    else SysvLookup (im_mem T) nm (im_hash T) (im_symtab T) (im_strtab T) (im_strsz T) = Err (SymbolNotFound nm)"
  by (rule sysv.lookup_correct[OF assms])

text \<open>One symbol \<open>f\<close>, with both tables: the SysV table at 0x1040, the GNU table at 0x1060.\<close>

definition demoHashSyms :: "elf64sym list" where
  "demoHashSyms =
     [\<lparr>st_name = 0, st_info = 0, st_other = 0, st_shndx = 0, st_value = 0, st_size = 0\<rparr>,
      \<lparr>st_name = 1, st_info = 0x12, st_other = 0, st_shndx = 9, st_value = 0x100, st_size = 8\<rparr>]"

definition demoHashBytes :: bytes where
  "demoHashBytes = concat (map encSym demoHashSyms) @ [0] @ map ord ''f'' @ [0] @ replicate 13 0 @
     le_enc 4 1 @ le_enc 4 2 @ encWords [1] @ encWords [0, 0] @ replicate 12 0 @
     le_enc 4 1 @ le_enc 4 1 @ le_enc 4 1 @ le_enc 4 6 @ encDwords [- 1] @ encWords [1] @ encWords [177675]"

definition demoHashMem :: memory where
  "demoHashMem = \<lparr>mbytes = store (\<lambda>_. 0) 0x1000 demoHashBytes,
                  mprot = (\<lambda>x. if in_region 0x1000 4096 x then Some 1 else None)\<rparr>"

definition demoSysv :: hash_image where
  "demoSysv = \<lparr>im_mem = demoHashMem, im_hash = 0x1040, im_symtab = 0x1000, im_strtab = 0x1030, im_strsz = 3,
     im_syms = demoHashSyms, im_names = [[], ''f''], im_buckets = [1], im_chains = [0, 0], im_bloom = [],
     im_symoffset = 0, im_shift = 0\<rparr>"

definition demoGnu :: hash_image where
  "demoGnu = demoSysv\<lparr>im_hash := 0x1060, im_chains := [177675], im_bloom := [- 1], im_symoffset := 1,
     im_shift := 6\<rparr>"

lemma demoHash_holds: "holds demoHashMem 0x1000 demoHashBytes"
proof -
  have "length demoHashBytes = 128"
    by (simp add: demoHashBytes_def demoHashSyms_def)
  then have "holds (demoHashMem\<lparr>mbytes := store (\<lambda>_. 0) 0x1000 demoHashBytes\<rparr>) 0x1000 demoHashBytes"
    by (intro holds_store) (auto simp: all_readable_iff readable_def demoHashMem_def in_region_def unat_of_nat64)
  then show ?thesis by (simp add: demoHashMem_def)
qed

lemma demoHash_syms: "holds demoHashMem 0x1000 (concat (map encSym demoHashSyms))"
  using demoHash_holds by (simp only: demoHashBytes_def holds_append)

lemma demoHash_strs: "holds demoHashMem 0x1030 [0]" "holds demoHashMem 0x1031 (map ord ''f'' @ [0])"
  using demoHash_holds by (simp_all add: demoHashBytes_def holds_append holds_Cons demoHashSyms_def)

lemma demo_symbols_held: "symbols_held demoSysv" "symbols_held demoGnu"
proof -
  have "ReadCStringMem demoHashMem 0x1030 0 3 = (Ok [] :: (symbol_error, string) result)"
    using demoHash_strs(1) by (intro ReadCStringMem_holds) auto
  moreover have "ReadCStringMem demoHashMem 0x1030 1 3 = (Ok ''f'' :: (symbol_error, string) result)"
    using demoHash_strs(2) by (intro ReadCStringMem_holds) auto
  ultimately show "symbols_held demoSysv" "symbols_held demoGnu"
    using demoHash_syms by (simp_all add: symbols_held_def demoSysv_def demoGnu_def) (simp_all add: demoHashSyms_def)
qed

lemma demoSysv_wf: "sysv_wf demoSysv"
proof -
  have "holds demoHashMem 0x1040 (le_enc 4 1 @ le_enc 4 2 @ encWords [1] @ encWords [0, 0])"
    using demoHash_holds by (simp add: demoHashBytes_def holds_append holds_Cons demoHashSyms_def)
  moreover have path: "sysvEnds [0, 0] 2 (Suc 0) \<and> Suc 0 \<in> set (sysvPath [0, 0] 2 (Suc 0))"
    by (simp add: numeral_2_eq_2)
  ultimately show ?thesis
    using demo_symbols_held(1)
    by (simp add: sysv_wf_def demoSysv_def demoHashSyms_def upt_conv_Cons flip: numeral_2_eq_2)
qed

theorem SysvLookup_correct_witness:
  "SysvLookup demoHashMem ''f'' 0x1040 0x1000 0x1030 3 = Ok (rawSymbol (demoHashSyms ! 1) ''f'') \<and>
   SysvLookup demoHashMem ''g'' 0x1040 0x1000 0x1030 3 = Err (SymbolNotFound ''g'')"
  using SysvLookup_correct[OF demoSysv_wf, of "''f''"] SysvLookup_correct[OF demoSysv_wf, of "''g''"]
  by (simp add: demoSysv_def demoHashSyms_def)

text \<open>
  C36: the GNU lookup is correct on every well-formed \<open>DT_GNU_HASH\<close> table; the Bloom filter and the
  comparison of hash values never hide a symbol.
\<close>

theorem GnuLookup_correct:
  assumes "gnu_wf T"
  shows "if \<exists>i\<in>{unat (im_symoffset T)..<length (im_syms T)}. im_names T ! i = nm
    then \<exists>i\<in>{unat (im_symoffset T)..<length (im_syms T)}. im_names T ! i = nm \<and>
      GnuLookup (im_mem T) nm (im_hash T) (im_symtab T) (im_strtab T) (im_strsz T) = Ok (rawSymbol (im_syms T ! i) nm)
    else GnuLookup (im_mem T) nm (im_hash T) (im_symtab T) (im_strtab T) (im_strsz T) = Err (SymbolNotFound nm)"
  by (rule gnu.lookup_correct[OF assms])

lemma demoGnu_wf: "gnu_wf demoGnu"
proof -
  have "holds demoHashMem 0x1060 (le_enc 4 1 @ le_enc 4 1 @ le_enc 4 1 @ le_enc 4 6 @ encDwords [- 1] @
      encWords [1] @ encWords [177675])"
    using demoHash_holds by (simp add: demoHashBytes_def holds_append holds_Cons demoHashSyms_def)
  moreover have "GnuHash ''f'' = 177675"
    by (simp add: GnuHash_def gnuStep_def ord_def)
  ultimately show ?thesis
    using demo_symbols_held(2)
    by (simp add: gnu_wf_def demoGnu_def demoSysv_def demoHashSyms_def upt_conv_Cons bloomHit_def gnuChain_def)
qed

theorem GnuLookup_correct_witness:
  "GnuLookup demoHashMem ''f'' 0x1060 0x1000 0x1030 3 = Ok (rawSymbol (demoHashSyms ! 1) ''f'') \<and>
   GnuLookup demoHashMem ''g'' 0x1060 0x1000 0x1030 3 = Err (SymbolNotFound ''g'')"
  using GnuLookup_correct[OF demoGnu_wf, of "''f''"] GnuLookup_correct[OF demoGnu_wf, of "''g''"]
  by (simp add: demoGnu_def demoSysv_def demoHashSyms_def)

end
