(* ===== verification/Mmap.thy ===== *)
theory Mmap
  imports Machine
begin

text \<open>
  \<open>internal/mmap/mmap.go\<close>. The kernel is not part of the program: its three memory calls and the page
  size are a parameter, the record \<open>os\<close>. \<open>os_ok\<close> states what the manual pages document of them; it is a
  hypothesis of the theorems that need it and holds for the concrete kernel \<open>demoOs\<close> below.
\<close>

unbundle bit_operations_syntax

record os =
  os_mmap :: "64 word \<Rightarrow> 64 word \<Rightarrow> 64 word \<Rightarrow> 64 word \<Rightarrow> 64 word \<Rightarrow> 64 word \<Rightarrow> (memory, 64 word, 64 word) st"
  os_mprotect :: "64 word \<Rightarrow> 64 word \<Rightarrow> 64 word \<Rightarrow> (memory, 64 word, unit) st"
  os_munmap :: "64 word \<Rightarrow> 64 word \<Rightarrow> (memory, 64 word, unit) st"
  os_pagesize :: "64 word"

text \<open>The errors wrap the \<open>errno\<close> of the call.\<close>

datatype mmap_error = MmapErrno u64 | MprotectErrno u64 | MunmapErrno u64

abbreviation (input) ProtNone :: i64 where "ProtNone \<equiv> 0"
abbreviation (input) ProtRead :: i64 where "ProtRead \<equiv> 1"
abbreviation (input) ProtWrite :: i64 where "ProtWrite \<equiv> 2"
abbreviation (input) ProtExec :: i64 where "ProtExec \<equiv> 4"
abbreviation (input) MapShared :: i64 where "MapShared \<equiv> 1"
abbreviation (input) MapPrivate :: i64 where "MapPrivate \<equiv> 2"
abbreviation (input) MapFixedFlag :: i64 where "MapFixedFlag \<equiv> 0x10"
abbreviation (input) MapAnonymous :: i64 where "MapAnonymous \<equiv> 0x20"

definition Map :: "os \<Rightarrow> u64 \<Rightarrow> u64 \<Rightarrow> i64 \<Rightarrow> i64 \<Rightarrow> i64 \<Rightarrow> i64 \<Rightarrow> (memory, mmap_error, u64) st" where
  "Map os addr len prot flags fd offset = mapErrS MmapErrno (os_mmap os addr len prot flags fd offset)"

definition MapAnon :: "os \<Rightarrow> u64 \<Rightarrow> i64 \<Rightarrow> (memory, mmap_error, u64) st" where
  "MapAnon os len prot = Map os 0 len prot (MapPrivate OR MapAnonymous) (- 1) 0"

definition MapFixed :: "os \<Rightarrow> u64 \<Rightarrow> u64 \<Rightarrow> i64 \<Rightarrow> i64 \<Rightarrow> i64 \<Rightarrow> i64 \<Rightarrow> (memory, mmap_error, u64) st" where
  "MapFixed os addr len prot flags fd offset = Map os addr len prot (flags OR MapFixedFlag) fd offset"

definition Protect :: "os \<Rightarrow> u64 \<Rightarrow> u64 \<Rightarrow> i64 \<Rightarrow> (memory, mmap_error, unit) st" where
  "Protect os addr len prot = mapErrS MprotectErrno (os_mprotect os addr len prot)"

definition Unmap :: "os \<Rightarrow> u64 \<Rightarrow> u64 \<Rightarrow> (memory, mmap_error, unit) st" where
  "Unmap os addr len = mapErrS MunmapErrno (os_munmap os addr len)"

section \<open>What the kernel documents\<close>

text \<open>The bytes a length covers: whole pages.\<close>

definition pages :: "os \<Rightarrow> u64 \<Rightarrow> nat" where
  "pages os len = (unat len + (unat (os_pagesize os) - 1)) div unat (os_pagesize os) * unat (os_pagesize os)"

text \<open>\<open>m'\<close> is \<open>m\<close> outside the \<open>n\<close> bytes from \<open>a\<close> on.\<close>

definition same_outside :: "u64 \<Rightarrow> nat \<Rightarrow> memory \<Rightarrow> memory \<Rightarrow> bool" where
  "same_outside a n m m' \<longleftrightarrow>
     (\<forall>x. \<not> in_region a n x \<longrightarrow> mbytes m' x = mbytes m x \<and> mprot m' x = mprot m x)"

definition region_prot :: "u64 \<Rightarrow> nat \<Rightarrow> 64 word option \<Rightarrow> memory \<Rightarrow> bool" where
  "region_prot a n p m \<longleftrightarrow> (\<forall>x. in_region a n x \<longrightarrow> mprot m x = p)"

text \<open>
  A successful mapping covers whole pages from the address it returns; with \<open>MAP_FIXED\<close> that is the
  requested address, otherwise one where nothing was mapped, and never 0. Anonymous memory is zero, file
  memory shows the file (\<open>file fd\<close>) from the offset on; nothing is said of bytes behind its end.
\<close>

definition mmap_ok :: "os \<Rightarrow> (i64 \<Rightarrow> bytes) \<Rightarrow> bool" where
  "mmap_ok os file \<longleftrightarrow>
     (\<forall>a len prot flags fd off m r m'. os_mmap os a len prot flags fd off m = (r, m') \<longrightarrow>
       (case r of
          Ok b \<Rightarrow>
            0 < len \<and> unat (os_pagesize os) dvd unat b \<and>
            unat b + pages os len \<le> 18446744073709551616 \<and> same_outside b (pages os len) m m' \<and>
            region_prot b (pages os len) (Some prot) m' \<and>
            (if flags AND MapFixedFlag \<noteq> 0 then b = a
             else b \<noteq> 0 \<and> region_prot b (pages os len) None m) \<and>
            (if flags AND MapAnonymous \<noteq> 0 then \<forall>x. in_region b (pages os len) x \<longrightarrow> mbytes m' x = 0
             else \<forall>i < pages os len. unat off + i < length (file fd) \<longrightarrow>
                    mbytes m' (b + of_nat i) = file fd ! (unat off + i))
        | Err e \<Rightarrow> m' = m
        | _ \<Rightarrow> False))"

definition mprotect_ok :: "os \<Rightarrow> bool" where
  "mprotect_ok os \<longleftrightarrow>
     (\<forall>a len prot m r m'. os_mprotect os a len prot m = (r, m') \<longrightarrow>
       (case r of
          Ok _ \<Rightarrow> mbytes m' = mbytes m \<and> same_outside a (pages os len) m m' \<and>
                 region_prot a (pages os len) (Some prot) m'
        | Err e \<Rightarrow> m' = m
        | _ \<Rightarrow> False))"

definition munmap_ok :: "os \<Rightarrow> bool" where
  "munmap_ok os \<longleftrightarrow>
     (\<forall>a len m r m'. os_munmap os a len m = (r, m') \<longrightarrow>
       (case r of
          Ok _ \<Rightarrow> same_outside a (pages os len) m m' \<and> region_prot a (pages os len) None m'
        | Err e \<Rightarrow> m' = m
        | _ \<Rightarrow> False))"

text \<open>The page size is a power of two below \<open>2 ^ 32\<close>.\<close>

definition pagesize_ok :: "os \<Rightarrow> bool" where
  "pagesize_ok os \<longleftrightarrow> list_ex (\<lambda>k. os_pagesize os = 2 ^ k) [12..<32]"

definition os_ok :: "os \<Rightarrow> (i64 \<Rightarrow> bytes) \<Rightarrow> bool" where
  "os_ok os file \<longleftrightarrow> mmap_ok os file \<and> mprotect_ok os \<and> munmap_ok os \<and> pagesize_ok os"

section \<open>What the helpers give\<close>

lemma pagesize_okE:
  assumes "pagesize_ok os"
  obtains k where "os_pagesize os = 2 ^ k" "12 \<le> k" "k < 32"
proof -
  obtain k where k: "k \<in> set [12..<32]" "os_pagesize os = 2 ^ k"
    using assms unfolding pagesize_ok_def list_ex_iff by (rule bexE)
  have "12 \<le> k \<and> k < 32" using k(1) by (simp only: set_upt atLeastLessThan_iff)
  then show thesis using that[OF k(2)] by (simp only: simp_thms)
qed

lemma unat_pagesize:
  assumes "pagesize_ok os" and "os_pagesize os = 2 ^ k" and "k < 32"
  shows "unat (os_pagesize os) = 2 ^ k"
proof -
  have "(2 :: nat) ^ k < 2 ^ 64" using assms(3) by (intro power_strict_increasing) auto
  then have "unat (of_nat (2 ^ k) :: u64) = 2 ^ k" by (intro unat_of_nat64) simp
  then show ?thesis by (simp add: assms(2))
qed

lemma pagesize_pos: "pagesize_ok os \<Longrightarrow> 0 < unat (os_pagesize os)"
  using pagesize_okE[of os] unat_pagesize[of os] by (metis zero_less_numeral zero_less_power)

lemma pages_ge: "pagesize_ok os \<Longrightarrow> unat len \<le> pages os len"
  unfolding pages_def by (rule div_round_up_ge) (rule pagesize_pos)

lemma same_outside_refl [simp]: "same_outside a n m m"
  by (simp add: same_outside_def)

lemma same_outside_trans: "same_outside a n m m' \<Longrightarrow> same_outside a n m' m'' \<Longrightarrow> same_outside a n m m''"
  by (simp add: same_outside_def)

lemma in_region_sub:
  assumes "in_region b k x" and "b = a + of_nat i" and "i + k \<le> n" and "n \<le> 18446744073709551616"
  shows "in_region a n x"
proof -
  obtain j where j: "j < k" "x = b + of_nat j" using assms(1) by (auto simp: in_region_iff)
  then have "x = a + of_nat (i + j)" using assms(2) by (simp add: add.assoc)
  moreover have "in_region a n (a + of_nat (i + j))"
    using j(1) assms(3,4) by (intro in_region_offset) linarith+
  ultimately show ?thesis by simp
qed

lemma same_outside_sub:
  assumes "same_outside b k m m'" and "b = a + of_nat i" and "i + k \<le> n" and "n \<le> 18446744073709551616"
  shows "same_outside a n m m'"
  using assms(1) in_region_sub[OF _ assms(2-4)] by (auto simp: same_outside_def)

lemma Map_cases:
  assumes "mmap_ok os file" and "Map os a len prot flags fd off m = (r, m')"
  obtains (mapped) b where "r = Ok b" "0 < len" "unat (os_pagesize os) dvd unat b" "unat b + pages os len \<le> 18446744073709551616"
      "same_outside b (pages os len) m m'" "region_prot b (pages os len) (Some prot) m'"
      "if flags AND MapFixedFlag \<noteq> 0 then b = a
       else b \<noteq> 0 \<and> region_prot b (pages os len) None m"
      "if flags AND MapAnonymous \<noteq> 0 then \<forall>x. in_region b (pages os len) x \<longrightarrow> mbytes m' x = 0
       else \<forall>i < pages os len. unat off + i < length (file fd) \<longrightarrow>
              mbytes m' (b + of_nat i) = file fd ! (unat off + i)"
    | (failed) e where "r = Err (MmapErrno e)" "m' = m"
proof -
  obtain q where q: "os_mmap os a len prot flags fd off m = (q, m')" and r: "r = mapErr MmapErrno q"
    using assms(2) by (auto simp: Map_def mapErrS_def split: prod.splits)
  note spec = assms(1)[unfolded mmap_ok_def, rule_format, OF q]
  show thesis
  proof (cases q)
    case (Ok b)
    with spec r show thesis by (intro mapped[of b]) simp_all
  next
    case (Err e)
    with spec r show thesis by (intro failed) simp_all
  qed (use spec in simp_all)
qed

lemma Protect_cases:
  assumes "mprotect_ok os" and "Protect os a len prot m = (r, m')"
  obtains (ok) "r = Ok ()" "mbytes m' = mbytes m" "same_outside a (pages os len) m m'"
      "region_prot a (pages os len) (Some prot) m'"
    | (failed) e where "r = Err (MprotectErrno e)" "m' = m"
proof -
  obtain q where q: "os_mprotect os a len prot m = (q, m')" and r: "r = mapErr MprotectErrno q"
    using assms(2) by (auto simp: Protect_def mapErrS_def split: prod.splits)
  note spec = assms(1)[unfolded mprotect_ok_def, rule_format, OF q]
  show thesis
  proof (cases q)
    case (Ok b)
    with spec r show thesis by (intro ok) simp_all
  next
    case (Err e)
    with spec r show thesis by (intro failed) simp_all
  qed (use spec in simp_all)
qed

lemma Unmap_cases:
  assumes "munmap_ok os" and "Unmap os a len m = (r, m')"
  obtains (ok) "r = Ok ()" "same_outside a (pages os len) m m'" "region_prot a (pages os len) None m'"
    | (failed) e where "r = Err (MunmapErrno e)" "m' = m" "os_munmap os a len m = (Err e, m)"
proof -
  obtain q where q: "os_munmap os a len m = (q, m')" and r: "r = mapErr MunmapErrno q"
    using assms(2) by (auto simp: Unmap_def mapErrS_def split: prod.splits)
  note spec = assms(1)[unfolded munmap_ok_def, rule_format, OF q]
  show thesis
  proof (cases q)
    case (Ok b)
    with spec r show thesis by (intro ok) simp_all
  next
    case (Err e)
    with spec r q show thesis by (intro failed) simp_all
  qed (use spec in simp_all)
qed

section \<open>A concrete kernel\<close>

text \<open>
  A small kernel that satisfies \<open>os_ok\<close>: 4096-byte pages, new mappings at the first free of a few
  addresses, one file.
\<close>

definition mapRegion :: "u64 \<Rightarrow> nat \<Rightarrow> 64 word option \<Rightarrow> (u64 \<Rightarrow> u8) \<Rightarrow> memory \<Rightarrow> memory" where
  "mapRegion a n p f m =
     \<lparr>mbytes = (\<lambda>x. if in_region a n x then f x else mbytes m x),
      mprot = (\<lambda>x. if in_region a n x then p else mprot m x)\<rparr>"

definition freeAt :: "memory \<Rightarrow> u64 \<Rightarrow> nat \<Rightarrow> bool" where
  "freeAt m a n = list_all (\<lambda>i. mprot m (a + of_nat i) = None) [0..<n]"

definition pages4096 :: "u64 \<Rightarrow> nat" where
  "pages4096 len = (unat len + 4095) div 4096 * 4096"

definition demoContents :: "bytes \<Rightarrow> u64 \<Rightarrow> u64 \<Rightarrow> u64 \<Rightarrow> u8" where
  "demoContents file off b x =
     (let i = unat off + unat (x - b) in if i < length file then file ! i else 0)"

definition demoMmap :: "bytes \<Rightarrow> u64 \<Rightarrow> u64 \<Rightarrow> u64 \<Rightarrow> u64 \<Rightarrow> u64 \<Rightarrow> u64 \<Rightarrow> (memory, u64, u64) st" where
  "demoMmap file a len prot flags fd off m =
     (let n = pages4096 len;
          b = (if flags AND MapFixedFlag \<noteq> 0 then Some a
               else find (\<lambda>b. freeAt m b n) [0x100000, 0x200000, 0x300000, 0x400000])
      in case b of
           None \<Rightarrow> (Err 12, m)
         | Some b \<Rightarrow>
             if len = 0 \<or> unat b mod 4096 \<noteq> 0 \<or> 18446744073709551616 < unat b + n then (Err 22, m)
             else (Ok b, mapRegion b n (Some prot)
                     (if flags AND MapAnonymous \<noteq> 0 then (\<lambda>_. 0) else demoContents file off b) m))"

definition demoOs :: "bytes \<Rightarrow> os" where
  "demoOs file = \<lparr>
     os_mmap = demoMmap file,
     os_mprotect = (\<lambda>a len prot m. (Ok (), mapRegion a (pages4096 len) (Some prot) (mbytes m) m)),
     os_munmap = (\<lambda>a len m. (Ok (), mapRegion a (pages4096 len) None (\<lambda>_. 0) m)),
     os_pagesize = 4096\<rparr>"

lemma demoOs_simps [simp]:
  "os_mmap (demoOs file) = demoMmap file"
  "os_mprotect (demoOs file) a len prot m = (Ok (), mapRegion a (pages4096 len) (Some prot) (mbytes m) m)"
  "os_munmap (demoOs file) a len m = (Ok (), mapRegion a (pages4096 len) None (\<lambda>_. 0) m)"
  "os_pagesize (demoOs file) = 4096"
  by (simp_all add: demoOs_def)

lemma pages_demoOs [simp]: "pages (demoOs file) len = pages4096 len"
  by (simp add: pages_def pages4096_def)

lemma freeAt_region:
  assumes "freeAt m b n"
  shows "region_prot b n None m"
  using assms by (auto simp: freeAt_def region_prot_def list_all_iff in_region_iff)

lemma demoContents_at:
  assumes "i < n" and "n \<le> 18446744073709551616" and "unat off + i < length file"
  shows "demoContents file off b (b + of_nat i) = file ! (unat off + i)"
  using assms by (simp add: demoContents_def Let_def unat_of_nat64)

lemma demoMmap_ok: "mmap_ok (demoOs file) (\<lambda>_. file)"
  unfolding mmap_ok_def
proof (intro allI impI)
  fix a len prot flags fd off m r m'
  assume "os_mmap (demoOs file) a len prot flags fd off m = (r, m')"
  then have call: "demoMmap file a len prot flags fd off m = (r, m')" by simp
  let ?b = "if flags AND MapFixedFlag \<noteq> 0 then Some a
            else find (\<lambda>b. freeAt m b (pages4096 len)) [0x100000, 0x200000, 0x300000, 0x400000]"
  consider "m' = m" "\<exists>e. r = Err e"
    | b where "?b = Some b" "r = Ok b" "len \<noteq> 0" "unat b mod 4096 = 0" "unat b + pages4096 len \<le> 18446744073709551616"
      "m' = mapRegion b (pages4096 len) (Some prot)
              (if flags AND MapAnonymous \<noteq> 0 then (\<lambda>_. 0) else demoContents file off b) m"
    using call by (auto simp: demoMmap_def Let_def split: option.splits if_splits)
  then show "case r of
          Ok b \<Rightarrow>
            0 < len \<and> unat (os_pagesize (demoOs file)) dvd unat b \<and>
            unat b + pages (demoOs file) len \<le> 18446744073709551616 \<and> same_outside b (pages (demoOs file) len) m m' \<and>
            region_prot b (pages (demoOs file) len) (Some prot) m' \<and>
            (if flags AND MapFixedFlag \<noteq> 0 then b = a
             else b \<noteq> 0 \<and> region_prot b (pages (demoOs file) len) None m) \<and>
            (if flags AND MapAnonymous \<noteq> 0 then \<forall>x. in_region b (pages (demoOs file) len) x \<longrightarrow> mbytes m' x = 0
             else \<forall>i < pages (demoOs file) len. unat off + i < length file \<longrightarrow>
                    mbytes m' (b + of_nat i) = file ! (unat off + i))
        | Err e \<Rightarrow> m' = m
        | _ \<Rightarrow> False"
  proof cases
    case 1
    then show ?thesis by auto
  next
    case (2 b)
    have place: "if flags AND MapFixedFlag \<noteq> 0 then b = a
             else b \<noteq> 0 \<and> region_prot b (pages4096 len) None m"
      using 2(1) by (auto simp: find_Some_iff intro: freeAt_region split: if_splits)
    have n: "pages4096 len \<le> 18446744073709551616" using 2(5) by simp
    have bytes: "if flags AND MapAnonymous \<noteq> 0 then \<forall>x. in_region b (pages4096 len) x \<longrightarrow> mbytes m' x = 0
             else \<forall>i < pages4096 len. unat off + i < length file \<longrightarrow>
                    mbytes m' (b + of_nat i) = file ! (unat off + i)"
      unfolding 2(6) using n by (auto simp: mapRegion_def in_region_offset demoContents_at)
    have "same_outside b (pages4096 len) m m'" "region_prot b (pages4096 len) (Some prot) m'"
      unfolding 2(6) by (simp_all add: mapRegion_def same_outside_def region_prot_def)
    with place bytes 2(2-5) show ?thesis
      by (simp add: word_gt_0 mod_eq_0_iff_dvd)
  qed
qed

lemma demoOs_ok: "os_ok (demoOs file) (\<lambda>_. file)"
proof -
  have "pagesize_ok (demoOs file)"
    by (simp add: pagesize_ok_def upt_conv_Cons)
  moreover have "mprotect_ok (demoOs file)"
    by (auto simp: mprotect_ok_def mapRegion_def same_outside_def region_prot_def)
  moreover have "munmap_ok (demoOs file)"
    by (auto simp: munmap_ok_def mapRegion_def same_outside_def region_prot_def)
  ultimately show ?thesis by (simp add: os_ok_def demoMmap_ok)
qed

end
