(* ===== verification/Tls.thy ===== *)
theory Tls
  imports Mmap
begin

text \<open>
  \<open>internal/tls\<close>: the module registry (\<open>Manager\<close>), the blocks of each thread (\<open>ThreadLocalRegistry\<close>)
  and \<open>__tls_get_addr\<close>. The two singletons and the process memory are one state, the record \<open>world\<close>. The
  methods hold their mutex for the whole call, so each is one step on that state. Modules never change
  once they are registered, so a \<open>*Module\<close> is modelled by its value (\<open>nil\<close> is \<open>None\<close>).
\<close>

unbundle bit_operations_syntax

record tls_module =
  mod_ID :: u64
  mod_Size :: u64
  mod_Align :: u64
  mod_FileSize :: u64
  mod_InitData :: u64

record tls_block =
  blk_Addr :: u64
  blk_Module :: tls_module

record world =
  w_mem :: memory
  w_modules :: "tls_module list"
  w_nextID :: u64
  w_blocks :: "u64 \<rightharpoonup> (u64 \<rightharpoonup> tls_block)"

datatype tls_error = ModuleLimit | AlignTooLarge u64 | NilModule | BlockMmap mmap_error

text \<open>A call that only works on the memory.\<close>

definition onMem :: "(memory, 'e, 'a) st \<Rightarrow> (world, 'e, 'a) st" where
  "onMem f = (\<lambda>w. case f (w_mem w) of (r, m) \<Rightarrow> (r, w\<lparr>w_mem := m\<rparr>))"

text \<open>Loads and stores as calls on the memory.\<close>

definition loadS :: "(memory \<Rightarrow> ('e, 'a) result) \<Rightarrow> (memory, 'e, 'a) st" where
  "loadS f = (\<lambda>m. (f m, m))"

definition storeS :: "(memory \<Rightarrow> ('e, memory) result) \<Rightarrow> (memory, 'e, unit) st" where
  "storeS f = (\<lambda>m. case f m of Ok m' \<Rightarrow> (Ok (), m') | Err e \<Rightarrow> (Err e, m)
                            | Panic p \<Rightarrow> (Panic p, m) | Hang \<Rightarrow> (Hang, m))"

section \<open>The manager\<close>

abbreviation (input) maxModuleID :: u64 where "maxModuleID \<equiv> 65536"

text \<open>The state \<open>GlobalManager\<close> and \<open>GetGlobalRegistry\<close> create on first use.\<close>

definition initialWorld :: "memory \<Rightarrow> world" where
  "initialWorld m = \<lparr>w_mem = m, w_modules = [], w_nextID = 1, w_blocks = Map.empty\<rparr>"

definition RegisterModule :: "u64 \<Rightarrow> u64 \<Rightarrow> u64 \<Rightarrow> u64 \<Rightarrow> (world, tls_error, tls_module) st" where
  "RegisterModule sz align fileSize initData = (\<lambda>w.
     if w_nextID w \<ge> maxModuleID then (Err ModuleLimit, w)
     else
       let align = (if align = 0 then 1 else align)
       in if align > 4096 then (Err (AlignTooLarge align), w)
          else
            let m = \<lparr>mod_ID = w_nextID w, mod_Size = sz, mod_Align = align, mod_FileSize = fileSize,
                     mod_InitData = initData\<rparr>
            in (Ok m, w\<lparr>w_modules := w_modules w @ [m], w_nextID := w_nextID w + 1\<rparr>))"

definition alignedSize :: "tls_module \<Rightarrow> u64" where
  "alignedSize m = (mod_Size m + mod_Align m - 1) AND NOT (mod_Align m - 1)"

text \<open>\<open>copy(dst, src)\<close> of two slices of \<open>n\<close> bytes.\<close>

definition copyBytes :: "u64 \<Rightarrow> u64 \<Rightarrow> u64 \<Rightarrow> (memory, 'e, unit) st" where
  "copyBytes dst src n =
     bindS (loadS (\<lambda>m. rd_bytes m src (unat n))) (\<lambda>bs. storeS (\<lambda>m. wr_bytes m dst bs))"

definition copyInitData :: "tls_module \<Rightarrow> u64 \<Rightarrow> (memory, tls_error, unit) st" where
  "copyInitData md addr =
     (if mod_FileSize md > 0 \<and> mod_InitData md \<noteq> 0 then
        bindS (liftS (unsafeSlice (mod_InitData md) (mod_FileSize md) 1)) (\<lambda>_.
        bindS (liftS (unsafeSlice addr (mod_FileSize md) 1)) (\<lambda>_.
          copyBytes addr (mod_InitData md) (mod_FileSize md)))
      else retS ())"

definition zeroRest :: "tls_module \<Rightarrow> u64 \<Rightarrow> (memory, tls_error, unit) st" where
  "zeroRest md addr =
     (if mod_Size md > mod_FileSize md then
        let bssStart = addr + mod_FileSize md; bssSize = mod_Size md - mod_FileSize md
        in bindS (liftS (unsafeSlice bssStart bssSize 1)) (\<lambda>_.
             storeS (\<lambda>m. wr_bytes m bssStart (replicate (unat bssSize) 0)))
      else retS ())"

definition AllocateBlock :: "os \<Rightarrow> tls_module option \<Rightarrow> (memory, tls_error, tls_block) st" where
  "AllocateBlock os md =
     (case md of
        None \<Rightarrow> failS NilModule
      | Some md \<Rightarrow>
          bindS (mapErrS BlockMmap
                  (Map os 0 (alignedSize md) (ProtRead OR ProtWrite) (MapPrivate OR MapAnonymous) (- 1) 0)) (\<lambda>addr.
          bindS (copyInitData md addr) (\<lambda>_.
          bindS (zeroRest md addr) (\<lambda>_.
            retS \<lparr>blk_Addr = addr, blk_Module = md\<rparr>))))"

text \<open>\<open>Free\<close> clears the block's address, whatever the kernel answers.\<close>

definition Free :: "os \<Rightarrow> tls_block \<Rightarrow> memory \<Rightarrow> (mmap_error, unit) result \<times> tls_block \<times> memory" where
  "Free os b m =
     (if blk_Addr b = 0 then (Ok (), b, m)
      else case Unmap os (blk_Addr b) (alignedSize (blk_Module b)) m of
             (r, m') \<Rightarrow> (r, b\<lparr>blk_Addr := 0\<rparr>, m'))"

definition GetModuleTLSOffset :: "tls_module \<Rightarrow> i64 \<Rightarrow> i64" where
  "GetModuleTLSOffset m offset = offset"

definition GetThreadPointerOffset :: "tls_block \<Rightarrow> i64" where
  "GetThreadPointerOffset b = - mod_Size (blk_Module b)"

definition GetModuleID :: "tls_module \<Rightarrow> u64" where
  "GetModuleID m = mod_ID m"

definition pageAlign :: "os \<Rightarrow> u64 \<Rightarrow> u64" where
  "pageAlign os v = (v + os_pagesize os - 1) AND NOT (os_pagesize os - 1)"

section \<open>The blocks of the threads\<close>

text \<open>
  \<open>order\<close> is the order in which Go iterates over the thread's blocks. The loop goes on after a failure and
  remembers the first.
\<close>

primrec freeBlocks ::
    "os \<Rightarrow> tls_block list \<Rightarrow> mmap_error option \<Rightarrow> memory \<Rightarrow> (mmap_error option, unit) result \<times> memory" where
  "freeBlocks os [] firstErr m = (case firstErr of None \<Rightarrow> Ok () | Some e \<Rightarrow> Err (Some e), m)"
| "freeBlocks os (b # bs) firstErr m =
     (case Free os b m of (r, _, m') \<Rightarrow>
        (case r of
           Ok _ \<Rightarrow> freeBlocks os bs firstErr m'
         | Err e \<Rightarrow> freeBlocks os bs (if firstErr = None then Some e else firstErr) m'
         | Panic p \<Rightarrow> (Panic p, m')
         | Hang \<Rightarrow> (Hang, m')))"

definition CleanupThread :: "os \<Rightarrow> u64 list \<Rightarrow> u64 \<Rightarrow> (world, mmap_error option, unit) st" where
  "CleanupThread os order threadID = (\<lambda>w.
     case w_blocks w threadID of
       None \<Rightarrow> (Ok (), w)
     | Some threadBlocks \<Rightarrow>
         (case freeBlocks os (List.map_filter threadBlocks order) None (w_mem w) of
            (r, m) \<Rightarrow> (r, if returns r then w\<lparr>w_mem := m, w_blocks := (w_blocks w)(threadID := None)\<rparr>
                          else w\<lparr>w_mem := m\<rparr>)))"

text \<open>\<open>order\<close>: the pairs of thread and module in the order of the two loops. Go returns it as an \<open>int\<close>.\<close>

definition GetModuleCount :: "(u64 \<times> u64) list \<Rightarrow> i64" where
  "GetModuleCount order =
     fold (\<lambda>(_, moduleID) maxModuleID. if moduleID > maxModuleID then moduleID else maxModuleID) order 0"

section \<open>\<open>__tls_get_addr\<close>\<close>

text \<open>
  The module table lookup: \<open>int(id) <= len(modules)\<close> compares as signed integers, the index is unsigned.
\<close>

definition findModule :: "world \<Rightarrow> u64 \<Rightarrow> (unit, tls_module option) result" where
  "findModule w i =
     (if i > 0 \<and> sint i \<le> int (length (w_modules w)) then
        (if unat (i - 1) < length (w_modules w) then Ok (Some (w_modules w ! unat (i - 1)))
         else Panic IndexOutOfRange)
      else Ok None)"

definition putBlock :: "u64 \<Rightarrow> u64 \<Rightarrow> tls_block \<Rightarrow> world \<Rightarrow> world" where
  "putBlock tid i b w =
     w\<lparr>w_blocks := (w_blocks w)(tid \<mapsto> (case w_blocks w tid of None \<Rightarrow> Map.empty | Some f \<Rightarrow> f)(i \<mapsto> b))\<rparr>"

text \<open>The thread's map of blocks is made on demand.\<close>

definition threadMap :: "u64 \<Rightarrow> world \<Rightarrow> world" where
  "threadMap tid w0 = (case w_blocks w0 tid of
     None \<Rightarrow> w0\<lparr>w_blocks := (w_blocks w0)(tid \<mapsto> Map.empty)\<rparr> | Some _ \<Rightarrow> w0)"

definition loadWord :: "u64 \<Rightarrow> (world, unit, u64) st" where
  "loadWord a = onMem (loadS (\<lambda>m. rd64 m a))"

text \<open>
  The block is made; \<open>idx.ModuleID\<close> is loaded again for the store into the map. A failed allocation is
  answered with address 0.
\<close>

definition newBlock :: "os \<Rightarrow> u64 \<Rightarrow> u64 \<Rightarrow> u64 \<Rightarrow> (world, unit, u64) st" where
  "newBlock os tid indexPtr moduleID = (\<lambda>w.
     case findModule w moduleID of
       Ok None \<Rightarrow> (Ok 0, w)
     | Ok (Some md) \<Rightarrow>
         (case onMem (AllocateBlock os (Some md)) w of
            (Ok block, w) \<Rightarrow>
              bindS (loadWord indexPtr) (\<lambda>moduleID w.
                bindS (loadWord (indexPtr + 8)) (\<lambda>off. retS (blk_Addr block + off))
                  (putBlock tid moduleID block w)) w
          | (Err _, w) \<Rightarrow> (Ok 0, w)
          | (Panic p, w) \<Rightarrow> (Panic p, w)
          | (Hang, w) \<Rightarrow> (Hang, w))
     | Err e \<Rightarrow> (Err e, w)
     | Panic p \<Rightarrow> (Panic p, w)
     | Hang \<Rightarrow> (Hang, w))"

text \<open>\<open>tid\<close> is the answer of \<open>gettid\<close>.\<close>

definition GetTLSAddr :: "os \<Rightarrow> u64 \<Rightarrow> u64 \<Rightarrow> (world, unit, u64) st" where
  "GetTLSAddr os tid indexPtr = (\<lambda>w0.
     bindS (loadWord indexPtr) (\<lambda>moduleID w.
       case the (w_blocks w tid) moduleID of
         Some block \<Rightarrow> bindS (loadWord (indexPtr + 8)) (\<lambda>off. retS (blk_Addr block + off)) w
       | None \<Rightarrow> newBlock os tid indexPtr moduleID w) (threadMap tid w0))"

text \<open>
  \<open>RegisterTLSGetAddr\<close>: the C function pointer is made once by \<open>purego.NewCallback\<close>, a parameter, and kept
  in \<open>tlsGetAddrFunc\<close>.
\<close>

definition RegisterTLSGetAddr :: "('e, u64) result \<Rightarrow> u64 \<Rightarrow> ('e, u64) result \<times> u64" where
  "RegisterTLSGetAddr newCallback tlsGetAddrFunc =
     (if tlsGetAddrFunc \<noteq> 0 then (Ok tlsGetAddrFunc, tlsGetAddrFunc)
      else case newCallback of
             Ok f \<Rightarrow> (Ok f, f) | Err e \<Rightarrow> (Err e, 0) | Panic p \<Rightarrow> (Panic p, 0) | Hang \<Rightarrow> (Hang, 0))"

section \<open>A new block\<close>

text \<open>A template as a correct object has it: power-of-two alignment, no more file data than memory.\<close>

definition template_ok :: "tls_module \<Rightarrow> memory \<Rightarrow> bool" where
  "template_ok md m \<longleftrightarrow>
     list_ex (\<lambda>k. mod_Align md = 2 ^ k) [0..<13] \<and> mod_FileSize md \<le> mod_Size md \<and> unat (mod_Size md) < 2 ^ 62 \<and>
     (mod_InitData md \<noteq> 0 \<longrightarrow>
        unat (mod_InitData md) + unat (mod_FileSize md) \<le> 2 ^ 64 \<and>
        all_readable m (mod_InitData md) (unat (mod_FileSize md)))"

definition initialBytes :: "tls_module \<Rightarrow> memory \<Rightarrow> bytes" where
  "initialBytes md m =
     (if mod_FileSize md > 0 \<and> mod_InitData md \<noteq> 0 then peek m (mod_InitData md) (unat (mod_FileSize md))
      else replicate (unat (mod_FileSize md)) 0) @
     replicate (unat (mod_Size md) - unat (mod_FileSize md)) 0"

lemma template_ok_align:
  assumes "template_ok md m"
  obtains k where "mod_Align md = 2 ^ k" "k < 13"
proof -
  have "list_ex (\<lambda>k. mod_Align md = 2 ^ k) [0..<13]" using assms by (simp only: template_ok_def)
  then obtain k where k: "k \<in> set [0..<13]" "mod_Align md = 2 ^ k"
    unfolding list_ex_iff by (rule bexE)
  have "k < 13" using k(1) by (simp only: set_upt atLeastLessThan_iff)
  then show thesis using that[OF k(2)] by (simp only: simp_thms)
qed

lemma alignedSize_ge:
  assumes "template_ok md m"
  shows "unat (mod_Size md) \<le> unat (alignedSize md)"
proof -
  obtain k where k: "mod_Align md = 2 ^ k" "k < 13"
    using assms by (rule template_ok_align)
  have "(2 :: nat) ^ k \<le> 2 ^ 12" using k(2) by (intro power_increasing) auto
  moreover have "unat (mod_Size md) < 2 ^ 62" using assms by (simp only: template_ok_def)
  ultimately have wrap: "unat (mod_Size md) + (2 ^ k - 1) < 2 ^ 64" by simp
  have "alignedSize md = (mod_Size md + mask k) AND NOT (mask k)"
    by (simp add: alignedSize_def k(1) mask_eq_exp_minus_1 add_diff_eq)
  then have "unat (alignedSize md) = (unat (mod_Size md) + (2 ^ k - 1)) div 2 ^ k * 2 ^ k"
    using round_up_word[OF _ wrap] k(2) by simp
  then show ?thesis using div_round_up_ge[of "2 ^ k" "unat (mod_Size md)"] by simp
qed

lemma region_readable:
  assumes "region_prot b n (Some p) m" and "p AND 1 \<noteq> 0" and "k \<le> n" and "n \<le> 18446744073709551616"
  shows "all_readable m b k"
  using assms in_region_offset[of _ n b] by (auto simp: all_readable_iff readable_def region_prot_def)

lemma region_writable:
  assumes "region_prot b n (Some p) m" and "p AND 2 \<noteq> 0" and "i + k \<le> n" and "n \<le> 18446744073709551616"
  shows "all_writable m (b + of_nat i) k"
proof -
  have "in_region b n (b + of_nat i + of_nat j)" if "j < k" for j
    using in_region_offset[of "i + j" n b] that assms(3,4) by (simp add: add.assoc)
  then show ?thesis using assms by (auto simp: all_writable_iff writable_def region_prot_def)
qed

lemma readable_not_new:
  assumes "region_prot b n None m" and "readable m x"
  shows "\<not> in_region b n x"
  using assms by (auto simp: region_prot_def readable_def)

lemma same_outside_store:
  assumes "length bs + i \<le> n" and "n \<le> 18446744073709551616"
  shows "same_outside b n m (m\<lparr>mbytes := store (mbytes m) (b + of_nat i) bs\<rparr>)"
proof -
  have "\<not> in_region (b + of_nat i) (length bs) x" if "\<not> in_region b n x" for x
    using that in_region_sub[OF _ refl, of b i "length bs" x n] assms by auto
  then show ?thesis by (simp add: same_outside_def store_outside)
qed

lemma in_region_0 [simp]: "\<not> in_region a 0 x"
  by (simp add: in_region_def)

lemma unsafeSlice_ok:
  assumes "unat a + unat n \<le> 18446744073709551616" and "a \<noteq> 0" and "unat n < 2 ^ 62"
  shows "unsafeSlice a n 1 = Ok (a, n)"
  using assms by (simp add: unsafeSlice_def not_le le_diff_conv2 unat_bound64 less_imp_le)

lemma storeS_Ok: "all_writable m a (length bs) \<Longrightarrow>
    storeS (\<lambda>m. wr_bytes m a bs) m = (Ok (), m\<lparr>mbytes := store (mbytes m) a bs\<rparr>)"
  by (simp add: storeS_def wr_bytes_def all_writable_iff find_upt_None split: option.split)

lemma copyBytes_Ok: "all_readable m src (unat n) \<Longrightarrow> all_writable m dst (unat n) \<Longrightarrow>
    copyBytes dst src n m = (Ok (), m\<lparr>mbytes := store (mbytes m) dst (peek m src (unat n))\<rparr>)"
  by (simp add: copyBytes_def bindS_def loadS_def storeS_Ok)

text \<open>The two writes on fresh zeroed memory.\<close>

definition filled :: "tls_module \<Rightarrow> u64 \<Rightarrow> memory \<Rightarrow> bytes" where
  "filled md b m =
     (if mod_FileSize md > 0 \<and> mod_InitData md \<noteq> 0 then peek m (mod_InitData md) (unat (mod_FileSize md))
      else peek m b (unat (mod_FileSize md)))"

lemma fill_block:
  assumes tm: "template_ok md m" and b: "b \<noteq> 0" "unat b + n \<le> 18446744073709551616"
    and n: "unat (mod_Size md) \<le> n" and rp: "region_prot b n (Some 3) m1"
    and new: "region_prot b n None m" and so: "same_outside b n m m1"
  shows "\<exists>m2. bindS (copyInitData md b) (\<lambda>_. zeroRest md b) m1 = (Ok (), m2) \<and>
     same_outside b n m1 m2 \<and> mprot m2 = mprot m1 \<and>
     peek m2 b (unat (mod_Size md)) = filled md b m1 @ replicate (unat (mod_Size md) - unat (mod_FileSize md)) 0"
proof -
  let ?fs = "unat (mod_FileSize md)" and ?sz = "unat (mod_Size md)"
  have le: "?fs \<le> ?sz" "?sz < 2 ^ 62" and le': "mod_FileSize md \<le> mod_Size md"
    using tm by (auto simp: template_ok_def word_le_nat_alt)
  have n64: "n \<le> 18446744073709551616" using b(2) by simp
  let ?m2 = "m1\<lparr>mbytes := store (mbytes m1) b (filled md b m1)\<rparr>"
  have len: "length (filled md b m1) = ?fs" by (simp add: filled_def)
  have copy: "\<exists>m2. copyInitData md b m1 = (Ok (), m2) \<and> same_outside b n m1 m2 \<and> mprot m2 = mprot m1 \<and>
      peek m2 b ?fs = filled md b m1"
  proof (cases "mod_FileSize md > 0 \<and> mod_InitData md \<noteq> 0")
    case False
    then show ?thesis by (auto simp: copyInitData_def filled_def retS_def)
  next
    case True
    have src: "unat (mod_InitData md) + ?fs \<le> 18446744073709551616" "all_readable m (mod_InitData md) ?fs"
      using tm True by (simp_all add: template_ok_def)
    have "readable m1 x" if "readable m x" for x
      using readable_not_new[OF new that] so that by (simp add: same_outside_def readable_def)
    then have r: "all_readable m1 (mod_InitData md) ?fs"
      using src(2) by (simp add: all_readable_iff)
    have w: "all_writable m1 b ?fs"
      using region_writable[OF rp, of 0 ?fs] le n n64 by simp
    have "unat (mod_InitData md) + ?fs \<le> 18446744073709551616" "?fs < 2 ^ 62"
      "unat b + ?fs \<le> 18446744073709551616" "mod_InitData md \<noteq> 0"
      using src True le b n by auto
    then have "copyInitData md b m1 = (Ok (), ?m2)"
      using True b(1) by (simp add: copyInitData_def bindS_def liftS_def unsafeSlice_ok copyBytes_Ok[OF r w] filled_def
          del: One_nat_def)
    moreover have "same_outside b n m1 ?m2"
      using same_outside_store[of "filled md b m1" 0 n b m1] len le n n64 by simp
    moreover have "peek ?m2 b ?fs = filled md b m1"
      using le n n64 by (intro peek_store len) simp
    ultimately show ?thesis by simp
  qed
  then obtain m2 where c: "copyInitData md b m1 = (Ok (), m2)" "same_outside b n m1 m2" "mprot m2 = mprot m1"
      "peek m2 b ?fs = filled md b m1" by blast
  show ?thesis
  proof (cases "mod_Size md > mod_FileSize md")
    case False
    with le' have "mod_Size md = mod_FileSize md" by simp
    with c show ?thesis by (simp add: bindS_def zeroRest_def retS_def)
  next
    case True
    let ?rest = "mod_Size md - mod_FileSize md"
    have rest: "unat ?rest = ?sz - ?fs" using le' by (simp add: unat_sub)
    let ?z = "replicate (unat ?rest) 0 :: bytes"
    let ?m3 = "m2\<lparr>mbytes := store (mbytes m2) (b + mod_FileSize md) ?z\<rparr>"
    have off: "b + mod_FileSize md = b + of_nat ?fs" by simp
    have lt: "?fs < ?sz" using True by (simp add: word_less_nat_alt)
    then have ub: "unat (b + mod_FileSize md) = unat b + ?fs"
      using b n by (intro unat_add_no_wrap) simp
    then have nz: "b + mod_FileSize md \<noteq> 0" using b(1) by (auto simp: word_unat_eq_iff)
    have "region_prot b n (Some 3) m2" using rp c(3) by (simp add: region_prot_def)
    then have w: "all_writable m2 (b + mod_FileSize md) (length ?z)"
      using le n n64 region_writable[of b n 3 m2 ?fs "unat ?rest"] by (auto simp: rest)
    have "unat (b + mod_FileSize md) + unat ?rest \<le> 18446744073709551616" "unat ?rest < 2 ^ 62"
      using b n le ub rest by auto
    then have "zeroRest md b m2 = (Ok (), ?m3)"
      using True nz by (simp add: zeroRest_def Let_def bindS_def liftS_def unsafeSlice_ok storeS_Ok[OF w]
          del: One_nat_def)
    moreover have "same_outside b n m2 ?m3"
      using same_outside_store[of ?z ?fs n b m2] le n n64 by (simp add: rest)
    moreover have "peek ?m3 b ?sz = filled md b m1 @ ?z"
    proof -
      have "peek ?m3 b ?sz = peek ?m3 b ?fs @ peek ?m3 (b + of_nat ?fs) (?sz - ?fs)"
        using peek_append[of ?m3 b ?fs "?sz - ?fs"] le by simp
      moreover have "peek ?m3 b ?fs = peek m2 b ?fs"
      proof (rule peek_cong)
        fix i assume i: "i < ?fs"
        have "in_region (b + of_nat ?fs) (?sz - ?fs) (b + of_nat i) \<Longrightarrow> False"
          using in_region_interval[of "b + of_nat ?fs" "?sz - ?fs" "b + of_nat i"] i ub b n le
          by (simp add: unat_add_no_wrap unat_of_nat64)
        then show "mbytes ?m3 (b + of_nat i) = mbytes m2 (b + of_nat i)"
          by (auto simp: rest intro!: store_outside)
      qed
      moreover have "peek ?m3 (b + of_nat ?fs) (?sz - ?fs) = ?z"
        unfolding off using le by (intro peek_store) (auto simp: rest)
      ultimately show ?thesis by (simp add: c(4))
    qed
    ultimately show ?thesis
      using c same_outside_trans[OF c(2)] by (simp add: bindS_def rest)
  qed
qed

text \<open>What a new block is: \<open>fresh_block os md m b m'\<close> for a block at \<open>b\<close> made from memory \<open>m\<close>.\<close>

definition fresh_block :: "os \<Rightarrow> tls_module \<Rightarrow> memory \<Rightarrow> u64 \<Rightarrow> memory \<Rightarrow> bool" where
  "fresh_block os md m b m' \<longleftrightarrow>
     b \<noteq> 0 \<and> unat (os_pagesize os) dvd unat b \<and> unat b + pages os (alignedSize md) \<le> 2 ^ 64 \<and>
     region_prot b (pages os (alignedSize md)) None m \<and> region_prot b (pages os (alignedSize md)) (Some 3) m' \<and>
     same_outside b (pages os (alignedSize md)) m m' \<and>
     peek m' b (unat (mod_Size md)) = initialBytes md m"

abbreviation (input) mapBlock :: "os \<Rightarrow> tls_module \<Rightarrow> (memory, mmap_error, u64) st" where
  "mapBlock os md \<equiv> Map os 0 (alignedSize md) (ProtRead OR ProtWrite) (MapPrivate OR MapAnonymous) (- 1) 0"

lemma AllocateBlock_fresh:
  assumes os: "os_ok os file" and tm: "template_ok md m"
  shows "case mapBlock os md m of
      (Ok b, m1) \<Rightarrow> \<exists>m'. AllocateBlock os (Some md) m = (Ok \<lparr>blk_Addr = b, blk_Module = md\<rparr>, m') \<and> fresh_block os md m b m'
    | (Err e, m1) \<Rightarrow> AllocateBlock os (Some md) m = (Err (BlockMmap e), m)
    | _ \<Rightarrow> False"
proof -
  let ?P = "pages os (alignedSize md)" and ?fs = "unat (mod_FileSize md)"
  obtain q m1 where map: "Map os 0 (alignedSize md) (ProtRead OR ProtWrite) (MapPrivate OR MapAnonymous) (- 1) 0 m = (q, m1)"
    by fastforce
  have mm: "mmap_ok os file" and pg: "pagesize_ok os" using os by (simp_all add: os_ok_def)
  from mm map show ?thesis
  proof (cases rule: Map_cases)
    case (mapped b)
    have b: "b \<noteq> 0" "region_prot b ?P None m" and z: "\<forall>x. in_region b ?P x \<longrightarrow> mbytes m1 x = 0"
      using mapped(7,8) by simp_all
    have rp: "region_prot b ?P (Some 3) m1" using mapped(6) by simp
    have P: "?P \<le> 18446744073709551616" using mapped(4) by simp
    have n: "unat (mod_Size md) \<le> ?P"
      using alignedSize_ge[OF tm] pages_ge[OF pg, of "alignedSize md"] by simp
    obtain m2 where m2: "bindS (copyInitData md b) (\<lambda>_. zeroRest md b) m1 = (Ok (), m2)"
        "same_outside b ?P m1 m2" "mprot m2 = mprot m1"
        "peek m2 b (unat (mod_Size md)) = filled md b m1 @ replicate (unat (mod_Size md) - ?fs) 0"
      using fill_block[OF tm b(1) mapped(4) n rp b(2) mapped(5)] by blast
    obtain m3 where "copyInitData md b m1 = (Ok (), m3)" "zeroRest md b m3 = (Ok (), m2)"
      using m2(1) by (auto simp: bindS_eq_Ok)
    then have call: "AllocateBlock os (Some md) m = (Ok \<lparr>blk_Addr = b, blk_Module = md\<rparr>, m2)"
      using map mapped(1) by (simp add: AllocateBlock_def bindS_def mapErrS_def retS_def)
    have le: "?fs \<le> unat (mod_Size md)"
      using tm by (auto simp: template_ok_def word_le_nat_alt)
    have "filled md b m1 @ replicate (unat (mod_Size md) - ?fs) 0 = initialBytes md m"
    proof (cases "mod_FileSize md > 0 \<and> mod_InitData md \<noteq> 0")
      case True
      then have "all_readable m (mod_InitData md) ?fs" using tm by (simp add: template_ok_def)
      then have "peek m1 (mod_InitData md) ?fs = peek m (mod_InitData md) ?fs"
        using readable_not_new[OF b(2)] mapped(5)
        by (intro peek_cong) (auto simp: all_readable_iff same_outside_def)
      with True show ?thesis by (simp add: filled_def initialBytes_def)
    next
      case False
      have "peek m1 b ?fs = replicate ?fs 0"
        using z in_region_offset[of _ ?P b] P le n by (intro nth_equalityI) (auto simp: peek_def)
      with False show ?thesis unfolding filled_def initialBytes_def by (simp only: if_not_P if_False)
    qed
    moreover have "region_prot b ?P (Some 3) m2" using rp m2(3) by (simp add: region_prot_def)
    ultimately have "fresh_block os md m b m2"
      unfolding fresh_block_def using b mapped(3,4) m2(4) same_outside_trans[OF mapped(5) m2(2)] by simp
    with call map mapped(1) show ?thesis by simp
  next
    case (failed e)
    then show ?thesis using map by (simp add: AllocateBlock_def bindS_def mapErrS_def)
  qed
qed

section \<open>Properties of a block\<close>

text \<open>
  C29: TLS blocks are right. For a template with a power-of-two alignment and no more file data than
  memory, \<open>AllocateBlock\<close> either reports the kernel's refusal and changes nothing, or gives a page-aligned,
  writable block in fresh memory that holds the initial data followed by zeros, and changes no other
  memory. It never panics.
\<close>

theorem AllocateBlock_correct:
  assumes "os_ok os file" and "template_ok md m"
  shows "case mapBlock os md m of
      (Ok b, m1) \<Rightarrow> \<exists>m'. AllocateBlock os (Some md) m = (Ok \<lparr>blk_Addr = b, blk_Module = md\<rparr>, m') \<and>
        b \<noteq> 0 \<and> unat (os_pagesize os) dvd unat b \<and>
        region_prot b (pages os (alignedSize md)) None m \<and> region_prot b (pages os (alignedSize md)) (Some 3) m' \<and>
        same_outside b (pages os (alignedSize md)) m m' \<and>
        peek m' b (unat (mod_Size md)) = initialBytes md m
    | (Err e, m1) \<Rightarrow> AllocateBlock os (Some md) m = (Err (BlockMmap e), m)
    | _ \<Rightarrow> False"
  using AllocateBlock_fresh[OF assms] by (auto simp: fresh_block_def split: result.splits)

text \<open>
  A template of eight bytes, three of them initialised from memory at 0x1000, and at 0x1010 a \<open>TLSIndex\<close>
  of module 1, offset 2.
\<close>

definition demoTlsBytes :: bytes where
  "demoTlsBytes = [7, 8, 9] @ replicate 13 0 @ le_enc 8 (unat (1 :: u64)) @ le_enc 8 (unat (2 :: u64))"

definition demoTlsMem :: memory where
  "demoTlsMem = \<lparr>mbytes = store (\<lambda>_. 0) 0x1000 demoTlsBytes,
                 mprot = (\<lambda>x. if in_region 0x1000 4096 x then Some 1 else None)\<rparr>"

definition demoModule :: tls_module where
  "demoModule = \<lparr>mod_ID = 1, mod_Size = 8, mod_Align = 8, mod_FileSize = 3, mod_InitData = 0x1000\<rparr>"

lemma demoModule_ok: "template_ok demoModule demoTlsMem"
  by (auto simp: template_ok_def demoModule_def demoTlsMem_def upt_conv_Cons all_readable_iff readable_def
      in_region_def unat_of_nat64)

lemma demoTls_holds: "holds demoTlsMem 0x1000 demoTlsBytes"
proof -
  have "length demoTlsBytes = 32" by (simp add: demoTlsBytes_def)
  then have "holds (demoTlsMem\<lparr>mbytes := store (\<lambda>_. 0) 0x1000 demoTlsBytes\<rparr>) 0x1000 demoTlsBytes"
    by (intro holds_store) (auto simp: all_readable_iff readable_def demoTlsMem_def in_region_def unat_of_nat64)
  then show ?thesis by (simp add: demoTlsMem_def)
qed

lemma demoTls_initial: "initialBytes demoModule demoTlsMem = [7, 8, 9, 0, 0, 0, 0, 0]"
proof -
  have "peek demoTlsMem 0x1000 3 = [7, 8, 9]"
    using holds_take[OF demoTls_holds, of 3] by (simp add: holds_def demoTlsBytes_def numeral_3_eq_3)
  then show ?thesis by (simp add: initialBytes_def demoModule_def) (simp add: numeral_eq_Suc)
qed

lemma demo_freeAt: "n \<le> 8192 \<Longrightarrow> freeAt demoTlsMem 0x100000 n"
  by (auto simp: freeAt_def list_all_iff demoTlsMem_def in_region_interval unat_add_no_wrap unat_of_nat64)

lemma demo_map: "mapBlock (demoOs []) demoModule demoTlsMem =
    (Ok 0x100000, mapRegion 0x100000 4096 (Some 3) (\<lambda>_. 0) demoTlsMem)"
proof -
  have n: "pages4096 (alignedSize demoModule) = 4096"
    by (simp add: alignedSize_def demoModule_def pages4096_def)
  have "alignedSize demoModule \<noteq> 0" by (simp add: alignedSize_def demoModule_def)
  then show ?thesis
    using demo_freeAt[of 4096] by (simp add: Map_def mapErrS_def demoMmap_def n Let_def)
qed

theorem AllocateBlock_correct_witness:
  "\<exists>m'. AllocateBlock (demoOs []) (Some demoModule) demoTlsMem = (Ok \<lparr>blk_Addr = 0x100000, blk_Module = demoModule\<rparr>, m') \<and>
     peek m' 0x100000 8 = [7, 8, 9, 0, 0, 0, 0, 0]"
proof -
  have "unat (mod_Size demoModule) = 8" by (simp add: demoModule_def)
  then show ?thesis
    using demoTls_initial AllocateBlock_correct[OF demoOs_ok demoModule_ok, of "[]"] demo_map by auto
qed

text \<open>
  Nothing checks a TLS template's file size against its memory size. With more initial data than the
  block's pages hold, the copy runs over the end of the new mapping, and faults where the next page is
  not writable.
\<close>

theorem oversized_template_faults:
  assumes "os_ok os file" and "mapBlock os md m = (Ok b, m1)"
    and "mod_InitData md \<noteq> 0" and "pages os (alignedSize md) < unat (mod_FileSize md)"
    and "unat (mod_FileSize md) < 2 ^ 63"
    and "unat (mod_InitData md) + unat (mod_FileSize md) \<le> 2 ^ 64" and "unat b + unat (mod_FileSize md) \<le> 2 ^ 64"
    and "b \<noteq> 0" and "all_readable m1 (mod_InitData md) (unat (mod_FileSize md))"
    and "\<not> writable m1 (b + of_nat (pages os (alignedSize md)))"
  shows "AllocateBlock os (Some md) m = (Panic (SegFault (b + of_nat (pages os (alignedSize md)))), m1)"
proof -
  let ?P = "pages os (alignedSize md)" and ?fs = "unat (mod_FileSize md)"
  have mm: "mmap_ok os file" using assms(1) by (simp add: os_ok_def)
  have rp: "region_prot b ?P (Some 3) m1" and P: "?P \<le> 18446744073709551616"
    using mm assms(2) by (auto elim!: Map_cases)
  have w: "writable m1 (b + of_nat i)" if "i < ?P" for i
    using region_writable[OF rp, of i 1] that P by (simp add: all_writable_iff)
  have "find (\<lambda>i. \<not> writable m1 (b + of_nat i)) [0..<?fs] = Some ?P"
    using assms(4,10) w by (auto simp: find_Some_iff)
  then have st: "storeS (\<lambda>m. wr_bytes m b (peek m1 (mod_InitData md) ?fs)) m1 =
      ((Panic (SegFault (b + of_nat ?P)) :: (tls_error, unit) result), m1)"
    by (simp add: storeS_def wr_bytes_def)
  have sl: "unsafeSlice a (mod_FileSize md) 1 = Ok (a, mod_FileSize md)"
    if "a \<noteq> 0" "unat a + ?fs \<le> 2 ^ 64" for a
    using that assms(5) by (simp add: unsafeSlice_def not_le le_diff_conv2 unat_bound64 less_imp_le)
  have "0 < mod_FileSize md" using assms(4) by (auto simp: word_gt_0)
  then have "copyInitData md b m1 = (Panic (SegFault (b + of_nat ?P)), m1)"
    using assms(3,6,7,8) by (simp add: copyInitData_def bindS_def liftS_def sl copyBytes_def loadS_def
        assms(9) st del: One_nat_def)
  then show ?thesis
    using assms(2) by (simp add: AllocateBlock_def bindS_def mapErrS_def)
qed

theorem oversized_template_faults_witness:
  "AllocateBlock (demoOs []) (Some (demoModule\<lparr>mod_FileSize := 4097\<rparr>))
     \<lparr>mbytes = (\<lambda>_. 0), mprot = (\<lambda>x. if in_region 0x1000 8192 x then Some 1 else None)\<rparr> =
   (Panic (SegFault 0x101000),
    mapRegion 0x100000 4096 (Some 3) (\<lambda>_. 0)
      \<lparr>mbytes = (\<lambda>_. 0), mprot = (\<lambda>x. if in_region 0x1000 8192 x then Some 1 else None)\<rparr>)"
proof -
  let ?md = "demoModule\<lparr>mod_FileSize := 4097\<rparr>"
  let ?m = "\<lparr>mbytes = (\<lambda>_. 0), mprot = (\<lambda>x. if in_region 0x1000 8192 x then Some 1 else None)\<rparr>"
  have n: "pages4096 (alignedSize ?md) = 4096" "alignedSize ?md \<noteq> 0"
    by (simp_all add: alignedSize_def demoModule_def pages4096_def)
  have "freeAt ?m 0x100000 4096"
    by (auto simp: freeAt_def list_all_iff in_region_interval unat_add_no_wrap unat_of_nat64)
  then have map: "mapBlock (demoOs []) ?md ?m = (Ok 0x100000, mapRegion 0x100000 4096 (Some 3) (\<lambda>_. 0) ?m)"
    using n by (simp add: Map_def mapErrS_def demoMmap_def Let_def)
  have r: "all_readable (mapRegion 0x100000 4096 (Some 3) (\<lambda>_. 0) ?m) (mod_InitData ?md) (unat (mod_FileSize ?md))"
    by (auto simp: all_readable_iff readable_def mapRegion_def in_region_interval demoModule_def unat_add_no_wrap
        unat_of_nat64)
  show ?thesis
    using oversized_template_faults[OF demoOs_ok map _ _ _ _ _ _ r] n
    by (simp add: demoModule_def writable_def mapRegion_def in_region_def)
qed

section \<open>The state machine of the package\<close>

text \<open>
  The registry: identifiers are positions, counted from 1, and bounded; blocks belong to registered
  modules; the blocks of different threads or modules are disjoint writable mappings.
\<close>

definition registry_ok :: "world \<Rightarrow> bool" where
  "registry_ok w \<longleftrightarrow>
     length (w_modules w) < 65536 \<and> w_nextID w = of_nat (length (w_modules w) + 1) \<and>
     (\<forall>i < length (w_modules w). mod_ID (w_modules w ! i) = of_nat (i + 1) \<and>
        0 < mod_Align (w_modules w ! i) \<and> mod_Align (w_modules w ! i) \<le> 4096)"

lemma registry_ok_init: "registry_ok (initialWorld m)"
  by (simp add: registry_ok_def initialWorld_def)

lemma registry_ok_cong:
  "w_modules w' = w_modules w \<Longrightarrow> w_nextID w' = w_nextID w \<Longrightarrow> registry_ok w' = registry_ok w"
  by (simp add: registry_ok_def)

lemma RegisterModule_keeps: "keeps registry_ok (RegisterModule sz align fileSize initData)"
  unfolding keeps_def
proof (intro allI impI)
  fix w
  assume ok: "registry_ok w"
  show "registry_ok (snd (RegisterModule sz align fileSize initData w))"
  proof (cases "w_nextID w \<ge> maxModuleID \<or> (if align = 0 then 1 else align) > 4096")
    case True
    with ok show ?thesis by (auto simp: RegisterModule_def Let_def)
  next
    case False
    let ?n = "length (w_modules w)"
    have n: "?n < 65536" "w_nextID w = of_nat (?n + 1)" using ok by (simp_all add: registry_ok_def)
    then have "unat (w_nextID w) = ?n + 1" by (simp only:) (rule unat_of_nat64, simp)
    moreover have "unat (w_nextID w) < 65536" using False by (simp add: word_le_nat_alt not_le)
    ultimately have "?n + 1 < 65536" by simp
    with False ok n show ?thesis
      by (auto simp: RegisterModule_def Let_def registry_ok_def nth_append less_Suc_eq word_gt_0 add.commute)
  qed
qed

lemma onMem_modules: "onMem f w = (r, w') \<Longrightarrow> w_modules w' = w_modules w \<and> w_nextID w' = w_nextID w \<and> w_blocks w' = w_blocks w"
  by (auto simp: onMem_def split: prod.splits)

definition block_of :: "world \<Rightarrow> u64 \<Rightarrow> u64 \<Rightarrow> tls_block \<Rightarrow> bool" where
  "block_of w tid i b \<longleftrightarrow> (case w_blocks w tid of None \<Rightarrow> False | Some f \<Rightarrow> f i = Some b)"

definition in_block :: "os \<Rightarrow> tls_block \<Rightarrow> u64 \<Rightarrow> bool" where
  "in_block os b x \<longleftrightarrow> in_region (blk_Addr b) (pages os (alignedSize (blk_Module b))) x"

definition block_ok :: "os \<Rightarrow> world \<Rightarrow> tls_block \<Rightarrow> bool" where
  "block_ok os w b \<longleftrightarrow> blk_Addr b \<noteq> 0 \<and> blk_Module b \<in> set (w_modules w) \<and>
     (\<forall>x. in_block os b x \<longrightarrow> mprot (w_mem w) x = Some 3)"

definition blocks_ok :: "os \<Rightarrow> world \<Rightarrow> bool" where
  "blocks_ok os w \<longleftrightarrow>
     (\<forall>tid i b. block_of w tid i b \<longrightarrow> block_ok os w b) \<and>
     (\<forall>tid i b tid' i' b' x. block_of w tid i b \<longrightarrow> block_of w tid' i' b' \<longrightarrow> (tid, i) \<noteq> (tid', i') \<longrightarrow>
        \<not> (in_block os b x \<and> in_block os b' x))"

lemma blocks_okD:
  assumes "blocks_ok os w"
  shows "block_of w tid i b \<Longrightarrow> block_ok os w b"
    and "block_of w tid i b \<Longrightarrow> block_of w tid' i' b' \<Longrightarrow> (tid, i) \<noteq> (tid', i') \<Longrightarrow> in_block os b x \<Longrightarrow> \<not> in_block os b' x"
  using assms unfolding blocks_ok_def by blast+

lemma blocks_okI:
  assumes "\<And>tid i b. block_of w tid i b \<Longrightarrow> block_ok os w b"
    and "\<And>tid i b tid' i' b' x. block_of w tid i b \<Longrightarrow> block_of w tid' i' b' \<Longrightarrow> (tid, i) \<noteq> (tid', i') \<Longrightarrow>
      in_block os b x \<Longrightarrow> in_block os b' x \<Longrightarrow> False"
  shows "blocks_ok os w"
  unfolding blocks_ok_def using assms by blast

text \<open>Changes of memory that leave the blocks' mappings alone keep the invariant.\<close>

lemma blocks_ok_mem:
  assumes ok: "blocks_ok os w" and mods: "set (w_modules w) \<subseteq> set (w_modules w')"
    and sub: "\<And>tid i b. block_of w' tid i b \<Longrightarrow> block_of w tid i b"
    and prot: "\<And>tid i b x. block_of w' tid i b \<Longrightarrow> in_block os b x \<Longrightarrow> mprot (w_mem w') x = mprot (w_mem w) x"
  shows "blocks_ok os w'"
proof (rule blocks_okI)
  fix tid i b
  assume b: "block_of w' tid i b"
  from blocks_okD(1)[OF ok sub[OF b]] prot[OF b] mods show "block_ok os w' b"
    by (auto simp: block_ok_def)
next
  fix tid i b tid' i' b' x
  assume "block_of w' tid i b" "block_of w' tid' i' b'" "(tid, i) \<noteq> (tid', i')" "in_block os b x" "in_block os b' x"
  with blocks_okD(2)[OF ok sub sub] show False by blast
qed

lemma storeS_prot: "keeps (\<lambda>m. mprot m = p) (storeS (\<lambda>m. wr_bytes m a bs))"
  by (auto simp: keeps_def storeS_def wr_bytes_def split: option.splits)

lemma loadS_keeps: "keeps P (loadS f)"
  by (simp add: keeps_def loadS_def)

lemma copyInitData_prot: "keeps (\<lambda>m. mprot m = p) (copyInitData md b)"
  unfolding copyInitData_def copyBytes_def Let_def
  by (intro keeps_intros storeS_prot loadS_keeps)

lemma zeroRest_prot: "keeps (\<lambda>m. mprot m = p) (zeroRest md b)"
  unfolding zeroRest_def Let_def
  by (intro keeps_intros storeS_prot)

text \<open>Whatever the template, an allocation leaves every existing mapping as it is.\<close>

lemma AllocateBlock_prot:
  assumes mm: "mmap_ok os file" and call: "AllocateBlock os (Some md) m = (r, m')"
  shows "(\<forall>x. mprot m x \<noteq> None \<longrightarrow> mprot m' x = mprot m x) \<and>
    (\<forall>b. r = Ok b \<longrightarrow> blk_Addr b \<noteq> 0 \<and> blk_Module b = md \<and>
       (\<forall>x. in_block os b x \<longrightarrow> mprot m x = None \<and> mprot m' x = Some 3))"
proof -
  obtain q m1 where map: "mapBlock os md m = (q, m1)" by fastforce
  let ?fill = "\<lambda>b. bindS (copyInitData md b) (\<lambda>_. bindS (zeroRest md b) (\<lambda>_. retS \<lparr>blk_Addr = b, blk_Module = md\<rparr>))"
  have fill: "mprot m2 = mprot m1 \<and> (\<forall>blk. r2 = Ok blk \<longrightarrow> blk = \<lparr>blk_Addr = b, blk_Module = md\<rparr>)"
    if "?fill b m1 = (r2, m2)" for b r2 m2
  proof
    have "keeps (\<lambda>m. mprot m = mprot m1) (?fill b)"
      by (intro keeps_intros copyInitData_prot zeroRest_prot)
    from keepsD[OF this refl that] show "mprot m2 = mprot m1" .
    show "\<forall>blk. r2 = Ok blk \<longrightarrow> blk = \<lparr>blk_Addr = b, blk_Module = md\<rparr>"
      using that by (auto simp: st_Ok)
  qed
  from mm map show ?thesis
  proof (cases rule: Map_cases)
    case (mapped b)
    have run: "?fill b m1 = (r, m')"
      using call map mapped(1) by (simp add: AllocateBlock_def bindS_def mapErrS_def)
    have "mprot m1 x = mprot m x" if "mprot m x \<noteq> None" for x
      using mapped(5,7) that by (auto simp: same_outside_def region_prot_def)
    moreover have "mprot m x = None \<and> mprot m1 x = Some 3" if "in_region b (pages os (alignedSize md)) x" for x
      using mapped(6,7) that by (simp add: region_prot_def)
    moreover have "b \<noteq> 0" using mapped(7) by simp
    ultimately show ?thesis using fill[OF run] by (auto simp: in_block_def)
  next
    case (failed e)
    then show ?thesis using call map by (auto simp: AllocateBlock_def bindS_def mapErrS_def)
  qed
qed

lemma RegisterModule_blocks: "keeps (blocks_ok os) (RegisterModule sz align fileSize initData)"
  unfolding keeps_def
proof (intro allI impI)
  fix w
  assume ok: "blocks_ok os w"
  let ?w' = "snd (RegisterModule sz align fileSize initData w)"
  have "w_mem ?w' = w_mem w" "w_blocks ?w' = w_blocks w" "set (w_modules w) \<subseteq> set (w_modules ?w')"
    by (auto simp: RegisterModule_def Let_def)
  then show "blocks_ok os ?w'"
    by (intro blocks_ok_mem[OF ok]) (simp_all add: block_of_def)
qed

text \<open>The memory a thread's blocks leave when they are freed.\<close>

lemma Free_cases:
  assumes mu: "munmap_ok os" and f: "Free os b m = (q, b', m1)"
  shows "(q = Ok () \<or> (\<exists>e. q = Err e)) \<and> (\<forall>x. \<not> in_block os b x \<longrightarrow> mprot m1 x = mprot m x)"
proof (cases "blk_Addr b = 0")
  case True
  with f show ?thesis by (simp add: Free_def)
next
  case False
  with f have "Unmap os (blk_Addr b) (alignedSize (blk_Module b)) m = (q, m1)"
    by (auto simp: Free_def split: prod.splits)
  from mu this show ?thesis
    by (cases rule: Unmap_cases) (auto simp: same_outside_def in_block_def)
qed

lemma freeBlocks_prot:
  assumes mu: "munmap_ok os" and "freeBlocks os bs e m = (r, m')"
  shows "returns r \<and> (\<forall>x. (\<forall>b\<in>set bs. \<not> in_block os b x) \<longrightarrow> mprot m' x = mprot m x)"
  using assms(2)
proof (induction bs arbitrary: e m)
  case Nil
  then show ?case by (auto split: option.splits)
next
  case (Cons b bs)
  obtain q b' m1 where f: "Free os b m = (q, b', m1)" by (cases "Free os b m") auto
  note q = Free_cases[OF mu f]
  then obtain e' where "freeBlocks os bs e' m1 = (r, m')"
    using Cons.prems(1) f by auto
  from Cons.IH[OF this] q show ?case by auto
qed

lemma CleanupThread_blocks:
  assumes os: "munmap_ok os" and ok: "blocks_ok os w"
    and call: "CleanupThread os order tid w = (r, w')"
  shows "blocks_ok os w' \<and> returns r \<and> w_blocks w' tid = None"
proof (cases "w_blocks w tid")
  case None
  with call ok show ?thesis by (auto simp: CleanupThread_def)
next
  case (Some f)
  obtain q m where fr: "freeBlocks os (List.map_filter f order) None (w_mem w) = (q, m)" by fastforce
  have bs: "\<exists>i. block_of w tid i b" if "b \<in> set (List.map_filter f order)" for b
    using that Some by (auto simp: map_filter_def block_of_def)
  have ret: "returns q"
    using freeBlocks_prot[OF os fr] by simp
  have w': "w' = w\<lparr>w_mem := m, w_blocks := (w_blocks w)(tid := None)\<rparr>" "r = q"
    using call Some fr ret by (auto simp: CleanupThread_def)
  have "blocks_ok os w'"
  proof (rule blocks_ok_mem[OF ok])
    fix tid' i b x
    assume b: "block_of w' tid' i b" and x: "in_block os b x"
    then have tid': "tid' \<noteq> tid" and old: "block_of w tid' i b"
      by (auto simp: w' block_of_def split: if_splits)
    have "\<not> in_block os b' x" if "b' \<in> set (List.map_filter f order)" for b'
      using bs[OF that] blocks_okD(2)[OF ok old _ _ x] tid' by blast
    with freeBlocks_prot[OF os fr] show "mprot (w_mem w') x = mprot (w_mem w) x"
      by (simp add: w')
  qed (auto simp: w' block_of_def split: if_splits)
  with w' ret show ?thesis by simp
qed

lemma block_of_threadMap [simp]: "block_of (threadMap tid w) t i b = block_of w t i b"
  by (auto simp: threadMap_def block_of_def split: option.splits)

lemma threadMap_simps [simp]:
  "w_mem (threadMap tid w) = w_mem w" "w_modules (threadMap tid w) = w_modules w" "w_nextID (threadMap tid w) = w_nextID w"
  by (auto simp: threadMap_def split: option.splits)

lemma block_of_the: "block_of w tid i b \<longleftrightarrow> the (w_blocks (threadMap tid w) tid) i = Some b"
  by (auto simp: threadMap_def block_of_def split: option.splits)

lemma block_of_putBlock:
  "block_of (putBlock tid i b w) t j c \<longleftrightarrow> (if (t, j) = (tid, i) then c = b else block_of w t j c)"
  by (auto simp: block_of_def putBlock_def split: option.splits)

lemma putBlock_simps [simp]:
  "w_mem (putBlock tid i b w) = w_mem w" "w_modules (putBlock tid i b w) = w_modules w"
  "w_nextID (putBlock tid i b w) = w_nextID w"
  by (simp_all add: putBlock_def)

lemma loadWord_run: "loadWord a w = (rd64 (w_mem w) a, w)"
  by (simp add: loadWord_def onMem_def loadS_def)

lemma findModule_in: "findModule w i = Ok (Some md) \<Longrightarrow> md \<in> set (w_modules w)"
  by (auto simp: findModule_def split: if_splits)

text \<open>What the call leaves.\<close>

lemma newBlock_cases:
  assumes "newBlock os tid p i w = (r, w')"
  obtains (unchanged) "w' = w"
    | (failed) md e m where "md \<in> set (w_modules w)" "AllocateBlock os (Some md) (w_mem w) = (e, m)"
        "w' = w\<lparr>w_mem := m\<rparr>"
    | (made) md b m j where "md \<in> set (w_modules w)" "AllocateBlock os (Some md) (w_mem w) = (Ok b, m)"
        "w' = putBlock tid j b (w\<lparr>w_mem := m\<rparr>)"
proof (cases "\<exists>md. findModule w i = (Ok (Some md) :: (unit, tls_module option) result)")
  case False
  then have "w' = w"
    using assms by (auto simp: newBlock_def split: result.splits option.splits)
  then show thesis by (rule unchanged)
next
  case True
  then obtain md where md: "findModule w i = (Ok (Some md) :: (unit, tls_module option) result)" by blast
  obtain e m where call: "AllocateBlock os (Some md) (w_mem w) = (e, m)" by fastforce
  show thesis
  proof (cases "\<exists>b j. e = Ok b \<and> rd64 m p = (Ok j :: (unit, u64) result)")
    case True
    then obtain b j where e: "e = Ok b" and j: "rd64 m p = (Ok j :: (unit, u64) result)" by blast
    then have "w' = putBlock tid j b (w\<lparr>w_mem := m\<rparr>)"
      using assms md call by (simp add: newBlock_def onMem_def bindS_def loadWord_run retS_def split: result.splits)
    with made[OF findModule_in[OF md]] call e show thesis by blast
  next
    case False
    then have "w' = w\<lparr>w_mem := m\<rparr>"
      using assms md call
      by (cases e) (auto simp: newBlock_def onMem_def bindS_def loadWord_run split: result.splits)
    with failed[OF findModule_in[OF md]] call show thesis by blast
  qed
qed

lemma GetTLSAddr_cases:
  assumes "GetTLSAddr os tid p w0 = (r, w')"
  obtains (unchanged) "w' = threadMap tid w0"
    | (failed) md e m where "md \<in> set (w_modules w0)" "AllocateBlock os (Some md) (w_mem w0) = (e, m)"
        "w' = (threadMap tid w0)\<lparr>w_mem := m\<rparr>"
    | (made) md b m j where "md \<in> set (w_modules w0)" "AllocateBlock os (Some md) (w_mem w0) = (Ok b, m)"
        "w' = putBlock tid j b ((threadMap tid w0)\<lparr>w_mem := m\<rparr>)"
proof (cases "\<exists>i. newBlock os tid p i (threadMap tid w0) = (r, w')")
  case True
  then show thesis using unchanged failed made by (auto elim!: newBlock_cases)
next
  case False
  then have "w' = threadMap tid w0"
    using assms by (auto simp: GetTLSAddr_def bindS_def loadWord_run retS_def split: result.splits option.splits)
  then show thesis by (rule unchanged)
qed

lemma GetTLSAddr_blocks:
  assumes mm: "mmap_ok os file" and ok: "blocks_ok os w" and call: "GetTLSAddr os tid p w = (r, w')"
  shows "blocks_ok os w' \<and> w_modules w' = w_modules w \<and> w_nextID w' = w_nextID w"
  using call
proof (cases rule: GetTLSAddr_cases)
  case unchanged
  then show ?thesis using blocks_ok_mem[OF ok, of w'] by simp
next
  case (failed md e m)
  have old: "mprot m x = mprot (w_mem w) x" if "block_of w t i c" "in_block os c x" for t i c x
    using AllocateBlock_prot[OF mm failed(2)] blocks_okD(1)[OF ok that(1)] that(2) by (auto simp: block_ok_def)
  then have "blocks_ok os w'"
    by (intro blocks_ok_mem[OF ok]) (auto simp: failed(3) block_of_def[of "_\<lparr>w_mem := m\<rparr>"] block_of_def[symmetric])
  with failed(3) show ?thesis by simp
next
  case (made md b m j)
  have old: "mprot m x = mprot (w_mem w) x \<and> mprot (w_mem w) x \<noteq> None"
    if "block_of w t i c" "in_block os c x" for t i c x
    using AllocateBlock_prot[OF mm made(2)] blocks_okD(1)[OF ok that(1)] that(2) by (auto simp: block_ok_def)
  have new: "blk_Addr b \<noteq> 0" "blk_Module b = md" "\<And>x. in_block os b x \<Longrightarrow> mprot (w_mem w) x = None \<and> mprot m x = Some 3"
    using AllocateBlock_prot[OF mm made(2)] by simp_all
  have who: "block_of w' t i c \<longleftrightarrow> (if (t, i) = (tid, j) then c = b else block_of w t i c)" for t i c
    unfolding made(3) block_of_putBlock by (simp add: block_of_def[of "_\<lparr>w_mem := m\<rparr>"] block_of_def[symmetric])
  have "blocks_ok os w'"
  proof (rule blocks_okI)
    fix t i c
    assume c: "block_of w' t i c"
    show "block_ok os w' c"
    proof (cases "(t, i) = (tid, j)")
      case True
      with c who new made(1) show ?thesis by (simp add: block_ok_def made(3))
    next
      case False
      with c who have "block_of w t i c" by simp
      with blocks_okD(1)[OF ok this] old show ?thesis by (auto simp: block_ok_def made(3))
    qed
  next
    fix t i c t' i' c' x
    have clash: False if "block_of w t i c" "in_block os c x" "in_block os b x" for t i c
      using old[OF that(1,2)] new(3)[OF that(3)] by simp
    assume "block_of w' t i c" "block_of w' t' i' c'" "(t, i) \<noteq> (t', i')" "in_block os c x" "in_block os c' x"
    then show False
      using blocks_okD(2)[OF ok, of t i c t' i' c' x] clash[of t i c] clash[of t' i' c'] unfolding who
      by (cases "(t, i) = (tid, j)"; cases "(t', i') = (tid, j)") simp_all
  qed
  with made(3) show ?thesis by simp
qed

text \<open>
  The life of a process as far as TLS is concerned: modules are registered, threads ask for addresses and
  exit, and between these the program uses its memory in any way that does not touch the protection of
  the blocks.
\<close>

inductive tls_step :: "os \<Rightarrow> world \<Rightarrow> world \<Rightarrow> bool" for os where
  register: "RegisterModule sz align fileSize initData w = (r, w') \<Longrightarrow> tls_step os w w'"
| get_addr: "GetTLSAddr os tid p w = (r, w') \<Longrightarrow> tls_step os w w'"
| cleanup: "CleanupThread os order tid w = (r, w') \<Longrightarrow> tls_step os w w'"
| memory: "(\<And>tid i b x. block_of w tid i b \<Longrightarrow> in_block os b x \<Longrightarrow> mprot m x = mprot (w_mem w) x) \<Longrightarrow>
    tls_step os w (w\<lparr>w_mem := m\<rparr>)"

inductive tls_reachable :: "os \<Rightarrow> world \<Rightarrow> bool" for os where
  start: "tls_reachable os (initialWorld m)"
| step: "tls_reachable os w \<Longrightarrow> tls_step os w w' \<Longrightarrow> tls_reachable os w'"

lemma CleanupThread_registry: "CleanupThread os order tid w = (r, w') \<Longrightarrow>
    w_modules w' = w_modules w \<and> w_nextID w' = w_nextID w"
  by (auto simp: CleanupThread_def split: option.splits prod.splits)

lemma tls_step_ok:
  assumes "tls_step os w w'" and "mmap_ok os file" "munmap_ok os" and "registry_ok w" "blocks_ok os w"
  shows "registry_ok w' \<and> blocks_ok os w'"
  using assms(1)
proof cases
  case (register sz align fileSize initData r)
  with keepsD[OF RegisterModule_keeps assms(4)] keepsD[OF RegisterModule_blocks assms(5)] show ?thesis by blast
next
  case (get_addr tid p r)
  from GetTLSAddr_blocks[OF assms(2,5) this] assms(4) registry_ok_cong[of w' w] show ?thesis by simp
next
  case (cleanup order tid r)
  from CleanupThread_blocks[OF assms(3,5) this] CleanupThread_registry[OF this] assms(4) registry_ok_cong[of w' w]
  show ?thesis by simp
next
  case (memory m)
  have "blocks_ok os w'"
    by (rule blocks_ok_mem[OF assms(5)]) (auto simp: memory block_of_def)
  with assms(4) registry_ok_cong[of w' w] show ?thesis by (simp add: memory)
qed

lemma tls_reachable_ok:
  assumes "tls_reachable os w" and "mmap_ok os file" "munmap_ok os"
  shows "registry_ok w \<and> blocks_ok os w"
  using assms(1)
proof induction
  case (start m)
  then show ?case by (simp add: registry_ok_init) (simp add: blocks_ok_def block_of_def initialWorld_def)
next
  case (step w w')
  then show ?case using tls_step_ok[OF _ assms(2,3)] by blast
qed

section \<open>Properties of the package\<close>

text \<open>
  C30: threads never share thread-local storage. Whatever sequence of registrations, address requests,
  thread exits and memory use leads to a state, the blocks of different threads, and of different modules
  of a thread, are disjoint mappings that are still readable and writable, each made for a registered
  module; module identifiers are the positions in the table and stay below the limit.
\<close>

theorem tls_threads_isolated:
  assumes "tls_reachable os w" and "os_ok os file"
  shows "(\<forall>tid i b tid' i' b' x. block_of w tid i b \<longrightarrow> block_of w tid' i' b' \<longrightarrow> (tid, i) \<noteq> (tid', i') \<longrightarrow>
      \<not> (in_block os b x \<and> in_block os b' x)) \<and>
    (\<forall>tid i b x. block_of w tid i b \<longrightarrow> blk_Module b \<in> set (w_modules w) \<and>
      (in_block os b x \<longrightarrow> readable (w_mem w) x \<and> writable (w_mem w) x)) \<and>
    length (w_modules w) < 65536 \<and> (\<forall>k < length (w_modules w). mod_ID (w_modules w ! k) = of_nat (k + 1))"
proof -
  have "mmap_ok os file" "munmap_ok os" using assms(2) by (simp_all add: os_ok_def)
  from tls_reachable_ok[OF assms(1) this] have ok: "registry_ok w" "blocks_ok os w" by simp_all
  show ?thesis
    using blocks_okD[OF ok(2)] ok(1)
    by (auto simp: registry_ok_def block_ok_def readable_def writable_def)
qed

theorem tls_threads_isolated_witness:
  "\<exists>w. tls_reachable (demoOs []) w \<and> length (w_modules w) = 1 \<and> mod_ID (w_modules w ! 0) = 1"
proof -
  let ?w = "snd (RegisterModule 8 8 3 0x1000 (initialWorld demoTlsMem))"
  have "tls_reachable (demoOs []) ?w"
    by (rule tls_reachable.step[OF tls_reachable.start], rule tls_step.register, rule prod.collapse[symmetric])
  moreover have "length (w_modules ?w) = 1"
    by (simp add: RegisterModule_def initialWorld_def Let_def word_le_nat_alt)
  ultimately show ?thesis
    using tls_threads_isolated[OF _ demoOs_ok, of "[]" ?w] by (intro exI[of _ ?w]) simp
qed

lemma rd64_kept:
  assumes "same_outside b n m m'" and "region_prot b n None m" and "rd64 m p = Ok v"
  shows "rd64 m' p = Ok v"
proof -
  have r: "all_readable m p 8" and v: "v = le_word (peek m p 8)"
    using assms(3) by (auto simp: rd64_def rd_bytes_Ok_iff)
  then have "\<not> in_region b n (p + of_nat i)" if "i < 8" for i
    using that readable_not_new[OF assms(2)] by (simp add: all_readable_iff)
  then have "all_readable m' p 8" "peek m' p 8 = peek m p 8"
    using assms(1) r by (auto simp: same_outside_def all_readable_iff readable_def intro!: peek_cong)
  with v show ?thesis by (simp add: rd64_def)
qed

text \<open>The word at an address, loaded without a fault.\<close>

abbreviation (input) word_at :: "memory \<Rightarrow> u64 \<Rightarrow> u64 \<Rightarrow> bool" where
  "word_at m p v \<equiv> rd64 m p = (Ok v :: (unit, u64) result)"

lemma GetTLSAddr_cached:
  assumes "block_of w tid i b" and "word_at (w_mem w) p i" and "word_at (w_mem w) (p + 8) off"
  shows "GetTLSAddr os tid p w = (Ok (blk_Addr b + off), w)"
proof -
  have "threadMap tid w = w" "the (w_blocks w tid) i = Some b"
    using assms(1) by (auto simp: block_of_def threadMap_def split: option.splits)
  then show ?thesis by (simp add: GetTLSAddr_def bindS_def loadWord_run assms(2,3) retS_def)
qed

lemma GetTLSAddr_run:
  assumes "os_ok os file" and "registry_ok w" and "0 < unat i" and "unat i \<le> length (w_modules w)"
    and "template_ok (w_modules w ! (unat i - 1)) (w_mem w)"
    and "word_at (w_mem w) p i" and "word_at (w_mem w) (p + 8) off"
  shows "(\<exists>b w'. GetTLSAddr os tid p w = (Ok (blk_Addr b + off), w') \<and> block_of w' tid i b \<and>
      (block_of w tid i b \<and> w' = w \<or>
       (\<forall>c. \<not> block_of w tid i c) \<and> blk_Module b = w_modules w ! (unat i - 1) \<and>
       fresh_block os (blk_Module b) (w_mem w) (blk_Addr b) (w_mem w')) \<and>
      (\<forall>q off'. word_at (w_mem w') q i \<and> word_at (w_mem w') (q + 8) off' \<longrightarrow>
         GetTLSAddr os tid q w' = (Ok (blk_Addr b + off'), w'))) \<or>
    (\<exists>w' e m. GetTLSAddr os tid p w = (Ok 0, w') \<and> mapBlock os (w_modules w ! (unat i - 1)) (w_mem w) = (Err e, m))"
proof (cases "\<exists>b. block_of w tid i b")
  case True
  then obtain b where b: "block_of w tid i b" by blast
  with GetTLSAddr_cached[OF b] assms(6,7) show ?thesis by blast
next
  case False
  let ?md = "w_modules w ! (unat i - 1)" and ?t = "threadMap tid w"
  have n: "length (w_modules w) < 65536" using assms(2) by (simp add: registry_ok_def)
  have small: "unat i < 65536" using assms(4) n by simp
  have "sint i = int (unat i)" using small by (intro sint_small) simp
  then have "sint i \<le> int (length (w_modules w))" using assms(4) by (simp only: of_nat_le_iff)
  moreover have "unat (i - 1) = unat i - 1" using assms(3) by (simp add: unat_sub word_le_nat_alt)
  moreover have "unat i - 1 < length (w_modules w)" using assms(3,4) by linarith
  moreover have "0 < i" using assms(3) by (simp add: word_less_nat_alt)
  ultimately have fm: "findModule ?t i = Ok (Some ?md)"
    by (simp add: findModule_def)
  have none: "the (w_blocks ?t tid) i = None"
    using False block_of_the[of w tid i] by (cases "the (w_blocks ?t tid) i") auto
  obtain q m1 where map: "mapBlock os ?md (w_mem w) = (q, m1)" by fastforce
  have start: "GetTLSAddr os tid p w = newBlock os tid p i ?t"
    by (simp add: GetTLSAddr_def bindS_def loadWord_run assms(6) none)
  show ?thesis
  proof (cases "\<exists>b. q = Ok b")
    case True
    then obtain b where q: "q = Ok b" by blast
    then obtain m' where call: "AllocateBlock os (Some ?md) (w_mem w) = (Ok \<lparr>blk_Addr = b, blk_Module = ?md\<rparr>, m')"
        and fresh: "fresh_block os ?md (w_mem w) b m'"
      using AllocateBlock_fresh[OF assms(1,5)] map by auto
    let ?blk = "\<lparr>blk_Addr = b, blk_Module = ?md\<rparr>" and ?w' = "putBlock tid i \<lparr>blk_Addr = b, blk_Module = ?md\<rparr> (?t\<lparr>w_mem := m'\<rparr>)"
    have so: "same_outside b (pages os (alignedSize ?md)) (w_mem w) m'"
      and rp: "region_prot b (pages os (alignedSize ?md)) None (w_mem w)"
      using fresh by (simp_all add: fresh_block_def)
    have "GetTLSAddr os tid p w = (Ok (blk_Addr ?blk + off), ?w')"
      by (simp add: start newBlock_def fm onMem_def call bindS_def loadWord_run retS_def
          rd64_kept[OF so rp assms(6)] rd64_kept[OF so rp assms(7)] del: One_nat_def)
    moreover have "block_of ?w' tid i ?blk" by (simp add: block_of_putBlock)
    moreover have "w_mem ?w' = m'" by simp
    ultimately show ?thesis
      using False fresh GetTLSAddr_cached[of ?w' tid i ?blk] by (intro disjI1 exI[of _ ?blk] exI[of _ ?w']) simp
  next
    case False
    with AllocateBlock_fresh[OF assms(1,5)] map obtain e where q: "q = Err e"
        and call: "AllocateBlock os (Some ?md) (w_mem w) = (Err (BlockMmap e), w_mem w)"
      by (cases q) auto
    have "\<exists>w'. GetTLSAddr os tid p w = (Ok 0, w')"
      by (simp add: start newBlock_def fm onMem_def call del: One_nat_def)
    with map q show ?thesis by blast
  qed
qed



text \<open>
  A module identifier of \<open>2 ^ 63\<close> or more crashes the process: compared as a signed integer it passes
  the bound, and the table is then indexed with it.
\<close>

theorem huge_module_id_panics:
  assumes "registry_ok w" and "2 ^ 63 \<le> unat i" and "w_blocks w tid = None"
    and "word_at (w_mem w) p i"
  shows "fst (GetTLSAddr os tid p w) = Panic IndexOutOfRange"
proof -
  have n: "length (w_modules w) < 65536" using assms(1) by (simp add: registry_ok_def)
  have "sint i < 0" using assms(2) by (intro sint_large) simp
  moreover have "0 < i" using assms(2) by (auto simp: word_gt_0)
  moreover have "\<not> unat (i - 1) < length (w_modules w)"
    using assms(2) n \<open>0 < i\<close> by (simp add: unat_sub word_le_nat_alt word_less_nat_alt)
  ultimately have "findModule (threadMap tid w) i = Panic IndexOutOfRange"
    by (simp add: findModule_def)
  then show ?thesis
    by (simp add: GetTLSAddr_def bindS_def loadWord_run assms(3,4) newBlock_def threadMap_def)
qed

theorem huge_module_id_panics_witness:
  "fst (GetTLSAddr (demoOs []) 1 0x1000
     (initialWorld (demoTlsMem\<lparr>mbytes := store (\<lambda>_. 0) 0x1000 (le_enc 8 (unat (- 1 :: u64)))\<rparr>))) = Panic IndexOutOfRange"
proof -
  let ?m = "demoTlsMem\<lparr>mbytes := store (\<lambda>_. 0) 0x1000 (le_enc 8 (unat (- 1 :: u64)))\<rparr>"
  have "holds ?m 0x1000 (le_enc 8 (unat (- 1 :: u64)))"
    by (rule holds_store) (auto simp: all_readable_iff readable_def demoTlsMem_def in_region_def unat_of_nat64)
  then have r: "word_at (w_mem (initialWorld ?m)) 0x1000 (- 1)"
    by (simp add: initialWorld_def holds_rd64 del: unsigned_minus_1_eq_mask)
  show ?thesis
    by (rule huge_module_id_panics[OF registry_ok_init _ _ r])
      (simp_all add: unat_minus_one_64 initialWorld_def)
qed

end
