(* ===== verification/Loader_Map.thy ===== *)
theory Loader_Map
  imports Elf_Parse Sym_Table Tls
begin

text \<open>
  \<open>loader/loader.go\<close>, first part: the loaded object and the mapping of its \<open>PT_LOAD\<close> segments into the
  reservation. Mapping works on the memory alone, so it is stated on \<open>memory\<close>; the page size is the
  kernel's.
\<close>

unbundle bit_operations_syntax

record segment =
  seg_Addr :: u64
  seg_Size :: u64
  seg_Prot :: i64
  seg_FileOff :: u64
  seg_MemSize :: u64
  seg_FileSize :: u64

record loaded_object =
  Parsed :: parsed_object
  Base :: u64
  Segments :: "segment list"
  Symbols :: symtable
  SymtabAddr :: u64
  SymtabSize :: u64
  StrtabAddr :: u64
  StrtabSize :: u64
  HashAddr :: u64
  GnuHashAddr :: u64
  RelaAddr :: u64
  RelaSize :: u64
  RelaEnt :: u64
  JmpRelAddr :: u64
  JmpRelSize :: u64
  InitAddr :: u64
  FiniAddr :: u64
  InitArray :: u64
  InitArraySz :: u64
  FiniArray :: u64
  FiniArraySz :: u64
  TLSModule :: "tls_module option"
  GOTEntries :: "u32 \<rightharpoonup> u64"
  GOTBase :: u64
  GOTSize :: u64
  GOTPages :: "u64 list"
  RefCount :: i64
  Soname :: string

datatype loader_error =
    ParseFailed elf_error
  | OpenError string
  | ReserveFailed mmap_error
  | MapSegmentFailed u64 mmap_error
  | MapBSSFailed u64 mmap_error
  | MprotectFailed mmap_error
  | DynTagsFailed loader_error
  | InconsistentRela u64
  | InconsistentJmpRel u64
  | SymtabInitFailed loader_error
  | SymtabLoadFailed symbol_error
  | TLSRegistrationFailed tls_error
  | RelocationsFailed loader_error
  | UnalignedRelaTable u64
  | RelocOutOfRange u64
  | UnknownRelocation u32 u64
  | UndefinedSymbol string
  | CopySymbolNotFound string
  | NoTLSSegment string u64
  | TLSSymbolNotFound string string
  | TLSBlockFailed string tls_error
  | GOTSpaceFailed mmap_error
  | GOTPageFailed mmap_error
  | GOTEntryFailed string u64 loader_error
  | UnmapGOTFailed u64 mmap_error
  | UnmapFailed mmap_error

text \<open>The object \<open>createAndMapObject\<close> starts from: every field it does not name has its zero value.\<close>

definition newObject :: "parsed_object \<Rightarrow> u64 \<Rightarrow> loaded_object" where
  "newObject parsed base = \<lparr>Parsed = parsed, Base = base, Segments = [], Symbols = NewTable base,
     SymtabAddr = 0, SymtabSize = 0, StrtabAddr = 0, StrtabSize = 0, HashAddr = 0, GnuHashAddr = 0,
     RelaAddr = 0, RelaSize = 0, RelaEnt = 0, JmpRelAddr = 0, JmpRelSize = 0, InitAddr = 0, FiniAddr = 0,
     InitArray = 0, InitArraySz = 0, FiniArray = 0, FiniArraySz = 0, TLSModule = None,
     GOTEntries = Map.empty, GOTBase = 0, GOTSize = 0, GOTPages = [], RefCount = 1, Soname = []\<rparr>"

section \<open>Mapping\<close>

definition elfProt :: "u32 \<Rightarrow> i64" where
  "elfProt flags =
     (let prot = ProtNone;
          prot = (if flags AND 4 \<noteq> 0 then prot OR ProtRead else prot);
          prot = (if flags AND 2 \<noteq> 0 then prot OR ProtWrite else prot)
      in if flags AND 1 \<noteq> 0 then prot OR ProtExec else prot)"

definition pageDown :: "os \<Rightarrow> u64 \<Rightarrow> u64" where
  "pageDown os v = v AND NOT (os_pagesize os - 1)"

definition pageUp :: "os \<Rightarrow> u64 \<Rightarrow> u64" where
  "pageUp os v = (v + (os_pagesize os - 1)) AND NOT (os_pagesize os - 1)"

definition computeMapProt :: "i64 \<Rightarrow> u64 \<Rightarrow> u64 \<Rightarrow> i64" where
  "computeMapProt prot memsz filesz = (if memsz > filesz then prot OR ProtWrite else prot)"

definition mapFileRegion :: "os \<Rightarrow> u64 \<Rightarrow> u64 \<Rightarrow> i64 \<Rightarrow> i64 \<Rightarrow> u64 \<Rightarrow> (memory, loader_error, unit) st" where
  "mapFileRegion os mapAddr alignedFileSize mapProt fd alignedFileOff =
     (if alignedFileSize = 0 then retS ()
      else bindS (mapErrS (MapSegmentFailed mapAddr)
             (MapFixed os mapAddr alignedFileSize mapProt MapPrivate fd alignedFileOff)) (\<lambda>_. retS ()))"

definition mapBSSTail :: "os \<Rightarrow> u64 \<Rightarrow> u64 \<Rightarrow> u64 \<Rightarrow> i64 \<Rightarrow> (memory, loader_error, unit) st" where
  "mapBSSTail os mapAddr alignedFileSize alignedMemSize mapProt =
     (let tailStart = mapAddr + alignedFileSize;
          tailSize = alignedMemSize - alignedFileSize
      in if tailSize = 0 then retS ()
         else bindS (mapErrS (MapBSSFailed tailStart)
                (MapFixed os tailStart tailSize mapProt (MapPrivate OR MapAnonymous) (- 1) 0)) (\<lambda>_. retS ()))"

definition zeroMem :: "u64 \<Rightarrow> u64 \<Rightarrow> (memory, loader_error, unit) st" where
  "zeroMem addr count =
     bindS (liftS (unsafeSlice addr count 1)) (\<lambda>_. storeS (\<lambda>m. wr_bytes m addr (replicate (unat count) 0)))"

definition zeroBSSPage :: "os \<Rightarrow> u64 \<Rightarrow> prog_header \<Rightarrow> u64 \<Rightarrow> (memory, loader_error, unit) st" where
  "zeroBSSPage os mapAddr ph alignedFileSize =
     (let bssStart = mapAddr + (ph_Vaddr ph - pageDown os (ph_Vaddr ph)) + ph_Filesz ph;
          pageEnd = mapAddr + alignedFileSize
      in if pageEnd > bssStart then zeroMem bssStart (pageEnd - bssStart) else retS ())"

definition mapBSSRegion ::
    "os \<Rightarrow> u64 \<Rightarrow> prog_header \<Rightarrow> u64 \<Rightarrow> u64 \<Rightarrow> i64 \<Rightarrow> i64 \<Rightarrow> (memory, loader_error, unit) st" where
  "mapBSSRegion os mapAddr ph alignedFileSize alignedMemSize prot mapProt =
     (if ph_Memsz ph \<le> ph_Filesz ph then retS ()
      else bindS (mapBSSTail os mapAddr alignedFileSize alignedMemSize mapProt) (\<lambda>_.
           bindS (zeroBSSPage os mapAddr ph alignedFileSize) (\<lambda>_.
             if prot \<noteq> mapProt then mapErrS MprotectFailed (Protect os mapAddr alignedMemSize prot)
             else retS ())))"

definition mapSegment :: "os \<Rightarrow> i64 \<Rightarrow> parsed_object \<Rightarrow> prog_header \<Rightarrow> loaded_object \<Rightarrow> (memory, loader_error, loaded_object) st" where
  "mapSegment os fd parsed ph obj =
     (let alignedVAddr = pageDown os (ph_Vaddr ph);
          alignedFileOff = pageDown os (ph_Off ph);
          leading = ph_Vaddr ph - alignedVAddr;
          alignedFileSize = pageUp os (ph_Filesz ph + leading);
          alignedMemSize = pageUp os (ph_Memsz ph + leading);
          prot = elfProt (ph_Flags ph);
          mapAddr = Base obj + (alignedVAddr - BaseVAddr parsed);
          mapProt = computeMapProt prot (ph_Memsz ph) (ph_Filesz ph)
      in bindS (mapFileRegion os mapAddr alignedFileSize mapProt fd alignedFileOff) (\<lambda>_.
         bindS (mapBSSRegion os mapAddr ph alignedFileSize alignedMemSize prot mapProt) (\<lambda>_.
           retS (obj\<lparr>Segments := Segments obj @
             [\<lparr>seg_Addr = mapAddr, seg_Size = alignedMemSize, seg_Prot = prot, seg_FileOff = alignedFileOff,
               seg_MemSize = ph_Memsz ph, seg_FileSize = ph_Filesz ph\<rparr>]\<rparr>))))"

definition mapSegments :: "os \<Rightarrow> i64 \<Rightarrow> parsed_object \<Rightarrow> loaded_object \<Rightarrow> (memory, loader_error, loaded_object) st" where
  "mapSegments os fd parsed obj = forS (mapSegment os fd parsed) (LoadSegments parsed) obj"

section \<open>Rounding\<close>

lemma os_mask:
  assumes "os_pagesize os = 2 ^ k"
  shows "os_pagesize os - 1 = mask k"
  using assms by (simp add: mask_eq_exp_minus_1)

lemma pageUp_nat:
  assumes "pagesize_ok os" and "unat v + (unat (os_pagesize os) - 1) < 2 ^ 64"
  shows "unat (pageUp os v) = (unat v + (unat (os_pagesize os) - 1)) div unat (os_pagesize os) * unat (os_pagesize os)"
proof -
  obtain k where k: "os_pagesize os = 2 ^ k" "12 \<le> k" "k < 32" using assms(1) by (rule pagesize_okE)
  have p: "unat (os_pagesize os) = 2 ^ k" by (rule unat_pagesize[OF assms(1) k(1,3)])
  have "unat ((v + mask k) AND NOT (mask k)) = (unat v + (2 ^ k - 1)) div 2 ^ k * 2 ^ k"
    using assms(2) k(3) by (intro round_up_word) (simp_all add: p)
  then show ?thesis by (simp add: pageUp_def os_mask[OF k(1)] p)
qed

text \<open>On every kernel, rounding up to its pages meets the contract of \<open>round_up\<close>.\<close>

lemma pageUp_round_up: "pagesize_ok os \<Longrightarrow> round_up (pageUp os) (unat (os_pagesize os))"
  by unfold_locales (simp_all add: pagesize_pos pageUp_nat)

interpretation page4k: round_up "pageUp (demoOs [])" 4096
  using pageUp_round_up[of "demoOs []"] demoOs_ok[of "[]"] by (simp add: os_ok_def)

lemma pageUp_pages:
  assumes "pagesize_ok os" and "unat v + (unat (os_pagesize os) - 1) < 2 ^ 64"
  shows "unat (pageUp os v) = pages os v" and "pages os (pageUp os v) = unat (pageUp os v)"
proof -
  show u: "unat (pageUp os v) = pages os v"
    using pageUp_nat[OF assms] by (simp add: pages_def)
  have p: "0 < unat (os_pagesize os)" by (rule pagesize_pos[OF assms(1)])
  have "unat (os_pagesize os) dvd unat (pageUp os v)" by (simp add: u pages_def)
  then obtain q where q: "unat (pageUp os v) = unat (os_pagesize os) * q" by (rule dvdE)
  have "(unat (os_pagesize os) * q + (unat (os_pagesize os) - 1)) div unat (os_pagesize os) =
      q + (unat (os_pagesize os) - 1) div unat (os_pagesize os)"
    using p by (intro div_mult_self4) simp
  then have "(unat (os_pagesize os) * q + (unat (os_pagesize os) - 1)) div unat (os_pagesize os) = q"
    using p by simp
  then show "pages os (pageUp os v) = unat (pageUp os v)" by (simp add: pages_def q)
qed

lemma unat_pageDown:
  assumes "pagesize_ok os"
  shows "unat (pageDown os v) = unat v div unat (os_pagesize os) * unat (os_pagesize os)"
proof -
  obtain k where k: "os_pagesize os = 2 ^ k" "12 \<le> k" "k < 32" using assms(1) by (rule pagesize_okE)
  show ?thesis
    unfolding pageDown_def os_mask[OF k(1)] unat_and_not_mask unat_pagesize[OF assms(1) k(1,3)] ..
qed

section \<open>The pieces of a segment\<close>

text \<open>Sizes that are whole pages.\<close>

definition paged :: "os \<Rightarrow> u64 \<Rightarrow> bool" where
  "paged os v \<longleftrightarrow> pages os v = unat v"

lemma region_prot_0 [simp]: "region_prot a 0 p m"
  by (simp add: region_prot_def)

lemma mapFileRegion_cases:
  assumes os: "mmap_ok os file" and v: "paged os v" and call: "mapFileRegion os a v p fd off m = (r, m')"
  shows "(\<exists>e. r = Err e \<and> m' = m) \<or>
    r = Ok () \<and> same_outside a (unat v) m m' \<and> region_prot a (unat v) (Some p) m' \<and>
    (\<forall>i < unat v. unat off + i < length (file fd) \<longrightarrow> mbytes m' (a + of_nat i) = file fd ! (unat off + i))"
proof (cases "v = 0")
  case True
  with call show ?thesis by (simp add: mapFileRegion_def retS_def)
next
  case False
  obtain q m1 where map: "Map os a v p (MapPrivate OR MapFixedFlag) fd off m = (q, m1)" by fastforce
  from os map show ?thesis
  proof (cases rule: Map_cases)
    case (mapped b)
    have "b = a" using mapped(7) by simp
    with mapped v False call map show ?thesis
      by (simp add: mapFileRegion_def MapFixed_def bindS_def mapErrS_def retS_def paged_def)
  next
    case (failed e)
    with False call map show ?thesis
      by (auto simp: mapFileRegion_def MapFixed_def bindS_def mapErrS_def)
  qed
qed

lemma mapBSSTail_cases:
  assumes os: "mmap_ok os file" and v: "paged os (w - v)" and call: "mapBSSTail os a v w p m = (r, m')"
  shows "(\<exists>e. r = Err e \<and> m' = m) \<or>
    r = Ok () \<and> same_outside (a + v) (unat (w - v)) m m' \<and> region_prot (a + v) (unat (w - v)) (Some p) m' \<and>
    (\<forall>x. in_region (a + v) (unat (w - v)) x \<longrightarrow> mbytes m' x = 0)"
proof (cases "w - v = 0")
  case True
  with call show ?thesis by (simp add: mapBSSTail_def retS_def)
next
  case False
  obtain q m1 where map: "Map os (a + v) (w - v) p (MapPrivate OR MapAnonymous OR MapFixedFlag) (- 1) 0 m = (q, m1)"
    by fastforce
  from os map show ?thesis
  proof (cases rule: Map_cases)
    case (mapped b)
    have "b = a + v" using mapped(7) by simp
    with mapped v False call map show ?thesis
      by (simp add: mapBSSTail_def MapFixed_def bindS_def mapErrS_def retS_def paged_def Let_def)
  next
    case (failed e)
    with False call map show ?thesis
      by (auto simp: mapBSSTail_def MapFixed_def bindS_def mapErrS_def Let_def)
  qed
qed

text \<open>The rest of the last file page is cleared.\<close>

lemma zeroBSSPage_run:
  assumes rp: "region_prot a (unat v) (Some p) m" and w: "p AND 2 \<noteq> 0"
    and off: "a + (ph_Vaddr ph - pageDown os (ph_Vaddr ph)) + ph_Filesz ph = a + of_nat i"
    and i: "unat a + i < 2 ^ 64" and v: "unat a + unat v < 2 ^ 63" and a: "a \<noteq> 0"
  shows "\<exists>m'. zeroBSSPage os a ph v m = (Ok (), m') \<and> mprot m' = mprot m \<and>
    (\<forall>j < unat v. mbytes m' (a + of_nat j) = (if i \<le> j then 0 else mbytes m (a + of_nat j))) \<and>
    same_outside a (unat v) m m'"
proof -
  let ?s = "a + of_nat i" and ?e = "a + v"
  have us: "unat ?s = unat a + i" using i by (simp add: unat_add_no_wrap unat_of_nat64)
  have ue: "unat ?e = unat a + unat v" using v by (simp add: unat_add_no_wrap)
  show ?thesis
  proof (cases "?e > ?s")
    case False
    then have "unat v \<le> i" using us ue by (simp add: word_less_nat_alt not_less)
    with False show ?thesis by (intro exI[of _ m]) (simp add: zeroBSSPage_def off retS_def)
  next
    case True
    then have lt: "i < unat v" using us ue by (simp add: word_less_nat_alt)
    have "unat (v - of_nat i) = unat v - i"
      using lt v by (subst unat_sub) (simp_all add: word_le_nat_alt unat_of_nat64)
    then have n: "unat (v - of_nat i) = unat v - i" by simp
    let ?z = "replicate (unat v - i) 0 :: bytes"
    let ?m' = "m\<lparr>mbytes := store (mbytes m) ?s ?z\<rparr>"
    have aw: "all_writable m ?s (length ?z)"
      using region_writable[OF rp w, of i "unat v - i"] lt unat_bound64[of v] by simp
    have sl: "unsafeSlice ?s (v - of_nat i) 1 = (Ok (?s, v - of_nat i) :: (loader_error, u64 \<times> u64) result)"
      using us v a n lt by (auto simp: unsafeSlice_def word_unat_eq_iff[of _ 0])
    have "zeroBSSPage os a ph v m = (Ok (), ?m')"
      using True by (simp add: zeroBSSPage_def off zeroMem_def bindS_def liftS_def Let_def sl n storeS_Ok[OF aw, simplified]
          del: One_nat_def)
    moreover have "mbytes ?m' (a + of_nat j) = (if i \<le> j then 0 else mbytes m (a + of_nat j))" if j: "j < unat v" for j
    proof (cases "i \<le> j")
      case True
      have "store (mbytes m) ?s ?z (?s + of_nat (j - i)) = ?z ! (j - i)"
        using j unat_bound64[of v] True by (intro store_at) auto
      then show ?thesis using True j by (simp add: of_nat_diff)
    next
      case False
      have "\<not> in_region ?s (length ?z) (a + of_nat j)"
        using in_region_interval[of ?s "length ?z" "a + of_nat j"] us False v j lt
        by (simp add: unat_add_no_wrap unat_of_nat64)
      with False show ?thesis by (simp add: store_outside)
    qed
    moreover have "same_outside a (unat v) m ?m'"
      using lt unat_bound64[of v] by (intro same_outside_store) simp_all
    ultimately show ?thesis by (intro exI[of _ ?m']) simp
  qed
qed

section \<open>A mapped segment\<close>

definition leading :: "os \<Rightarrow> prog_header \<Rightarrow> nat" where
  "leading os ph = unat (ph_Vaddr ph) mod unat (os_pagesize os)"

definition fileSpan :: "os \<Rightarrow> prog_header \<Rightarrow> u64" where
  "fileSpan os ph = pageUp os (ph_Filesz ph + (ph_Vaddr ph - pageDown os (ph_Vaddr ph)))"

definition memSpan :: "os \<Rightarrow> prog_header \<Rightarrow> u64" where
  "memSpan os ph = pageUp os (ph_Memsz ph + (ph_Vaddr ph - pageDown os (ph_Vaddr ph)))"

definition mapStart :: "os \<Rightarrow> u64 \<Rightarrow> parsed_object \<Rightarrow> prog_header \<Rightarrow> u64" where
  "mapStart os base parsed ph = base + (pageDown os (ph_Vaddr ph) - BaseVAddr parsed)"

text \<open>
  What the format asks of a loadable segment, with the file \<open>fl\<close> and the page address \<open>a\<close> it is mapped at:
  the file offset is congruent to the address, the file holds the data, and it lies in the lower half of
  the address space.
\<close>

definition mappable :: "os \<Rightarrow> bytes \<Rightarrow> u64 \<Rightarrow> prog_header \<Rightarrow> bool" where
  "mappable os fl a ph \<longleftrightarrow>
     ph_Filesz ph \<le> ph_Memsz ph \<and> unat (ph_Memsz ph) < 2 ^ 62 \<and>
     unat (ph_Vaddr ph) mod unat (os_pagesize os) = unat (ph_Off ph) mod unat (os_pagesize os) \<and>
     unat (ph_Off ph) + unat (ph_Filesz ph) \<le> length fl \<and>
     a \<noteq> 0 \<and> unat a + unat (memSpan os ph) < 2 ^ 63"

text \<open>The image of the segment in memory: file data, zeros, and the protection of its flags.\<close>

definition segment_image :: "os \<Rightarrow> bytes \<Rightarrow> u64 \<Rightarrow> prog_header \<Rightarrow> memory \<Rightarrow> bool" where
  "segment_image os fl a ph m \<longleftrightarrow>
     (\<forall>i < unat (ph_Filesz ph). mbytes m (a + of_nat (leading os ph + i)) = fl ! (unat (ph_Off ph) + i)) \<and>
     (\<forall>i < unat (ph_Memsz ph). unat (ph_Filesz ph) \<le> i \<longrightarrow> mbytes m (a + of_nat (leading os ph + i)) = 0) \<and>
     region_prot a (unat (memSpan os ph)) (Some (elfProt (ph_Flags ph))) m"

lemma leading_word:
  assumes "pagesize_ok os"
  shows "v - pageDown os v = of_nat (unat v mod unat (os_pagesize os))"
proof -
  have le: "pageDown os v \<le> v"
    unfolding word_le_nat_alt unat_pageDown[OF assms] by (rule div_times_less_eq_dividend)
  have "unat (v - pageDown os v) = unat v mod unat (os_pagesize os)"
    by (simp add: unat_sub[OF le] unat_pageDown[OF assms] minus_div_mult_eq_mod)
  then have "of_nat (unat (v - pageDown os v)) = (of_nat (unat v mod unat (os_pagesize os)) :: u64)" by (simp only:)
  then show ?thesis by simp
qed

lemma pagesize_bound:
  assumes "pagesize_ok os"
  shows "unat (os_pagesize os) \<le> 2 ^ 31"
proof -
  obtain k where k: "os_pagesize os = 2 ^ k" "12 \<le> k" "k < 32" using assms by (rule pagesize_okE)
  show ?thesis unfolding unat_pagesize[OF assms k(1,3)] using k(3) by (intro power_increasing) auto
qed

text \<open>Both spans are whole pages and hold the leading bytes and the data.\<close>

lemma span:
  fixes n v :: u64
  assumes pg: "pagesize_ok os" and n: "unat n < 2 ^ 62"
  defines "l \<equiv> unat v mod unat (os_pagesize os)"
  shows "paged os (pageUp os (n + (v - pageDown os v)))"
    and "unat (pageUp os (n + (v - pageDown os v))) = pages os (of_nat (unat n + l))"
    and "unat n + l \<le> unat (pageUp os (n + (v - pageDown os v)))"
    and "unat (n + (v - pageDown os v)) = unat n + l"
proof -
  have P: "unat (os_pagesize os) \<le> 2 ^ 31" by (rule pagesize_bound[OF pg])
  have l: "l < 2 ^ 31" using pagesize_pos[OF pg] P mod_less_divisor[of "unat (os_pagesize os)" "unat v"] unfolding l_def by linarith
  have w: "n + (v - pageDown os v) = of_nat (unat n + l)" by (simp add: leading_word[OF pg] l_def)
  have u: "unat (of_nat (unat n + l) :: u64) = unat n + l" using n l by (intro unat_of_nat64) simp
  have nw: "unat (of_nat (unat n + l) :: u64) + (unat (os_pagesize os) - 1) < 2 ^ 64" unfolding u using n l P by simp
  show "unat (n + (v - pageDown os v)) = unat n + l" unfolding w by (rule u)
  show "paged os (pageUp os (n + (v - pageDown os v)))" unfolding w paged_def by (rule pageUp_pages(2)[OF pg nw])
  show e: "unat (pageUp os (n + (v - pageDown os v))) = pages os (of_nat (unat n + l))"
    unfolding w by (rule pageUp_pages(1)[OF pg nw])
  show "unat n + l \<le> unat (pageUp os (n + (v - pageDown os v)))"
    unfolding e using pages_ge[OF pg, of "of_nat (unat n + l)"] by (simp only: u)
qed

lemma pages_mono: "unat v \<le> unat w \<Longrightarrow> pages os v \<le> pages os w"
  by (simp add: pages_def div_le_mono)

lemma paged_dvd:
  assumes "pagesize_ok os"
  shows "paged os v \<longleftrightarrow> unat (os_pagesize os) dvd unat v"
proof
  assume "paged os v"
  then show "unat (os_pagesize os) dvd unat v" unfolding paged_def pages_def by (metis dvd_triv_right)
next
  have p: "0 < unat (os_pagesize os)" by (rule pagesize_pos[OF assms(1)])
  assume "unat (os_pagesize os) dvd unat v"
  then obtain q where q: "unat v = unat (os_pagesize os) * q" by (rule dvdE)
  have "(unat (os_pagesize os) * q + (unat (os_pagesize os) - 1)) div unat (os_pagesize os) =
      q + (unat (os_pagesize os) - 1) div unat (os_pagesize os)"
    using p by (intro div_mult_self4) simp
  then show "paged os v" using p by (simp add: paged_def pages_def q)
qed

lemma paged_diff:
  assumes "pagesize_ok os" and "paged os v" and "paged os w" and "v \<le> w"
  shows "paged os (w - v)"
  using assms by (simp add: paged_dvd unat_sub dvd_diff_nat)

lemma region_prot_sub:
  assumes "region_prot a n p m" and "b = a + of_nat i" and "i + k \<le> n" and "n \<le> 18446744073709551616"
  shows "region_prot b k p m"
  using assms(1) in_region_sub[OF _ assms(2-4)] by (auto simp: region_prot_def)

lemma region_prot_join:
  assumes "region_prot a i p m" and "region_prot (a + of_nat i) k p m" and "i + k \<le> 18446744073709551616"
  shows "region_prot a (i + k) p m"
  unfolding region_prot_def
proof (intro allI impI)
  fix x
  assume "in_region a (i + k) x"
  then obtain j where j: "j < i + k" "x = a + of_nat j" by (auto simp: in_region_iff)
  show "mprot m x = p"
  proof (cases "j < i")
    case True
    with assms(1,3) j show ?thesis by (simp add: region_prot_def in_region_offset)
  next
    case False
    then have "x = a + of_nat i + of_nat (j - i)" using j(2) by (simp add: of_nat_diff)
    moreover have "in_region (a + of_nat i) k (a + of_nat i + of_nat (j - i))"
      using j False assms(3) by (intro in_region_offset) auto
    ultimately show ?thesis using assms(2) by (simp add: region_prot_def)
  qed
qed

text \<open>The part behind the file data: what \<open>mapBSSRegion\<close> leaves of a mapped file region.\<close>

lemma mapBSSRegion_cases:
  assumes os: "os_ok os file" and fs: "paged os v" and ms: "paged os w" and le: "v \<le> w"
    and mem: "ph_Filesz ph < ph_Memsz ph"
    and off: "a + (ph_Vaddr ph - pageDown os (ph_Vaddr ph)) + ph_Filesz ph = a + of_nat i" "i < 2 ^ 63"
    and a: "a \<noteq> 0" "unat a + unat w < 2 ^ 63"
    and rp: "region_prot a (unat v) (Some (prot OR 2)) m"
    and call: "mapBSSRegion os a ph v w prot (prot OR 2) m = (r, m')"
  shows "same_outside a (unat w) m m' \<and> ((\<exists>e. r = Err e) \<or>
    r = Ok () \<and> region_prot a (unat w) (Some prot) m' \<and>
    (\<forall>j < unat w. mbytes m' (a + of_nat j) = (if i \<le> j \<or> unat v \<le> j then 0 else mbytes m (a + of_nat j))))"
proof -
  have mm: "mmap_ok os file" and mp: "mprotect_ok os" and pg: "pagesize_ok os" using os by (simp_all add: os_ok_def)
  have vw: "unat v \<le> unat w" and w64: "unat w \<le> 18446744073709551616"
    using le unat_bound64[of w] by (auto simp: word_le_nat_alt)
  have d: "unat (w - v) = unat w - unat v" by (rule unat_sub[OF le])
  have nle: "\<not> ph_Memsz ph \<le> ph_Filesz ph" using mem by simp
  have av: "a + v = a + of_nat (unat v)" by simp
  obtain r1 m1 where tail: "mapBSSTail os a v w (prot OR 2) m = (r1, m1)" by fastforce
  from mapBSSTail_cases[OF mm paged_diff[OF pg fs ms le] tail] show ?thesis
  proof (elim disjE exE conjE)
    fix e
    assume "r1 = Err e" "m1 = m"
    with call tail nle show ?thesis by (simp add: mapBSSRegion_def bindS_def) auto
  next
    assume r1: "r1 = Ok ()" and so1: "same_outside (a + v) (unat (w - v)) m m1"
      and rp1: "region_prot (a + v) (unat (w - v)) (Some (prot OR 2)) m1"
      and z1: "\<forall>x. in_region (a + v) (unat (w - v)) x \<longrightarrow> mbytes m1 x = 0"
    have out: "\<not> in_region (a + v) (unat (w - v)) (a + of_nat j)" if "j < unat v" for j
      using in_region_interval[of "a + v" "unat (w - v)" "a + of_nat j"] that a(2) vw d
      by (simp add: unat_add_no_wrap unat_of_nat64)
    have rpv: "region_prot a (unat v) (Some (prot OR 2)) m1"
      using rp so1 out by (auto simp: region_prot_def same_outside_def in_region_iff)
    have "(prot OR 2) AND 2 = (2 :: u64)" by (rule bit_eqI) (auto simp: bit_simps)
    then have wr: "(prot OR 2) AND 2 \<noteq> 0" by simp
    have "unat a + i < 2 ^ 64" "unat a + unat v < 2 ^ 63" using a off(2) vw by simp_all
    from zeroBSSPage_run[OF rpv wr off(1) this a(1)] obtain m2
      where zero: "zeroBSSPage os a ph v m1 = (Ok (), m2)" and pr2: "mprot m2 = mprot m1"
        and b2: "\<forall>j < unat v. mbytes m2 (a + of_nat j) = (if i \<le> j then 0 else mbytes m1 (a + of_nat j))"
        and so2: "same_outside a (unat v) m1 m2" by blast
    have S1: "same_outside a (unat w) m m1"
      using same_outside_sub[OF so1 av] d vw w64 by simp
    have S2: "same_outside a (unat w) m1 m2"
      using same_outside_sub[OF so2, of a 0 "unat w"] vw w64 by simp
    have S: "same_outside a (unat w) m m2" by (rule same_outside_trans[OF S1 S2])
    have R: "region_prot a (unat w) (Some (prot OR 2)) m2"
    proof -
      have "region_prot a (unat v) (Some (prot OR 2)) m2"
        using rpv unfolding region_prot_def pr2 .
      moreover have "region_prot (a + of_nat (unat v)) (unat w - unat v) (Some (prot OR 2)) m2"
        using rp1 unfolding region_prot_def pr2 d av .
      ultimately have "region_prot a (unat v + (unat w - unat v)) (Some (prot OR 2)) m2"
        using vw w64 by (intro region_prot_join) simp_all
      then show ?thesis by (simp only: le_add_diff_inverse[OF vw])
    qed
    have B: "mbytes m2 (a + of_nat j) = (if i \<le> j \<or> unat v \<le> j then 0 else mbytes m (a + of_nat j))"
      if j: "j < unat w" for j
    proof (cases "j < unat v")
      case True
      with b2 so1 out[OF True] show ?thesis by (simp add: same_outside_def)
    next
      case False
      then have split: "a + of_nat j = a + v + of_nat (j - unat v)" by (simp add: of_nat_diff)
      have "in_region (a + v) (unat (w - v)) (a + of_nat j)"
        unfolding split using j False d w64 by (intro in_region_offset) auto
      moreover have "\<not> in_region a (unat v) (a + of_nat j)"
        using in_region_interval[of a "unat v" "a + of_nat j"] False j a(2) vw
        by (simp add: unat_add_no_wrap unat_of_nat64)
      ultimately show ?thesis using z1 so2 False by (simp add: same_outside_def)
    qed
    obtain r3 m3 where fin: "(if prot \<noteq> prot OR 2 then mapErrS MprotectFailed (Protect os a w prot) else retS ()) m2 = (r3, m3)"
      by fastforce
    have out3: "r = r3" "m' = m3"
      using call nle tail r1 zero fin by (simp_all add: mapBSSRegion_def bindS_def)
    show ?thesis
    proof (cases "prot = prot OR 2")
      case True
      with fin out3 have "r = Ok ()" "m' = m2" by (simp_all add: retS_def)
      with S R B True show ?thesis by simp
    next
      case False
      obtain q where pr: "Protect os a w prot m2 = (q, m3)" and r3: "r3 = mapErr MprotectFailed q"
        using fin False by (auto simp: mapErrS_def split: prod.splits)
      from mp pr show ?thesis
      proof (cases rule: Protect_cases)
        case ok
        with out3 r3 S B ms show ?thesis
          using same_outside_trans[OF S, of m3] by (simp add: paged_def)
      next
        case (failed e)
        with out3 r3 S show ?thesis by simp
      qed
    qed
  qed
qed

text \<open>The record a mapped segment adds to the object.\<close>

definition segmentOf :: "os \<Rightarrow> u64 \<Rightarrow> prog_header \<Rightarrow> segment" where
  "segmentOf os a ph =
     \<lparr>seg_Addr = a, seg_Size = memSpan os ph, seg_Prot = elfProt (ph_Flags ph), seg_FileOff = pageDown os (ph_Off ph),
      seg_MemSize = ph_Memsz ph, seg_FileSize = ph_Filesz ph\<rparr>"

lemma mapSegment_unfold:
  fixes obj :: loaded_object
  shows "mapSegment os fd parsed ph obj =
     (let a = mapStart os (Base obj) parsed ph; p = elfProt (ph_Flags ph);
          q = computeMapProt p (ph_Memsz ph) (ph_Filesz ph)
      in bindS (mapFileRegion os a (fileSpan os ph) q fd (pageDown os (ph_Off ph))) (\<lambda>_.
         bindS (mapBSSRegion os a ph (fileSpan os ph) (memSpan os ph) p q) (\<lambda>_.
           retS (obj\<lparr>Segments := Segments obj @ [segmentOf os a ph]\<rparr>))))"
  by (simp add: mapSegment_def mapStart_def fileSpan_def memSpan_def segmentOf_def Let_def)

lemma mapSegment_image:
  fixes obj :: loaded_object
  assumes os: "os_ok os file" and ok: "mappable os (file fd) a ph" and a: "a = mapStart os (Base obj) parsed ph"
    and call: "mapSegment os fd parsed ph obj m = (r, m')"
  shows "same_outside a (unat (memSpan os ph)) m m' \<and> ((\<exists>e. r = Err e) \<or>
    r = Ok (obj\<lparr>Segments := Segments obj @ [segmentOf os a ph]\<rparr>) \<and> segment_image os (file fd) a ph m')"
proof -
  let ?v = "fileSpan os ph" and ?w = "memSpan os ph" and ?l = "leading os ph"
  let ?fs = "unat (ph_Filesz ph)" and ?ms = "unat (ph_Memsz ph)" and ?off = "pageDown os (ph_Off ph)"
  let ?p = "elfProt (ph_Flags ph)" and ?q = "computeMapProt (elfProt (ph_Flags ph)) (ph_Memsz ph) (ph_Filesz ph)"
  have mm: "mmap_ok os file" and pg: "pagesize_ok os" using os by (simp_all add: os_ok_def)
  have le: "?fs \<le> ?ms" and ms: "?ms < 2 ^ 62" and a0: "a \<noteq> 0" and top: "unat a + unat ?w < 2 ^ 63"
    and inf: "unat (ph_Off ph) + ?fs \<le> length (file fd)"
    and cong: "unat (ph_Vaddr ph) mod unat (os_pagesize os) = unat (ph_Off ph) mod unat (os_pagesize os)"
    using ok by (simp_all add: mappable_def word_le_nat_alt)
  have fs: "?fs < 2 ^ 62" using le ms by simp
  note F = span[OF pg fs, of "ph_Vaddr ph", folded fileSpan_def leading_def]
  note M = span[OF pg ms, of "ph_Vaddr ph", folded memSpan_def leading_def]
  have lb: "?l < 2 ^ 31"
    using mod_less_divisor[OF pagesize_pos[OF pg], of "unat (ph_Vaddr ph)"] pagesize_bound[OF pg] by (simp add: leading_def)
  have uf: "unat (of_nat (?fs + ?l) :: u64) = ?fs + ?l" using fs lb by (intro unat_of_nat64) simp
  have um: "unat (of_nat (?ms + ?l) :: u64) = ?ms + ?l" using ms lb by (intro unat_of_nat64) simp
  have vw: "?v \<le> ?w"
    unfolding word_le_nat_alt F(2) M(2) by (rule pages_mono) (simp only: uf um add_le_mono1[OF le])
  have offs: "unat ?off + ?l = unat (ph_Off ph)"
    by (simp add: unat_pageDown[OF pg] leading_def cong)
  obtain r1 m1 where mf: "mapFileRegion os a ?v ?q fd ?off m = (r1, m1)" by fastforce
  from mapFileRegion_cases[OF mm F(1) mf] show ?thesis
  proof (elim disjE exE conjE)
    fix e
    assume "r1 = Err e" "m1 = m"
    with call mf show ?thesis by (simp add: mapSegment_unfold a[symmetric] Let_def bindS_def) auto
  next
    assume r1: "r1 = Ok ()" and so1: "same_outside a (unat ?v) m m1" and rp1: "region_prot a (unat ?v) (Some ?q) m1"
      and b1: "\<forall>i < unat ?v. unat ?off + i < length (file fd) \<longrightarrow> mbytes m1 (a + of_nat i) = file fd ! (unat ?off + i)"
    have S1: "same_outside a (unat ?w) m m1"
      using same_outside_sub[OF so1, of a 0 "unat ?w"] vw unat_bound64[of ?w] by (simp add: word_le_nat_alt)
    have data: "mbytes m1 (a + of_nat (?l + i)) = file fd ! (unat (ph_Off ph) + i)" if "i < ?fs" for i
      using b1[rule_format, of "?l + i"] that F(3) inf by (simp add: offs[symmetric] add.assoc)
    show ?thesis
    proof (cases "ph_Memsz ph \<le> ph_Filesz ph")
      case True
      then have eq: "ph_Memsz ph = ph_Filesz ph" using le by (simp add: word_le_nat_alt word_unat_eq_iff)
      then have "?w = ?v" by (simp add: memSpan_def fileSpan_def)
      moreover have "r = Ok (obj\<lparr>Segments := Segments obj @ [segmentOf os a ph]\<rparr>)" "m' = m1"
        using call mf r1 True by (simp_all add: mapSegment_unfold a[symmetric] Let_def bindS_def mapBSSRegion_def retS_def)
      ultimately show ?thesis
        using S1 data rp1 eq by (simp add: segment_image_def computeMapProt_def)
    next
      case False
      then have lt: "ph_Filesz ph < ph_Memsz ph" and q: "?q = ?p OR 2" by (simp_all add: computeMapProt_def not_le)
      have at: "a + (ph_Vaddr ph - pageDown os (ph_Vaddr ph)) + ph_Filesz ph = a + of_nat (?l + ?fs)"
        by (simp add: leading_word[OF pg] leading_def)
      have i63: "?l + ?fs < 2 ^ 63" using fs lb by simp
      obtain r2 m2 where mb: "mapBSSRegion os a ph ?v ?w ?p (?p OR 2) m1 = (r2, m2)" by fastforce
      note rest = mapBSSRegion_cases[OF os F(1) M(1) vw lt at i63 a0 top rp1[unfolded q] mb]
      have S: "same_outside a (unat ?w) m m2" using same_outside_trans[OF S1] rest by blast
      show ?thesis
      proof (cases "\<exists>e. r2 = Err e")
        case True
        with call mf r1 mb q S show ?thesis
          by (auto simp: mapSegment_unfold a[symmetric] Let_def bindS_def)
      next
        case False
        with rest have r2: "r2 = Ok ()" and rp2: "region_prot a (unat ?w) (Some ?p) m2"
          and b2: "\<And>j. j < unat ?w \<Longrightarrow> mbytes m2 (a + of_nat j) = (if ?l + ?fs \<le> j \<or> unat ?v \<le> j then 0 else mbytes m1 (a + of_nat j))"
          by blast+
        have "r = Ok (obj\<lparr>Segments := Segments obj @ [segmentOf os a ph]\<rparr>)" "m' = m2"
          using call mf r1 mb q r2 by (simp_all add: mapSegment_unfold a[symmetric] Let_def bindS_def retS_def)
        moreover have "mbytes m2 (a + of_nat (?l + i)) = file fd ! (unat (ph_Off ph) + i)" if "i < ?fs" for i
          using b2[of "?l + i"] data[OF that] that F(3) M(3) le by simp
        moreover have "mbytes m2 (a + of_nat (?l + i)) = 0" if "i < ?ms" "?fs \<le> i" for i
          using b2[of "?l + i"] that M(3) by simp
        ultimately show ?thesis using S rp2 by (simp add: segment_image_def)
      qed
    qed
  qed
qed

section \<open>All segments\<close>

definition apart :: "u64 \<Rightarrow> nat \<Rightarrow> u64 \<Rightarrow> nat \<Rightarrow> bool" where
  "apart a n b k \<longleftrightarrow> unat a + n \<le> unat b \<or> unat b + k \<le> unat a"

lemma apart_region: "apart a n b k \<Longrightarrow> unat a + n < 2 ^ 63 \<Longrightarrow> unat b + k < 2 ^ 63 \<Longrightarrow> in_region a n x \<Longrightarrow> \<not> in_region b k x"
  by (auto simp: apart_def in_region_interval)

lemma segment_image_kept:
  assumes img: "segment_image os fl a ph m" and pg: "pagesize_ok os" and ok: "mappable os fl a ph"
    and out: "\<And>x. in_region a (unat (memSpan os ph)) x \<Longrightarrow> mbytes m' x = mbytes m x \<and> mprot m' x = mprot m x"
  shows "segment_image os fl a ph m'"
proof -
  have ms: "unat (ph_Memsz ph) < 2 ^ 62" and le: "unat (ph_Filesz ph) \<le> unat (ph_Memsz ph)"
    using ok by (simp_all add: mappable_def word_le_nat_alt)
  note M = span[OF pg ms, of "ph_Vaddr ph", folded memSpan_def leading_def]
  have "in_region a (unat (memSpan os ph)) (a + of_nat (leading os ph + i))" if "i < unat (ph_Memsz ph)" for i
    using that M(3) unat_bound64[of "memSpan os ph"] by (intro in_region_offset) simp_all
  with img out le show ?thesis by (auto simp: segment_image_def region_prot_def)
qed

abbreviation segment_apart :: "os \<Rightarrow> u64 \<Rightarrow> parsed_object \<Rightarrow> prog_header \<Rightarrow> prog_header \<Rightarrow> bool" where
  "segment_apart os base parsed p q \<equiv>
     apart (mapStart os base parsed p) (unat (memSpan os p)) (mapStart os base parsed q) (unat (memSpan os q))"

abbreviation outside_segments :: "os \<Rightarrow> u64 \<Rightarrow> parsed_object \<Rightarrow> prog_header list \<Rightarrow> u64 \<Rightarrow> bool" where
  "outside_segments os base parsed phs x \<equiv>
     list_all (\<lambda>ph. \<not> in_region (mapStart os base parsed ph) (unat (memSpan os ph)) x) phs"

lemma mapSegment_forS:
  fixes obj :: loaded_object
  assumes os: "os_ok os file" and call: "forS (mapSegment os fd parsed) phs obj m = (r, m')"
    and ok: "list_all (\<lambda>ph. mappable os (file fd) (mapStart os (Base obj) parsed ph) ph) phs"
    and ap: "sorted_wrt (segment_apart os (Base obj) parsed) phs"
  shows "(\<forall>x. outside_segments os (Base obj) parsed phs x \<longrightarrow> mbytes m' x = mbytes m x \<and> mprot m' x = mprot m x) \<and>
    ((\<exists>e. r = Err e) \<or>
     r = Ok (obj\<lparr>Segments := Segments obj @ map (\<lambda>ph. segmentOf os (mapStart os (Base obj) parsed ph) ph) phs\<rparr>) \<and>
     list_all (\<lambda>ph. segment_image os (file fd) (mapStart os (Base obj) parsed ph) ph m') phs)"
  using call ok ap
proof (induction phs arbitrary: obj m)
  case Nil
  then show ?case by (simp add: retS_def)
next
  case (Cons ph phs)
  let ?a = "mapStart os (Base obj) parsed ph" and ?w = "unat (memSpan os ph)"
  have pg: "pagesize_ok os" using os by (simp add: os_ok_def)
  have mp: "mappable os (file fd) ?a ph" and top: "unat ?a + ?w < 2 ^ 63" using Cons.prems(2) by (simp_all add: mappable_def)
  obtain r1 m1 where one: "mapSegment os fd parsed ph obj m = (r1, m1)" by fastforce
  note here = mapSegment_image[OF os mp refl one]
  show ?case
  proof (cases r1)
    case (Ok obj1)
    with here have obj1: "obj1 = obj\<lparr>Segments := Segments obj @ [segmentOf os ?a ph]\<rparr>"
      and img: "segment_image os (file fd) ?a ph m1" and so: "same_outside ?a ?w m m1" by auto
    have B: "Base obj1 = Base obj" by (simp add: obj1)
    have rec: "forS (mapSegment os fd parsed) phs obj1 m1 = (r, m')"
      using Cons.prems(1) one Ok by (simp add: bindS_def)
    note rest = Cons.IH[OF rec, unfolded B]
    have rest': "\<forall>x. outside_segments os (Base obj) parsed phs x \<longrightarrow> mbytes m' x = mbytes m1 x \<and> mprot m' x = mprot m1 x"
      using rest Cons.prems(2,3) by simp
    have apx: "outside_segments os (Base obj) parsed phs x" if "in_region ?a ?w x" for x
      using Cons.prems(2,3) apart_region[OF _ top _ that] by (auto simp: list_all_iff mappable_def)
    have keep: "segment_image os (file fd) ?a ph m'"
      using rest' apx by (intro segment_image_kept[OF img pg mp]) blast
    show ?thesis using rest Cons.prems(2,3) so keep by (auto simp: same_outside_def obj1)
  next
    case (Err e)
    with Cons.prems(1) one here show ?thesis by (auto simp: bindS_def same_outside_def)
  next
    case (Panic e)
    with here show ?thesis by auto
  next
    case Hang
    with here show ?thesis by auto
  qed
qed

definition demoText :: prog_header where
  "demoText = \<lparr>ph_Type = 1, ph_Flags = 5, ph_Off = 0, ph_Vaddr = 0, ph_Filesz = 5, ph_Memsz = 5, ph_Align = 0x1000\<rparr>"

definition demoData :: prog_header where
  "demoData = \<lparr>ph_Type = 1, ph_Flags = 6, ph_Off = 4093, ph_Vaddr = 0x1FFD, ph_Filesz = 2, ph_Memsz = 0x10, ph_Align = 0x1000\<rparr>"

definition demoFile :: bytes where
  "demoFile = [1, 2, 3, 4, 5] @ replicate 4088 0 @ [7, 8]"

definition demoTwo :: parsed_object where
  "demoTwo = demoParsed\<lparr>BaseVAddr := 0, MemSize := 0x3000, LoadSegments := [demoText, demoData]\<rparr>"

lemma demoTwo_mappable:
  "list_all (\<lambda>ph. mappable (demoOs demoFile) demoFile (mapStart (demoOs demoFile) 0x100000 demoTwo ph) ph) (LoadSegments demoTwo)"
  by (simp add: demoTwo_def demoText_def demoData_def demoFile_def mappable_def mapStart_def memSpan_def pageUp_def pageDown_def)

lemma demoTwo_apart:
  "sorted_wrt (segment_apart (demoOs demoFile) 0x100000 demoTwo) (LoadSegments demoTwo)"
  by (simp add: demoTwo_def demoText_def demoData_def mapStart_def memSpan_def pageUp_def pageDown_def apart_def)

lemma demo_run: "case mapSegments (demoOs demoFile) 3 demoTwo (newObject demoTwo 0x100000) \<lparr>mbytes = \<lambda>_. 0, mprot = \<lambda>_. None\<rparr> of
   (Err e, m') \<Rightarrow> False | _ \<Rightarrow> True"
  by (simp add: mapSegments_def demoTwo_def mapSegment_def Let_def pageDown_def pageUp_def demoText_def demoData_def elfProt_def computeMapProt_def mapFileRegion_def
    mapBSSRegion_def mapBSSTail_def zeroBSSPage_def zeroMem_def st_defs MapFixed_def Map_def demoMmap_def newObject_def
    unsafeSlice_def pages4096_def storeS_def wr_bytes_def all_writable_def writable_def mapRegion_def in_region_def)

text \<open>
  C5: Mapping the segments. When every segment of the file is well formed and their page ranges do not
  overlap, \<open>mapSegments\<close> either fails or leaves each segment as the format describes it: the file's bytes,
  zeros up to the memory size and behind it to the end of the last file page, the protection of its flags, and one
  record per segment in file order. In both cases no byte and no protection outside the segments changes.
\<close>

theorem mapSegments_images:
  assumes "os_ok os file"
    and "list_all (\<lambda>ph. mappable os (file fd) (mapStart os (Base obj) parsed ph) ph) (LoadSegments parsed)"
    and "sorted_wrt (segment_apart os (Base obj) parsed) (LoadSegments parsed)"
    and "mapSegments os fd parsed obj m = (r, m')"
  shows "(\<forall>x. outside_segments os (Base obj) parsed (LoadSegments parsed) x \<longrightarrow> mbytes m' x = mbytes m x \<and> mprot m' x = mprot m x) \<and>
    ((\<exists>e. r = Err e) \<or>
     r = Ok (obj\<lparr>Segments := Segments obj @
           map (\<lambda>ph. segmentOf os (mapStart os (Base obj) parsed ph) ph) (LoadSegments parsed)\<rparr>) \<and>
     list_all (\<lambda>ph. segment_image os (file fd) (mapStart os (Base obj) parsed ph) ph m') (LoadSegments parsed))"
  by (rule mapSegment_forS[OF assms(1) assms(4)[unfolded mapSegments_def] assms(2,3)])

theorem mapSegments_images_witness:
  "\<exists>obj m'. mapSegments (demoOs demoFile) 3 demoTwo (newObject demoTwo 0x100000) \<lparr>mbytes = \<lambda>_. 0, mprot = \<lambda>_. None\<rparr> = (Ok obj, m') \<and>
     map seg_Addr (Segments obj) = [0x100000, 0x101000] \<and> mprot m' 0x100004 = Some 5 \<and> mbytes m' 0x101FFD = 7 \<and> mbytes m' 0x101FFF = 0"
proof -
  let ?m = "\<lparr>mbytes = \<lambda>_. 0, mprot = \<lambda>_. None\<rparr>"
  obtain r m' where run: "mapSegments (demoOs demoFile) 3 demoTwo (newObject demoTwo 0x100000) ?m = (r, m')" by fastforce
  with demo_run have ne: "\<nexists>e. r = Err e" by auto
  have B: "Base (newObject demoTwo 0x100000) = 0x100000" by (simp add: newObject_def)
  note im = mapSegments_images[OF demoOs_ok, of demoFile "newObject demoTwo 0x100000" demoTwo 3, unfolded B,
    OF demoTwo_mappable demoTwo_apart run]
  with ne have "r = Ok ((newObject demoTwo 0x100000)\<lparr>Segments := map (\<lambda>ph. segmentOf (demoOs demoFile) (mapStart (demoOs demoFile) 0x100000 demoTwo ph) ph) [demoText, demoData]\<rparr>)"
    and t: "segment_image (demoOs demoFile) demoFile 0x100000 demoText m'"
    and d: "segment_image (demoOs demoFile) demoFile 0x101000 demoData m'"
    by (simp_all add: demoTwo_def newObject_def mapStart_def demoText_def demoData_def pageDown_def)
  moreover have "mprot m' 0x100004 = Some 5"
    using t by (simp add: segment_image_def region_prot_def demoText_def memSpan_def pageUp_def pageDown_def elfProt_def in_region_def)
  moreover have "mbytes m' 0x101FFD = 7" "mbytes m' 0x101FFF = 0"
    using d unfolding segment_image_def demoData_def leading_def
    by (auto simp: demoFile_def nth_append dest: spec[of _ "0::nat"] spec[of _ "2::nat"])
  ultimately show ?thesis
    using run by (simp add: demoTwo_def mapStart_def demoText_def demoData_def pageDown_def segmentOf_def)
qed
end
