(* ===== verification/Loader_Populate.thy ===== *)
theory Loader_Populate
  imports Loader_Map
begin

text \<open>
  \<open>loader/loader.go\<close>, second part: the fields of the object from the dynamic tags, the symbol table, the
  TLS module, and \<open>createAndMapObject\<close>, which reserves, maps and populates. The object is a value that is
  threaded through; \<open>toAbs\<close> is the closure \<open>populateObject\<close> passes on.
\<close>

unbundle bit_operations_syntax

section \<open>Fields from the dynamic tags\<close>

definition ifTag :: "(u64 \<rightharpoonup> u64) \<Rightarrow> u64 \<Rightarrow> (u64 \<Rightarrow> 'a \<Rightarrow> 'a) \<Rightarrow> 'a \<Rightarrow> 'a" where
  "ifTag dynTags tag f x = (case dynTags tag of Some v \<Rightarrow> f v x | None \<Rightarrow> x)"

definition populateSymbolTags :: "(u64 \<rightharpoonup> u64) \<Rightarrow> (u64 \<Rightarrow> u64) \<Rightarrow> loaded_object \<Rightarrow> loaded_object" where
  "populateSymbolTags dynTags toAbs obj =
     (let obj = ifTag dynTags DT_SYMTAB (\<lambda>v obj. obj\<lparr>SymtabAddr := toAbs v\<rparr>) obj;
          obj = ifTag dynTags DT_STRTAB (\<lambda>v obj. obj\<lparr>StrtabAddr := toAbs v\<rparr>) obj;
          obj = ifTag dynTags DT_STRSZ (\<lambda>v obj. obj\<lparr>StrtabSize := v\<rparr>) obj;
          obj = ifTag dynTags DT_HASH (\<lambda>v obj. obj\<lparr>HashAddr := toAbs v\<rparr>) obj
      in ifTag dynTags DT_GNU_HASH (\<lambda>v obj. obj\<lparr>GnuHashAddr := toAbs v\<rparr>) obj)"

definition extractRelocationAddresses :: "(u64 \<rightharpoonup> u64) \<Rightarrow> (u64 \<Rightarrow> u64) \<Rightarrow> loaded_object \<Rightarrow> loaded_object" where
  "extractRelocationAddresses dynTags toAbs obj =
     (let obj = ifTag dynTags DT_RELA (\<lambda>v obj. obj\<lparr>RelaAddr := toAbs v\<rparr>) obj;
          obj = ifTag dynTags DT_RELASZ (\<lambda>v obj. obj\<lparr>RelaSize := v\<rparr>) obj;
          obj = ifTag dynTags DT_RELAENT (\<lambda>v obj. obj\<lparr>RelaEnt := v\<rparr>) obj;
          obj = ifTag dynTags DT_JMPREL (\<lambda>v obj. obj\<lparr>JmpRelAddr := toAbs v\<rparr>) obj
      in ifTag dynTags DT_PLTRELSZ (\<lambda>v obj. obj\<lparr>JmpRelSize := v\<rparr>) obj)"

definition validateRelocationTables :: "loaded_object \<Rightarrow> (loader_error, unit) result" where
  "validateRelocationTables obj =
     (if RelaSize obj > 0 \<and> RelaAddr obj = 0 then Err (InconsistentRela (RelaSize obj))
      else if JmpRelSize obj > 0 \<and> JmpRelAddr obj = 0 then Err (InconsistentJmpRel (JmpRelSize obj))
      else Ok ())"

definition populateRelocationTags ::
    "(u64 \<rightharpoonup> u64) \<Rightarrow> (u64 \<Rightarrow> u64) \<Rightarrow> loaded_object \<Rightarrow> (loader_error, loaded_object) result" where
  "populateRelocationTags dynTags toAbs obj =
     (let obj = extractRelocationAddresses dynTags toAbs obj
      in bindR (validateRelocationTables obj) (\<lambda>_. Ok obj))"

definition populateInitTags :: "(u64 \<rightharpoonup> u64) \<Rightarrow> (u64 \<Rightarrow> u64) \<Rightarrow> loaded_object \<Rightarrow> loaded_object" where
  "populateInitTags dynTags toAbs obj =
     (let obj = ifTag dynTags DT_INIT (\<lambda>v obj. obj\<lparr>InitAddr := toAbs v\<rparr>) obj;
          obj = ifTag dynTags DT_INIT_ARRAY (\<lambda>v obj. obj\<lparr>InitArray := toAbs v\<rparr>) obj
      in ifTag dynTags DT_INIT_ARRAYSZ (\<lambda>v obj. obj\<lparr>InitArraySz := v\<rparr>) obj)"

definition populateFiniTags :: "(u64 \<rightharpoonup> u64) \<Rightarrow> (u64 \<Rightarrow> u64) \<Rightarrow> loaded_object \<Rightarrow> loaded_object" where
  "populateFiniTags dynTags toAbs obj =
     (let obj = ifTag dynTags DT_FINI (\<lambda>v obj. obj\<lparr>FiniAddr := toAbs v\<rparr>) obj;
          obj = ifTag dynTags DT_FINI_ARRAY (\<lambda>v obj. obj\<lparr>FiniArray := toAbs v\<rparr>) obj
      in ifTag dynTags DT_FINI_ARRAYSZ (\<lambda>v obj. obj\<lparr>FiniArraySz := v\<rparr>) obj)"

definition populateInitFiniTags :: "(u64 \<rightharpoonup> u64) \<Rightarrow> (u64 \<Rightarrow> u64) \<Rightarrow> loaded_object \<Rightarrow> loaded_object" where
  "populateInitFiniTags dynTags toAbs obj = populateFiniTags dynTags toAbs (populateInitTags dynTags toAbs obj)"

definition populateSoname :: "memory \<Rightarrow> (u64 \<rightharpoonup> u64) \<Rightarrow> loaded_object \<Rightarrow> (loader_error, loaded_object) result" where
  "populateSoname m dynTags obj =
     (case dynTags DT_SONAME of
        Some v \<Rightarrow>
          if StrtabAddr obj \<noteq> 0
          then bindR (ReadCStringMem m (StrtabAddr obj) v (StrtabSize obj)) (\<lambda>s. Ok (obj\<lparr>Soname := s\<rparr>))
          else Ok obj
      | None \<Rightarrow> Ok obj)"

definition populateDynamicTags ::
    "memory \<Rightarrow> (u64 \<rightharpoonup> u64) \<Rightarrow> (u64 \<Rightarrow> u64) \<Rightarrow> loaded_object \<Rightarrow> (loader_error, loaded_object) result" where
  "populateDynamicTags m dynTags toAbs obj =
     bindR (populateRelocationTags dynTags toAbs (populateSymbolTags dynTags toAbs obj)) (\<lambda>obj.
       populateSoname m dynTags (populateInitFiniTags dynTags toAbs obj))"

section \<open>The symbol table\<close>

definition computeSymbolTableSize :: "(u64 \<rightharpoonup> u64) \<Rightarrow> u64 \<Rightarrow> u64 \<Rightarrow> u64" where
  "computeSymbolTableSize dynTags symtabAddr strtabAddr =
     (if dynTags DT_SYMENT \<noteq> Some 24 then 0
      else if dynTags DT_STRSZ = None \<or> symtabAddr = 0 \<or> strtabAddr = 0 then 0
      else if strtabAddr > symtabAddr then strtabAddr - symtabAddr
      else 0)"

text \<open>An error of \<open>ParseVersionInfo\<close> is dropped; it never gives a nil table.\<close>

definition loadVersionInfo ::
    "memory \<Rightarrow> (u64 \<rightharpoonup> u64) \<Rightarrow> u64 \<Rightarrow> u64 \<Rightarrow> loaded_object \<Rightarrow> (loader_error, loaded_object) result" where
  "loadVersionInfo m dynTags base symCount obj =
     (if symCount = 0 \<or> StrtabAddr obj = 0 then Ok obj
      else case ParseVersionInfo m dynTags base (StrtabAddr obj) (StrtabSize obj) symCount of
             Ok vt \<Rightarrow> Ok (obj\<lparr>Symbols := SetVersionTable (Symbols obj) (Some vt)\<rparr>)
           | Err _ \<Rightarrow> Ok obj
           | Panic p \<Rightarrow> Panic p
           | Hang \<Rightarrow> Hang)"

definition initializeSymbolTable ::
    "memory \<Rightarrow> (u64 \<rightharpoonup> u64) \<Rightarrow> u64 \<Rightarrow> loaded_object \<Rightarrow> (loader_error, loaded_object) result" where
  "initializeSymbolTable m dynTags base obj =
     (let symtabSize = computeSymbolTableSize dynTags (SymtabAddr obj) (StrtabAddr obj);
          obj = obj\<lparr>SymtabSize := symtabSize\<rparr>;
          symCount = symtabSize div 24
      in bindR (loadVersionInfo m dynTags base symCount obj) (\<lambda>obj.
           if SymtabAddr obj \<noteq> 0 \<and> StrtabAddr obj \<noteq> 0
           then bindR (mapErr SymtabLoadFailed
                  (LoadFromDynamic m (Symbols obj) (SymtabAddr obj) (StrtabAddr obj) symtabSize (StrtabSize obj)))
                  (\<lambda>t. Ok (obj\<lparr>Symbols := t\<rparr>))
           else Ok obj))"

section \<open>Thread-local storage\<close>

definition calculateTLSDataAddress :: "os \<Rightarrow> segment \<Rightarrow> prog_header \<Rightarrow> prog_header \<Rightarrow> u64" where
  "calculateTLSDataAddress os seg loadSeg tlsSeg =
     (let alignedVAddr = pageDown os (ph_Vaddr loadSeg);
          leading = ph_Vaddr loadSeg - alignedVAddr;
          offset = ph_Vaddr tlsSeg - ph_Vaddr loadSeg
      in seg_Addr seg + leading + offset)"

text \<open>The loop indexes the loadable segments of the file with the positions of the mapped ones.\<close>

fun findTLSLoop :: "os \<Rightarrow> parsed_object \<Rightarrow> prog_header \<Rightarrow> segment list \<Rightarrow> prog_header list \<Rightarrow> (loader_error, u64) result" where
  "findTLSLoop os parsed tlsSeg [] _ = Ok 0"
| "findTLSLoop os parsed tlsSeg (seg # segs) [] = Panic IndexOutOfRange"
| "findTLSLoop os parsed tlsSeg (seg # segs) (loadSeg # loadSegs) =
     (let segStart = BaseVAddr parsed + ph_Vaddr loadSeg;
          segEnd = segStart + ph_Memsz loadSeg
      in if ph_Vaddr tlsSeg \<ge> segStart \<and> ph_Vaddr tlsSeg < segEnd
         then Ok (calculateTLSDataAddress os seg loadSeg tlsSeg)
         else findTLSLoop os parsed tlsSeg segs loadSegs)"

definition findTLSInitData :: "os \<Rightarrow> loaded_object \<Rightarrow> parsed_object \<Rightarrow> prog_header \<Rightarrow> (loader_error, u64) result" where
  "findTLSInitData os obj parsed tlsSeg =
     (if ph_Filesz tlsSeg = 0 then Ok 0
      else findTLSLoop os parsed tlsSeg (Segments obj) (LoadSegments parsed))"

definition setupTLS :: "os \<Rightarrow> parsed_object \<Rightarrow> loaded_object \<Rightarrow> (world, loader_error, loaded_object) st" where
  "setupTLS os parsed obj =
     (case TLSSeg parsed of
        None \<Rightarrow> retS obj
      | Some tlsSeg \<Rightarrow>
          bindS (liftS (findTLSInitData os obj parsed tlsSeg)) (\<lambda>tlsInitData.
          bindS (mapErrS TLSRegistrationFailed
                  (RegisterModule (ph_Memsz tlsSeg) (ph_Align tlsSeg) (ph_Filesz tlsSeg) tlsInitData)) (\<lambda>tlsModule.
            retS (obj\<lparr>TLSModule := Some tlsModule\<rparr>))))"

section \<open>The whole object\<close>

text \<open>A computation that only reads the memory.\<close>

definition readMem :: "(memory \<Rightarrow> ('e, 'a) result) \<Rightarrow> (world, 'e, 'a) st" where
  "readMem f = onMem (loadS f)"

definition populateObject :: "os \<Rightarrow> parsed_object \<Rightarrow> loaded_object \<Rightarrow> (world, loader_error, loaded_object) st" where
  "populateObject os parsed obj =
     (let base = Base obj;
          toAbs = (\<lambda>vaddr. base + (vaddr - BaseVAddr parsed))
      in bindS (mapErrS DynTagsFailed (readMem (\<lambda>m. populateDynamicTags m (DynEntries parsed) toAbs obj))) (\<lambda>obj.
         bindS (mapErrS SymtabInitFailed (readMem (\<lambda>m. initializeSymbolTable m (DynEntries parsed) base obj))) (\<lambda>obj.
           setupTLS os parsed obj)))"

text \<open>\<open>orElse m h\<close>: when \<open>m\<close> returns an error, \<open>h\<close> runs, its own error is dropped, and \<open>m\<close>'s is returned.\<close>

definition orElse :: "('s, 'e, 'a) st \<Rightarrow> ('s, 'f, 'b) st \<Rightarrow> ('s, 'e, 'a) st" where
  "orElse m h = (\<lambda>s. case m s of
     (Err e, t) \<Rightarrow> (case h t of (r, u) \<Rightarrow>
        (case r of Ok _ \<Rightarrow> Err e | Err _ \<Rightarrow> Err e | Panic p \<Rightarrow> Panic p | Hang \<Rightarrow> Hang, u))
   | x \<Rightarrow> x)"

definition createAndMapObject :: "os \<Rightarrow> parsed_object \<Rightarrow> i64 \<Rightarrow> (world, loader_error, loaded_object) st" where
  "createAndMapObject os parsed fd =
     bindS (mapErrS ReserveFailed (onMem (MapAnon os (MemSize parsed) ProtNone))) (\<lambda>base.
     bindS (orElse (onMem (mapSegments os fd parsed (newObject parsed base)))
              (onMem (Unmap os base (MemSize parsed)))) (\<lambda>obj.
       orElse (populateObject os parsed obj) (onMem (Unmap os base (MemSize parsed)))))"

section \<open>What populating leaves alone\<close>

lemma readMem_run: "readMem f w = (f (w_mem w), w)"
  by (simp add: readMem_def onMem_def loadS_def)

lemma keeps_readMem [keeps_intros]: "keeps P (readMem f)"
  by (simp add: keeps_def readMem_run)

lemma keeps_RegisterModule [keeps_intros]: "keeps (\<lambda>w. w_mem w = m) (RegisterModule sz al fs d)"
  by (simp add: keeps_def RegisterModule_def Let_def)

lemma setupTLS_mem: "keeps (\<lambda>w. w_mem w = m) (setupTLS os parsed obj)"
  unfolding setupTLS_def by (cases "TLSSeg parsed") (auto intro!: keeps_intros)

lemma populateObject_mem: "keeps (\<lambda>w. w_mem w = m) (populateObject os parsed obj)"
  unfolding populateObject_def Let_def by (intro keeps_intros setupTLS_mem)

text \<open>Where the object was mapped is not changed by any later step of populating, nor the pages of its offset table.\<close>

definition same_place :: "loaded_object \<Rightarrow> loaded_object \<Rightarrow> bool" where
  "same_place a b \<longleftrightarrow> Base a = Base b \<and> Segments a = Segments b \<and> Parsed a = Parsed b \<and>
     GOTBase a = GOTBase b \<and> GOTPages a = GOTPages b"

lemma ifTag_place: "(\<And>v x. same_place (f v x) x) \<Longrightarrow> same_place (ifTag d t f x) x"
  by (simp add: ifTag_def same_place_def split: option.split)

lemma same_place_trans: "same_place a b \<Longrightarrow> same_place b c \<Longrightarrow> same_place a c"
  by (simp add: same_place_def)

lemma ifTag_place_trans: "(\<And>v x. same_place (f v x) x) \<Longrightarrow> same_place x y \<Longrightarrow> same_place (ifTag d t f x) y"
  by (rule same_place_trans[OF ifTag_place])

lemma populate_tags_place:
  "same_place (populateSymbolTags d f obj) obj"
  "same_place (extractRelocationAddresses d f obj) obj"
  "same_place (populateInitTags d f obj) obj"
  "same_place (populateFiniTags d f obj) obj"
  unfolding populateSymbolTags_def extractRelocationAddresses_def populateInitTags_def populateFiniTags_def Let_def
  by (intro ifTag_place_trans; simp add: same_place_def)+

lemma populateDynamicTags_place:
  assumes "populateDynamicTags m d f obj = Ok obj'"
  shows "same_place obj' obj"
proof -
  have so: "same_place b a" if "populateSoname m d a = Ok b" for a b
    using that by (auto simp: populateSoname_def same_place_def split: option.splits if_splits)
  show ?thesis
    using assms
    by (auto simp: populateDynamicTags_def populateRelocationTags_def populateInitFiniTags_def Let_def
        same_place_def populate_tags_place[unfolded same_place_def] dest!: so)
qed

lemma initializeSymbolTable_place:
  assumes "initializeSymbolTable m d base obj = Ok obj'"
  shows "same_place obj' obj"
proof -
  have v: "same_place b a" if "loadVersionInfo m d base n a = Ok b" for a b n
    using that by (auto simp: loadVersionInfo_def same_place_def split: if_splits result.splits)
  show ?thesis
    using assms by (auto simp: initializeSymbolTable_def Let_def same_place_def split: if_splits dest!: v)
qed

lemma populateObject_place:
  assumes "populateObject os parsed obj w = (Ok obj', w')"
  shows "same_place obj' obj"
  using assms
  by (auto simp: populateObject_def st_Ok readMem_run setupTLS_def same_place_def Let_def split: option.splits
      dest!: populateDynamicTags_place initializeSymbolTable_place)

section \<open>A mapped object\<close>

text \<open>
  A file whose segments can be mapped wherever the kernel puts the reservation: each segment is well formed
  and lies with its whole pages inside the span, and they do not overlap.
\<close>

definition vspan_ok :: "os \<Rightarrow> bytes \<Rightarrow> parsed_object \<Rightarrow> prog_header \<Rightarrow> bool" where
  "vspan_ok os fl parsed ph \<longleftrightarrow>
     ph_Filesz ph \<le> ph_Memsz ph \<and> unat (ph_Memsz ph) < 2 ^ 62 \<and>
     unat (ph_Vaddr ph) mod unat (os_pagesize os) = unat (ph_Off ph) mod unat (os_pagesize os) \<and>
     unat (ph_Off ph) + unat (ph_Filesz ph) \<le> length fl \<and>
     BaseVAddr parsed \<le> pageDown os (ph_Vaddr ph) \<and>
     unat (pageDown os (ph_Vaddr ph) - BaseVAddr parsed) + unat (memSpan os ph) \<le> unat (MemSize parsed)"

definition loadable :: "os \<Rightarrow> bytes \<Rightarrow> parsed_object \<Rightarrow> bool" where
  "loadable os fl parsed \<longleftrightarrow>
     unat (MemSize parsed) < 2 ^ 62 \<and> list_all (vspan_ok os fl parsed) (LoadSegments parsed) \<and>
     sorted_wrt (segment_apart os 0 parsed) (LoadSegments parsed)"

text \<open>The kernel gives user mappings addresses in the lower half of the address space.\<close>

definition low_maps :: "os \<Rightarrow> bool" where
  "low_maps os \<longleftrightarrow>
     (\<forall>len prot flags fd off m b m'. os_mmap os 0 len prot flags fd off m = (Ok b, m') \<longrightarrow>
        flags AND MapFixedFlag = 0 \<longrightarrow> unat len < 2 ^ 62 \<longrightarrow> unat b + pages os len < 2 ^ 63)"

lemma loadable_at:
  assumes ok: "loadable os fl parsed" and b: "b \<noteq> 0" "unat b + unat (MemSize parsed) < 2 ^ 63"
  shows "list_all (\<lambda>ph. mappable os fl (mapStart os b parsed ph) ph) (LoadSegments parsed)"
    and "sorted_wrt (segment_apart os b parsed) (LoadSegments parsed)"
    and "\<And>ph. ph \<in> set (LoadSegments parsed) \<Longrightarrow> \<exists>i. mapStart os b parsed ph = b + of_nat i \<and>
           i + unat (memSpan os ph) \<le> unat (MemSize parsed)"
proof -
  let ?o = "\<lambda>ph. pageDown os (ph_Vaddr ph) - BaseVAddr parsed"
  have in_span: "unat (?o ph) + unat (memSpan os ph) \<le> unat (MemSize parsed)" if "ph \<in> set (LoadSegments parsed)" for ph
    using ok that by (simp add: loadable_def list_all_iff vspan_ok_def)
  have u: "unat (mapStart os b parsed ph) = unat b + unat (?o ph)" if "ph \<in> set (LoadSegments parsed)" for ph
    unfolding mapStart_def using in_span[OF that] b(2) by (intro unat_add_no_wrap) simp
  have ub: "0 < unat b" using b(1) by (simp add: unat_gt_0)
  show "list_all (\<lambda>ph. mappable os fl (mapStart os b parsed ph) ph) (LoadSegments parsed)"
    unfolding list_all_iff
  proof
    fix ph
    assume ph: "ph \<in> set (LoadSegments parsed)"
    have "mapStart os b parsed ph \<noteq> 0" using u[OF ph] ub by (metis add_is_0 less_numeral_extra(3) unat_0)
    moreover have "unat (mapStart os b parsed ph) + unat (memSpan os ph) < 2 ^ 63"
      using u[OF ph] in_span[OF ph] b(2) by simp
    ultimately show "mappable os fl (mapStart os b parsed ph) ph"
      using ok ph by (simp add: loadable_def list_all_iff vspan_ok_def mappable_def)
  qed
  have "sorted_wrt (segment_apart os 0 parsed) (LoadSegments parsed)" using ok by (simp add: loadable_def)
  then show "sorted_wrt (segment_apart os b parsed) (LoadSegments parsed)"
    by (rule sorted_wrt_mono_rel[rotated]) (auto simp: apart_def u mapStart_def[of os 0])
  show "\<exists>i. mapStart os b parsed ph = b + of_nat i \<and> i + unat (memSpan os ph) \<le> unat (MemSize parsed)"
    if "ph \<in> set (LoadSegments parsed)" for ph
    using in_span[OF that] by (intro exI[of _ "unat (?o ph)"]) (simp add: mapStart_def)
qed

text \<open>The memory is as it was: the same mappings with the same protections and contents.\<close>

definition released :: "memory \<Rightarrow> memory \<Rightarrow> bool" where
  "released m m' \<longleftrightarrow> mprot m' = mprot m \<and> (\<forall>x. mprot m x \<noteq> None \<longrightarrow> mbytes m' x = mbytes m x)"

lemma Unmap_releases:
  assumes os: "munmap_ok os" and free: "region_prot b (pages os len) None m" and so: "same_outside b (pages os len) m m1"
    and call: "Unmap os b len m1 = (q, m2)"
  shows "returns q \<and> same_outside b (pages os len) m m2 \<and> ((\<exists>e. os_munmap os b len m1 = (Err e, m1)) \<or> released m m2)"
  using os call
proof (cases rule: Unmap_cases)
  case ok
  have "mprot m2 x = mprot m x" for x
    using free so ok by (cases "in_region b (pages os len) x") (simp_all add: region_prot_def same_outside_def)
  moreover have "mbytes m2 x = mbytes m x" if "mprot m x \<noteq> None" for x
    using free so ok that by (cases "in_region b (pages os len) x") (simp_all add: region_prot_def same_outside_def)
  ultimately show ?thesis using ok same_outside_trans[OF so] by (auto simp: released_def)
next
  case (failed e)
  then show ?thesis using so by auto
qed

lemma orElse_run:
  "orElse c h s = (r, u) \<longleftrightarrow>
     (\<exists>e t q. c s = (Err e, t) \<and> h t = (q, u) \<and>
        r = (case q of Ok _ \<Rightarrow> Err e | Err _ \<Rightarrow> Err e | Panic p \<Rightarrow> Panic p | Hang \<Rightarrow> Hang)) \<or>
     (c s = (r, u) \<and> (\<nexists>e. r = Err e))"
  by (auto simp: orElse_def split: prod.splits result.splits)

lemma orElse_eq_Ok: "orElse m k s = (Ok x, t) \<longleftrightarrow> m s = (Ok x, t)"
  by (auto simp: orElse_def split: prod.splits result.splits)

text \<open>The reservation: fresh, low, and only its own pages change.\<close>

lemma reserve_cases:
  assumes os: "mmap_ok os file" and low: "low_maps os" and len: "unat len < 2 ^ 62"
    and call: "MapAnon os len ProtNone m = (r, m')"
  shows "(\<exists>e. r = Err e) \<and> m' = m \<or>
    (\<exists>b. r = Ok b \<and> b \<noteq> 0 \<and> unat b + pages os len < 2 ^ 63 \<and> region_prot b (pages os len) None m \<and>
       same_outside b (pages os len) m m')"
proof -
  have map: "Map os 0 len 0 (2 OR 0x20) (- 1) 0 m = (r, m')" using call by (simp add: MapAnon_def)
  from os map show ?thesis
  proof (cases rule: Map_cases)
    case (mapped b)
    have "os_mmap os 0 len 0 (2 OR 0x20) (- 1) 0 m = (Ok b, m')"
      using map mapped(1) by (auto simp: Map_def mapErrS_def split: prod.splits)
    from low[unfolded low_maps_def, rule_format, OF this _ len] mapped show ?thesis by auto
  next
    case (failed e)
    then show ?thesis by simp
  qed
qed

text \<open>The object before it is populated.\<close>

abbreviation (input) mappedObject :: "os \<Rightarrow> parsed_object \<Rightarrow> u64 \<Rightarrow> loaded_object" where
  "mappedObject os parsed b \<equiv>
     (newObject parsed b)\<lparr>Segments := map (\<lambda>ph. segmentOf os (mapStart os b parsed ph) ph) (LoadSegments parsed)\<rparr>"

lemma newObject_simps:
  "Base (newObject parsed b) = b" "Parsed (newObject parsed b) = parsed" "Symbols (newObject parsed b) = NewTable b"
  by (simp_all add: newObject_def)

lemma mapSegments_reserved:
  assumes os: "os_ok os file" and ok: "loadable os (file fd) parsed"
    and b: "b \<noteq> 0" "unat b + pages os (MemSize parsed) < 2 ^ 63"
    and call: "mapSegments os fd parsed (newObject parsed b) m = (r, m')"
  shows "same_outside b (pages os (MemSize parsed)) m m' \<and> ((\<exists>e. r = Err e) \<or>
    (\<exists>obj. r = Ok obj \<and> obj = mappedObject os parsed b \<and>
       list_all (\<lambda>ph. segment_image os (file fd) (mapStart os b parsed ph) ph m') (LoadSegments parsed)))"
proof -
  let ?n = "pages os (MemSize parsed)"
  have pg: "pagesize_ok os" using os by (simp add: os_ok_def)
  have n: "unat (MemSize parsed) \<le> ?n" by (rule pages_ge[OF pg])
  have b': "unat b + unat (MemSize parsed) < 2 ^ 63" using b(2) n by simp
  have B: "Base (newObject parsed b) = b" by (simp add: newObject_def)
  note im = mapSegment_forS[OF os call[unfolded mapSegments_def], unfolded B, OF loadable_at(1,2)[OF ok b(1) b']]
  have "outside_segments os b parsed (LoadSegments parsed) x" if out: "\<not> in_region b ?n x" for x
    unfolding list_all_iff
  proof (intro ballI notI)
    fix ph
    assume ph: "ph \<in> set (LoadSegments parsed)" and inr: "in_region (mapStart os b parsed ph) (unat (memSpan os ph)) x"
    obtain i where i: "mapStart os b parsed ph = b + of_nat i" "i + unat (memSpan os ph) \<le> unat (MemSize parsed)"
      using loadable_at(3)[OF ok b(1) b' ph] by blast
    have "i + unat (memSpan os ph) \<le> ?n" "?n \<le> 18446744073709551616" using i(2) n b(2) by simp_all
    from in_region_sub[OF inr i(1) this] out show False by simp
  qed
  with im show ?thesis by (auto simp: same_outside_def newObject_def)
qed

lemma populate_or_unmap:
  assumes os: "munmap_ok os" and free: "region_prot b (pages os len) None (w_mem w0)"
    and so: "same_outside b (pages os len) (w_mem w0) (w_mem w)"
    and call: "orElse c (onMem (Unmap os b len)) w = (r, w')"
    and keep: "\<And>q t. c w = (q, t) \<Longrightarrow> same_outside b (pages os len) (w_mem w0) (w_mem t)"
  shows "same_outside b (pages os len) (w_mem w0) (w_mem w') \<and>
    (case r of Err _ \<Rightarrow> released (w_mem w0) (w_mem w') \<or>
                       (\<exists>e. os_munmap os b len (w_mem w') = (Err e, w_mem w'))
     | _ \<Rightarrow> c w = (r, w'))"
  using call[unfolded orElse_run]
proof (elim disjE exE conjE)
  fix e t q
  assume c: "c w = (Err e, t)" and h: "onMem (Unmap os b len) t = (q, w')"
    and r: "r = (case q of Ok _ \<Rightarrow> Err e | Err _ \<Rightarrow> Err e | Panic p \<Rightarrow> Panic p | Hang \<Rightarrow> Hang)"
  have u: "Unmap os b len (w_mem t) = (q, w_mem w')"
    using h by (auto simp: onMem_def split: prod.splits)
  from Unmap_releases[OF os free keep[OF c] u] have R: "returns q" "same_outside b (pages os len) (w_mem w0) (w_mem w')"
    "(\<exists>e. os_munmap os b len (w_mem t) = (Err e, w_mem t)) \<or> released (w_mem w0) (w_mem w')" by blast+
  have "w_mem t = w_mem w'" if "os_munmap os b len (w_mem t) = (Err k, w_mem t)" for k
    using that u by (simp add: Unmap_def mapErrS_def)
  with R r show ?thesis by (cases q) auto
next
  assume "c w = (r, w')" "\<nexists>e. r = Err e"
  with keep show ?thesis by (auto split: result.split)
qed

text \<open>The two stages behind the reservation \<open>b\<close>.\<close>

lemma map_stage:
  assumes os: "os_ok os file" and ok: "loadable os (file fd) parsed"
    and b: "b \<noteq> 0" "unat b + pages os (MemSize parsed) < 2 ^ 63"
    and free: "region_prot b (pages os (MemSize parsed)) None (w_mem w0)"
    and so: "same_outside b (pages os (MemSize parsed)) (w_mem w0) (w_mem w)"
    and call: "orElse (onMem (mapSegments os fd parsed (newObject parsed b))) (onMem (Unmap os b (MemSize parsed))) w = (r, w')"
  shows "same_outside b (pages os (MemSize parsed)) (w_mem w0) (w_mem w') \<and>
    (case r of
       Ok obj \<Rightarrow> obj = mappedObject os parsed b \<and>
         list_all (\<lambda>ph. segment_image os (file fd) (mapStart os b parsed ph) ph (w_mem w')) (LoadSegments parsed)
     | Err _ \<Rightarrow> released (w_mem w0) (w_mem w') \<or> (\<exists>e. os_munmap os b (MemSize parsed) (w_mem w') = (Err e, w_mem w'))
     | _ \<Rightarrow> False)"
proof -
  let ?map = "onMem (mapSegments os fd parsed (newObject parsed b))"
  have mu: "munmap_ok os" using os by (simp add: os_ok_def)
  obtain q2 m2 where mapd: "mapSegments os fd parsed (newObject parsed b) (w_mem w) = (q2, m2)" by fastforce
  note im = mapSegments_reserved[OF os ok b mapd]
  have run: "?map w = (q2, w\<lparr>w_mem := m2\<rparr>)" by (simp add: onMem_def mapd)
  have keep: "same_outside b (pages os (MemSize parsed)) (w_mem w0) (w_mem t)" if "?map w = (q, t)" for q t
    using that im same_outside_trans[OF so] by (auto simp: run)
  have "same_outside b (pages os (MemSize parsed)) (w_mem w0) (w_mem w') \<and>
    (case r of Err _ \<Rightarrow> released (w_mem w0) (w_mem w') \<or>
                       (\<exists>e. os_munmap os b (MemSize parsed) (w_mem w') = (Err e, w_mem w'))
     | _ \<Rightarrow> ?map w = (r, w'))"
    by (rule populate_or_unmap[OF mu free so call]) (rule keep)
  with im run show ?thesis by (auto split: result.splits)
qed

lemma populate_stage:
  assumes os: "os_ok os file" and free: "region_prot b (pages os len) None (w_mem w0)"
    and so: "same_outside b (pages os len) (w_mem w0) (w_mem w)"
    and call: "orElse (populateObject os parsed obj) (onMem (Unmap os b len)) w = (r, w')"
  shows "same_outside b (pages os len) (w_mem w0) (w_mem w') \<and>
    (case r of
       Ok obj' \<Rightarrow> populateObject os parsed obj w = (Ok obj', w') \<and> Base obj' = Base obj \<and> Segments obj' = Segments obj \<and> w_mem w' = w_mem w
     | Err _ \<Rightarrow> released (w_mem w0) (w_mem w') \<or> (\<exists>e. os_munmap os b len (w_mem w') = (Err e, w_mem w'))
     | _ \<Rightarrow> True)"
proof -
  have mu: "munmap_ok os" using os by (simp add: os_ok_def)
  have kp: "w_mem t = w_mem w" if "populateObject os parsed obj w = (q, t)" for q t
    by (rule keepsD[OF populateObject_mem refl that])
  have keep: "same_outside b (pages os len) (w_mem w0) (w_mem t)" if "populateObject os parsed obj w = (q, t)" for q t
    unfolding kp[OF that] by (rule so)
  have X: "same_outside b (pages os len) (w_mem w0) (w_mem w') \<and>
    (case r of Err _ \<Rightarrow> released (w_mem w0) (w_mem w') \<or>
                       (\<exists>e. os_munmap os b len (w_mem w') = (Err e, w_mem w'))
     | _ \<Rightarrow> populateObject os parsed obj w = (r, w'))"
    by (rule populate_or_unmap[OF mu free so call]) (rule keep)
  show ?thesis
  proof (cases r)
    case (Ok obj')
    with X have run: "populateObject os parsed obj w = (Ok obj', w')" by simp
    from X Ok run kp[OF run] populateObject_place[OF run] show ?thesis by (simp add: same_place_def)
  qed (use X in auto)
qed

lemma createAndMapObject_cases:
  assumes "os_ok os file" and "low_maps os" and "loadable os (file fd) parsed"
    and "createAndMapObject os parsed fd w = (r, w')"
  shows "case r of
      Ok obj \<Rightarrow>
        region_prot (Base obj) (pages os (MemSize parsed)) None (w_mem w) \<and>
        same_outside (Base obj) (pages os (MemSize parsed)) (w_mem w) (w_mem w') \<and>
        Segments obj = map (\<lambda>ph. segmentOf os (mapStart os (Base obj) parsed ph) ph) (LoadSegments parsed) \<and>
        list_all (\<lambda>ph. segment_image os (file fd) (mapStart os (Base obj) parsed ph) ph (w_mem w')) (LoadSegments parsed) \<and>
        Base obj \<noteq> 0 \<and> unat (Base obj) + pages os (MemSize parsed) < 2 ^ 63 \<and>
        (\<exists>w1. populateObject os parsed (mappedObject os parsed (Base obj)) w1 = (Ok obj, w') \<and> w_mem w' = w_mem w1)
    | Err _ \<Rightarrow> released (w_mem w) (w_mem w') \<or>
        (\<exists>b e. os_munmap os b (MemSize parsed) (w_mem w') = (Err e, w_mem w'))
    | _ \<Rightarrow> \<exists>b. region_prot b (pages os (MemSize parsed)) None (w_mem w) \<and>
        same_outside b (pages os (MemSize parsed)) (w_mem w) (w_mem w')"
proof -
  let ?n = "pages os (MemSize parsed)"
  have mm: "mmap_ok os file" and mu: "munmap_ok os" using assms(1) by (simp_all add: os_ok_def)
  have len: "unat (MemSize parsed) < 2 ^ 62" using assms(3) by (simp add: loadable_def)
  obtain r1 m1 where res: "MapAnon os (MemSize parsed) ProtNone (w_mem w) = (r1, m1)" by fastforce
  from reserve_cases[OF mm assms(2) len res] show ?thesis
  proof (elim disjE exE conjE)
    fix e
    assume "r1 = Err e" "m1 = w_mem w"
    with assms(4) res show ?thesis
      by (auto simp: createAndMapObject_def bindS_def mapErrS_def onMem_def released_def)
  next
    fix b
    assume r1: "r1 = Ok b" and b: "b \<noteq> 0" "unat b + ?n < 2 ^ 63" and free: "region_prot b ?n None (w_mem w)"
      and so: "same_outside b ?n (w_mem w) m1"
    let ?undo = "onMem (Unmap os b (MemSize parsed))"
    let ?map = "orElse (onMem (mapSegments os fd parsed (newObject parsed b))) ?undo"
    obtain r2 w2 where two: "?map (w\<lparr>w_mem := m1\<rparr>) = (r2, w2)" by fastforce
    have so1: "same_outside b ?n (w_mem w) (w_mem (w\<lparr>w_mem := m1\<rparr>))" using so by simp
    note step2 = map_stage[OF assms(1,3) b free so1 two]
    have whole: "(r, w') = bindS (\<lambda>_. (r2, w2)) (\<lambda>obj. orElse (populateObject os parsed obj) ?undo) w"
      using assms(4) res r1 two by (simp add: createAndMapObject_def bindS_def mapErrS_def onMem_def[of "MapAnon os (MemSize parsed) 0"])
    show ?thesis
    proof (cases r2)
      case (Ok obj)
      have three: "orElse (populateObject os parsed obj) ?undo w2 = (r, w')"
        using whole Ok by (simp add: bindS_def)
      have so2: "same_outside b ?n (w_mem w) (w_mem w2)" using step2 by blast
      from populate_stage[OF assms(1) free so2 three] step2 Ok free b show ?thesis
        by (cases r) (auto simp: newObject_simps)
    qed (use whole step2 free in \<open>auto simp: bindS_def\<close>)
  qed
qed


section \<open>The TLS template\<close>

text \<open>When addresses start at 0, any segment that covers the template gives the address it was mapped at.\<close>

lemma findTLSLoop_address:
  assumes "BaseVAddr parsed = 0" and "segs = map (\<lambda>ph. segmentOf os (mapStart os b parsed ph) ph) phs"
    and "list_ex (\<lambda>ph. ph_Vaddr ph \<le> ph_Vaddr tls \<and> ph_Vaddr tls < ph_Vaddr ph + ph_Memsz ph) phs"
  shows "findTLSLoop os parsed tls segs phs = Ok (b + ph_Vaddr tls)"
  using assms
  by (induction phs arbitrary: segs)
    (auto simp: calculateTLSDataAddress_def segmentOf_def mapStart_def Let_def)

lemma vspan_end:
  assumes pg: "pagesize_ok os" and ok: "vspan_ok os fl parsed ph" and base: "BaseVAddr parsed = 0"
    and ms: "unat (MemSize parsed) < 2 ^ 62"
  shows "unat (ph_Vaddr ph) + unat (ph_Memsz ph) < 2 ^ 62"
    and "ph_Vaddr ph = pageDown os (ph_Vaddr ph) + of_nat (leading os ph)"
proof -
  let ?d = "pageDown os (ph_Vaddr ph)"
  have m: "unat (ph_Memsz ph) < 2 ^ 62" using ok by (simp add: vspan_ok_def)
  note M = span[OF pg m, of "ph_Vaddr ph", folded memSpan_def leading_def]
  show v: "ph_Vaddr ph = ?d + of_nat (leading os ph)"
    using leading_word[OF pg, of "ph_Vaddr ph"] by (simp add: leading_def algebra_simps)
  have "unat (ph_Vaddr ph) = unat ?d + leading os ph"
    unfolding unat_pageDown[OF pg] leading_def by simp
  moreover have "unat ?d + unat (memSpan os ph) \<le> unat (MemSize parsed)" using ok base by (simp add: vspan_ok_def)
  ultimately show "unat (ph_Vaddr ph) + unat (ph_Memsz ph) < 2 ^ 62" using M(3) ms by simp
qed

text \<open>Where the template lies in its segment.\<close>

definition tls_in :: "prog_header \<Rightarrow> prog_header \<Rightarrow> bool" where
  "tls_in tls ph \<longleftrightarrow>
     0 < ph_Filesz tls \<and> ph_Vaddr ph \<le> ph_Vaddr tls \<and>
     unat (ph_Vaddr tls) + unat (ph_Filesz tls) \<le> unat (ph_Vaddr ph) + unat (ph_Filesz ph) \<and>
     unat (ph_Off tls) + unat (ph_Vaddr ph) = unat (ph_Off ph) + unat (ph_Vaddr tls)"

lemma setupTLS_Ok:
  assumes "setupTLS os parsed obj w = (Ok obj', w')" and "TLSSeg parsed = Some tls"
  obtains md d where "findTLSInitData os obj parsed tls = Ok d" "TLSModule obj' = Some md" "md \<in> set (w_modules w')"
    "mod_Size md = ph_Memsz tls" "mod_FileSize md = ph_Filesz tls" "mod_InitData md = d"
proof -
  from assms obtain d md where d: "findTLSInitData os obj parsed tls = Ok d"
    and reg: "RegisterModule (ph_Memsz tls) (ph_Align tls) (ph_Filesz tls) d w = (Ok md, w')"
    and obj': "obj' = obj\<lparr>TLSModule := Some md\<rparr>"
    by (auto simp: setupTLS_def st_Ok)
  from reg show thesis
    by (intro that[OF d, of md]) (auto simp: RegisterModule_def Let_def obj' split: if_splits)
qed

lemma populateObject_tls:
  assumes "populateObject os parsed obj w = (Ok obj', w')"
  obtains obj1 where "setupTLS os parsed obj1 w = (Ok obj', w')" "Segments obj1 = Segments obj"
  using assms
  by (auto simp: populateObject_def st_Ok readMem_run Let_def same_place_def
      dest!: populateDynamicTags_place initializeSymbolTable_place)

text \<open>
  C4: The initial data of thread-local storage. For a file whose addresses start at 0 and whose \<open>PT_TLS\<close>
  template lies in the data of a loadable segment, the module \<open>createAndMapObject\<close> registers points at the
  template's bytes in the mapped image: they are the bytes the file has at the template's offset. So a block
  made from the module starts as the file says.
\<close>

theorem createAndMapObject_tls_template:
  assumes "os_ok os file" and "low_maps os" and "loadable os (file fd) parsed"
    and "BaseVAddr parsed = 0" and "TLSSeg parsed = Some tls" and "list_ex (tls_in tls) (LoadSegments parsed)"
    and "createAndMapObject os parsed fd w = (Ok obj, w')"
  shows "\<exists>md. TLSModule obj = Some md \<and> md \<in> set (w_modules w') \<and> mod_Size md = ph_Memsz tls \<and>
    mod_FileSize md = ph_Filesz tls \<and> mod_InitData md = Base obj + ph_Vaddr tls \<and>
    peek (w_mem w') (mod_InitData md) (unat (ph_Filesz tls)) = take (unat (ph_Filesz tls)) (drop (unat (ph_Off tls)) (file fd))"
proof -
  have pg: "pagesize_ok os" using assms(1) by (simp add: os_ok_def)
  have len: "unat (MemSize parsed) < 2 ^ 62" using assms(3) by (simp add: loadable_def)
  note C = createAndMapObject_cases[OF assms(1-3,7), unfolded result.case]
  obtain obj1 w1 where pop: "populateObject os parsed obj1 w1 = (Ok obj, w')"
    and segs: "Segments obj1 = map (\<lambda>ph. segmentOf os (mapStart os (Base obj) parsed ph) ph) (LoadSegments parsed)"
    using C by auto
  obtain ph where ph: "ph \<in> set (LoadSegments parsed)" and inn: "tls_in tls ph"
    using assms(6) by (auto simp: list_ex_iff)
  have vs: "vspan_ok os (file fd) parsed ph" using assms(3) ph by (simp add: loadable_def list_all_iff)
  note E = vspan_end[OF pg vs assms(4) len]
  have fz: "unat (ph_Filesz ph) \<le> unat (ph_Memsz ph)" and fl: "unat (ph_Off ph) + unat (ph_Filesz ph) \<le> length (file fd)"
    using vs by (simp_all add: vspan_ok_def word_le_nat_alt)
  have tv: "unat (ph_Vaddr ph) \<le> unat (ph_Vaddr tls)" "0 < unat (ph_Filesz tls)"
    "unat (ph_Vaddr tls) + unat (ph_Filesz tls) \<le> unat (ph_Vaddr ph) + unat (ph_Filesz ph)"
    "unat (ph_Off tls) + unat (ph_Vaddr ph) = unat (ph_Off ph) + unat (ph_Vaddr tls)"
    using inn by (simp_all add: tls_in_def word_le_nat_alt unat_gt_0 word_neq_0_conv)
  have up: "unat (ph_Vaddr ph + ph_Memsz ph) = unat (ph_Vaddr ph) + unat (ph_Memsz ph)"
    using E(1) by (intro unat_add_no_wrap) simp
  have "list_ex (\<lambda>ph. ph_Vaddr ph \<le> ph_Vaddr tls \<and> ph_Vaddr tls < ph_Vaddr ph + ph_Memsz ph) (LoadSegments parsed)"
    using ph tv up fz by (auto simp: list_ex_iff word_le_nat_alt word_less_nat_alt intro!: bexI[of _ ph])
  note addr = findTLSLoop_address[OF assms(4) _ this]
  obtain obj2 where tl: "setupTLS os parsed obj2 w1 = (Ok obj, w')" and s2: "Segments obj2 = Segments obj1"
    using pop by (rule populateObject_tls)
  obtain md d where md: "findTLSInitData os obj2 parsed tls = Ok d" "TLSModule obj = Some md" "md \<in> set (w_modules w')"
    "mod_Size md = ph_Memsz tls" "mod_FileSize md = ph_Filesz tls" "mod_InitData md = d"
    using tl assms(5) by (rule setupTLS_Ok)
  have nz: "ph_Filesz tls \<noteq> 0" using inn by (auto simp: tls_in_def)
  have d: "d = Base obj + ph_Vaddr tls"
    using md(1) addr[OF segs[folded s2]] nz by (simp add: findTLSInitData_def)
  let ?a = "mapStart os (Base obj) parsed ph"
  have "segment_image os (file fd) ?a ph (w_mem w')" using C ph by (simp add: list_all_iff)
  then have img: "\<And>i. i < unat (ph_Filesz ph) \<Longrightarrow> mbytes (w_mem w') (?a + of_nat (leading os ph + i)) = file fd ! (unat (ph_Off ph) + i)"
    by (simp add: segment_image_def)
  define k where "k = unat (ph_Vaddr tls) - unat (ph_Vaddr ph)"
  have "ph_Vaddr tls = ph_Vaddr ph + of_nat k" using tv(1) by (simp add: of_nat_diff k_def)
  then have t: "ph_Vaddr tls = (pageDown os (ph_Vaddr ph) + of_nat (leading os ph)) + of_nat k"
    unfolding E(2)[symmetric] .
  have at: "Base obj + ph_Vaddr tls + of_nat i = ?a + of_nat (leading os ph + (k + i))" for i
    by (simp add: t mapStart_def assms(4))
  have k: "k + unat (ph_Filesz tls) \<le> unat (ph_Filesz ph)" "unat (ph_Off ph) + k = unat (ph_Off tls)"
    using tv by (simp_all add: k_def)
  have "mbytes (w_mem w') (d + of_nat i) = file fd ! (unat (ph_Off tls) + i)" if "i < unat (ph_Filesz tls)" for i
    unfolding d at using img[of "k + i"] that k by (simp add: add.assoc[symmetric])
  then have "peek (w_mem w') d (unat (ph_Filesz tls)) = take (unat (ph_Filesz tls)) (drop (unat (ph_Off tls)) (file fd))"
    using k fl by (intro nth_equalityI) (simp_all add: peek_def)
  with md d show ?thesis by blast
qed

section \<open>A concrete library\<close>

definition demoTemplate :: prog_header where
  "demoTemplate = \<lparr>ph_Type = 7, ph_Flags = 4, ph_Off = 4094, ph_Vaddr = 0x1FFE, ph_Filesz = 1, ph_Memsz = 8, ph_Align = 8\<rparr>"

definition demoTlsLib :: parsed_object where
  "demoTlsLib = demoTwo\<lparr>DynEntries := Map.empty, TLSSeg := Some demoTemplate\<rparr>"

definition emptyMem :: memory where
  "emptyMem = \<lparr>mbytes = \<lambda>_. 0, mprot = \<lambda>_. None\<rparr>"

lemma demoOs_low: "low_maps (demoOs fl)"
proof -
  have "unat b + pages4096 len < 2 ^ 63"
    if c: "demoMmap fl 0 len prot flags fd off m = (Ok b, m')" "flags AND MapFixedFlag = 0" "unat len < 2 ^ 62"
    for len prot flags fd off m b m'
  proof -
    have "b \<in> set [0x100000, 0x200000, 0x300000, 0x400000]"
      using c by (auto simp: demoMmap_def Let_def find_Some_iff split: if_splits option.splits dest: find_Some_iff[THEN iffD1])
    then have "unat b \<le> 0x400000" by auto
    moreover have "pages4096 len \<le> 2 ^ 62 + 4096" using c(3) by (simp add: pages4096_def)
    ultimately show ?thesis by simp
  qed
  then show ?thesis by (simp add: low_maps_def)
qed

lemma demoTlsLib_loadable: "loadable (demoOs demoFile) demoFile demoTlsLib"
  by (simp add: loadable_def vspan_ok_def demoTlsLib_def demoTwo_def demoText_def demoData_def demoFile_def mapStart_def
      memSpan_def pageUp_def pageDown_def apart_def)

lemma module_limit_one: "\<not> 65536 \<le> (1 :: u64)"
  by (simp add: word_le_nat_alt)

lemma demoTlsLib_maps:
  "case createAndMapObject (demoOs demoFile) demoTlsLib 3 (initialWorld emptyMem) of (Ok obj, w) \<Rightarrow> Base obj = 0x100000 | _ \<Rightarrow> False"
proof -
  have free: "freeAt \<lparr>mbytes = \<lambda>_. 0, mprot = \<lambda>_. None\<rparr> a n" for a n by (simp add: freeAt_def list_all_iff)
  show ?thesis
    by (simp add: createAndMapObject_def initialWorld_def onMem_def MapAnon_def Map_def demoMmap_def free
        orElse_def mapSegments_def demoTlsLib_def demoTwo_def mapSegment_def Let_def pageDown_def pageUp_def demoText_def demoData_def
        elfProt_def computeMapProt_def mapFileRegion_def mapBSSRegion_def mapBSSTail_def zeroBSSPage_def zeroMem_def st_defs
        MapFixed_def newObject_def unsafeSlice_def pages4096_def storeS_def wr_bytes_def all_writable_def writable_def
        mapRegion_def in_region_def populateObject_def readMem_def loadS_def populateDynamicTags_def populateRelocationTags_def
        populateSymbolTags_def extractRelocationAddresses_def ifTag_def validateRelocationTables_def populateInitFiniTags_def
        populateInitTags_def populateFiniTags_def populateSoname_def initializeSymbolTable_def computeSymbolTableSize_def
        loadVersionInfo_def setupTLS_def demoTemplate_def findTLSInitData_def calculateTLSDataAddress_def RegisterModule_def
        emptyMem_def module_limit_one)
qed


theorem createAndMapObject_tls_template_witness:
  "\<exists>obj w' md. createAndMapObject (demoOs demoFile) demoTlsLib 3 (initialWorld emptyMem) = (Ok obj, w') \<and>
     TLSModule obj = Some md \<and> mod_InitData md = 0x101FFE \<and> peek (w_mem w') 0x101FFE 1 = [8]"
proof -
  obtain r w' where run: "createAndMapObject (demoOs demoFile) demoTlsLib 3 (initialWorld emptyMem) = (r, w')" by fastforce
  with demoTlsLib_maps obtain obj where r: "r = Ok obj" "Base obj = 0x100000" by (auto split: result.splits)
  have "BaseVAddr demoTlsLib = 0" "TLSSeg demoTlsLib = Some demoTemplate" "list_ex (tls_in demoTemplate) (LoadSegments demoTlsLib)"
    by (simp_all add: demoTlsLib_def demoTwo_def tls_in_def demoTemplate_def demoData_def demoText_def)
  note th = createAndMapObject_tls_template[OF demoOs_ok demoOs_low demoTlsLib_loadable this run[unfolded r]]
  have f: "unat (ph_Filesz demoTemplate) = 1" "unat (ph_Off demoTemplate) = 4094" "ph_Vaddr demoTemplate = 0x1FFE"
    by (simp_all add: demoTemplate_def)
  have "take 1 (drop 4094 demoFile) = [8]" by (simp add: demoFile_def)
  with th run r f show ?thesis by auto
qed

text \<open>
  The template of a library linked at a nonzero base. \<open>findTLSInitData\<close> adds the base to segment
  addresses that already contain it. So when all addresses of the library lie in \<open>[B, 2 * B)\<close> for its base
  \<open>B\<close>, no segment is found to hold the template, and the module is registered without initial data although
  the file has some.
\<close>

theorem tls_template_lost:
  assumes "TLSSeg parsed = Some tls" and "length (Segments obj) \<le> length (LoadSegments parsed)"
    and "unat (ph_Vaddr tls) < 2 * unat (BaseVAddr parsed)" and "2 * unat (BaseVAddr parsed) < 2 ^ 63"
    and "list_all (\<lambda>ph. BaseVAddr parsed \<le> ph_Vaddr ph \<and> unat (ph_Vaddr ph) < 2 * unat (BaseVAddr parsed)) (LoadSegments parsed)"
    and "setupTLS os parsed obj w = (Ok obj', w')"
  shows "\<exists>md. TLSModule obj' = Some md \<and> mod_InitData md = 0"
proof -
  have miss: "\<not> BaseVAddr parsed + ph_Vaddr ph \<le> ph_Vaddr tls" if "ph \<in> set (LoadSegments parsed)" for ph
  proof -
    have le: "unat (BaseVAddr parsed) \<le> unat (ph_Vaddr ph)" "unat (ph_Vaddr ph) < 2 * unat (BaseVAddr parsed)"
      using assms(5) that by (simp_all add: list_all_iff word_le_nat_alt)
    have "unat (BaseVAddr parsed + ph_Vaddr ph) = unat (BaseVAddr parsed) + unat (ph_Vaddr ph)"
      using le assms(4) by (intro unat_add_no_wrap) simp
    then show ?thesis using le assms(3) by (simp add: word_le_nat_alt)
  qed
  have loop: "findTLSLoop os parsed tls segs phs = Ok 0"
    if "length segs \<le> length phs" "set phs \<subseteq> set (LoadSegments parsed)" for segs phs
    using that
  proof (induction phs arbitrary: segs)
    case Nil
    then show ?case by simp
  next
    case (Cons ph phs)
    then show ?case using miss[of ph] by (cases segs) (auto simp: Let_def)
  qed
  obtain md d where "findTLSInitData os obj parsed tls = Ok d" "TLSModule obj' = Some md" "mod_InitData md = d"
    using assms(6,1) by (rule setupTLS_Ok)
  with loop[OF assms(2) order_refl] show ?thesis by (auto simp: findTLSInitData_def split: if_splits)
qed

definition demoHigh :: parsed_object where
  "demoHigh = demoTlsLib\<lparr>BaseVAddr := 0x400000, LoadSegments := [demoData\<lparr>ph_Vaddr := 0x401FFD\<rparr>],
     TLSSeg := Some (demoTemplate\<lparr>ph_Vaddr := 0x401FFE\<rparr>)\<rparr>"

theorem tls_template_lost_witness:
  "\<exists>obj' w' md. setupTLS (demoOs demoFile) demoHigh
       (newObject demoHigh 0x100000 \<lparr>Segments := [segmentOf (demoOs demoFile) 0x101000 (demoData\<lparr>ph_Vaddr := 0x401FFD\<rparr>)]\<rparr>)
       (initialWorld emptyMem) = (Ok obj', w') \<and>
     TLSModule obj' = Some md \<and> mod_InitData md = 0 \<and> mod_FileSize md = 1"
proof -
  let ?obj = "newObject demoHigh 0x100000 \<lparr>Segments := [segmentOf (demoOs demoFile) 0x101000 (demoData\<lparr>ph_Vaddr := 0x401FFD\<rparr>)]\<rparr>"
  obtain r w' where run: "setupTLS (demoOs demoFile) demoHigh ?obj (initialWorld emptyMem) = (r, w')" by fastforce
  have "\<exists>obj'. r = Ok obj' \<and> map_option mod_FileSize (TLSModule obj') = Some 1"
    using run by (auto simp: setupTLS_def demoHigh_def demoTlsLib_def demoTemplate_def st_defs findTLSInitData_def newObject_def
        demoTwo_def Let_def RegisterModule_def initialWorld_def demoData_def module_limit_one)
  then obtain obj' where r: "r = Ok obj'" "map_option mod_FileSize (TLSModule obj') = Some 1" by blast
  have "\<exists>md. TLSModule obj' = Some md \<and> mod_InitData md = 0"
    by (rule tls_template_lost[OF _ _ _ _ _ run[unfolded r], of "demoTemplate\<lparr>ph_Vaddr := 0x401FFE\<rparr>"])
      (simp_all add: demoHigh_def demoTlsLib_def demoTemplate_def demoData_def)
  with run r show ?thesis by auto
qed

end
