(* ===== verification/Reloc_Symbols.thy ===== *)
theory Reloc_Symbols
  imports Loader_Populate
begin

text \<open>
  \<open>loader/reloc.go\<close> and the symbol resolution of \<open>loader/loader.go\<close>. \<open>SymbolResolver\<close> is a record of its
  two methods, calls on the whole state because a resolver may run native code; a nil interface is
  \<open>None\<close>. The errors of a resolver are never looked at, so they carry nothing. The two entry points of
  \<open>loader/call.go\<close> hand an address to purego, a parameter: native code may change the state, raise a panic
  or not return.
\<close>

unbundle bit_operations_syntax

record resolver =
  rs_Resolve :: "string \<Rightarrow> (world, unit, u64) st"
  rs_ResolveWithLibrary :: "string \<Rightarrow> (world, unit, u64 \<times> loaded_object option) st"

record native =
  nt_call :: "u64 \<Rightarrow> (world, unit, unit) st"
  nt_ifunc :: "u64 \<Rightarrow> (world, unit, u64) st"

text \<open>A native call has no error to return: what is not a value is a panic or no return.\<close>

definition nativeS :: "('s, unit, 'a) st \<Rightarrow> ('s, 'e, 'a) st" where
  "nativeS c = (\<lambda>s. case c s of (r, t) \<Rightarrow>
     (case r of Ok x \<Rightarrow> Ok x | Err _ \<Rightarrow> Panic NativePanic | Panic p \<Rightarrow> Panic p | Hang \<Rightarrow> Hang, t))"

definition callFunc :: "native \<Rightarrow> u64 \<Rightarrow> (world, 'e, unit) st" where
  "callFunc nt addr = nativeS (nt_call nt addr)"

definition CallIfuncResolver :: "native \<Rightarrow> u64 \<Rightarrow> (world, 'e, u64) st" where
  "CallIfuncResolver nt addr = nativeS (nt_ifunc nt addr)"

text \<open>Native code that does nothing, for examples: an IFUNC resolver that answers its own address.\<close>

definition demoNative :: native where
  "demoNative = \<lparr>nt_call = (\<lambda>a w. (Ok (), w)), nt_ifunc = (\<lambda>a w. (Ok a, w))\<rparr>"

text \<open>A call whose error is dropped: \<open>None\<close> where it failed.\<close>

definition attempt :: "('s, 'e, 'a) st \<Rightarrow> ('s, 'f, 'a option) st" where
  "attempt c = (\<lambda>s. case c s of (r, t) \<Rightarrow>
     (case r of Ok x \<Rightarrow> Ok (Some x) | Err _ \<Rightarrow> Ok None | Panic p \<Rightarrow> Panic p | Hang \<Rightarrow> Hang, t))"

section \<open>The symbol a relocation names\<close>

definition getSymbolEntry :: "loaded_object \<Rightarrow> u32 \<Rightarrow> u64 option" where
  "getSymbolEntry obj idx =
     (if idx = 0 \<or> SymtabAddr obj = 0 then None
      else let symCount = SymtabSize obj div 24
           in if ucast idx \<ge> symCount then None else Some (SymtabAddr obj + ucast idx * 24))"

definition symName :: "memory \<Rightarrow> loaded_object \<Rightarrow> u32 \<Rightarrow> ('e, string) result" where
  "symName m obj idx =
     (if StrtabAddr obj = 0 then Ok []
      else case getSymbolEntry obj idx of
             None \<Rightarrow> Ok []
           | Some s \<Rightarrow> bindR (rd32 m s) (\<lambda>name. ReadCStringMem m (StrtabAddr obj) (ucast name) (StrtabSize obj)))"

definition symBind :: "memory \<Rightarrow> loaded_object \<Rightarrow> u32 \<Rightarrow> ('e, u8) result" where
  "symBind m obj idx =
     (case getSymbolEntry obj idx of
        None \<Rightarrow> Ok 0
      | Some s \<Rightarrow> bindR (rd8 m (s + 4)) (\<lambda>info. Ok (drop_bit 4 info)))"

definition symAddress :: "memory \<Rightarrow> loaded_object \<Rightarrow> u32 \<Rightarrow> ('e, u64) result" where
  "symAddress m obj idx =
     (case getSymbolEntry obj idx of
        None \<Rightarrow> Ok 0
      | Some s \<Rightarrow> rd64 m (s + 8))"

definition isWeakSymbol :: "memory \<Rightarrow> loaded_object \<Rightarrow> u32 \<Rightarrow> ('e, bool) result" where
  "isWeakSymbol m obj symIdx = bindR (symBind m obj symIdx) (\<lambda>b. Ok (b = 2))"

section \<open>Resolution\<close>

definition tryLocalSymbolLookup :: "loaded_object \<Rightarrow> string \<Rightarrow> u64 option" where
  "tryLocalSymbolLookup obj name = map_option sym_Value (Lookup (Symbols obj) name)"

definition tryExternalResolve :: "resolver option \<Rightarrow> string \<Rightarrow> (world, loader_error, u64 option) st" where
  "tryExternalResolve rs name =
     (case rs of None \<Rightarrow> retS None | Some r \<Rightarrow> attempt (rs_Resolve r name))"

definition resolveSymForReloc :: "loaded_object \<Rightarrow> u32 \<Rightarrow> resolver option \<Rightarrow> (world, loader_error, u64) st" where
  "resolveSymForReloc obj symIdx rs =
     (if symIdx = 0 then retS 0
      else bindS (readMem (\<lambda>m. symName m obj symIdx)) (\<lambda>name.
             if name = [] then retS 0
             else case tryLocalSymbolLookup obj name of
                    Some addr \<Rightarrow> retS addr
                  | None \<Rightarrow> bindS (tryExternalResolve rs name) (\<lambda>ext.
                      case ext of
                        Some addr \<Rightarrow> retS addr
                      | None \<Rightarrow> bindS (readMem (\<lambda>m. isWeakSymbol m obj symIdx)) (\<lambda>weak.
                          if weak then retS 0 else failS (UndefinedSymbol name)))))"

definition resolveTLSSymbolLocal :: "loaded_object \<Rightarrow> u32 \<Rightarrow> string \<Rightarrow> (world, loader_error, u64) st" where
  "resolveTLSSymbolLocal obj symIdx relocType =
     bindS (readMem (\<lambda>m. symName m obj symIdx)) (\<lambda>name.
       if name = [] then retS 0
       else case Lookup (Symbols obj) name of
              None \<Rightarrow> failS (TLSSymbolNotFound relocType name)
            | Some s \<Rightarrow> retS (sym_Value s - Base obj))"

definition resolveTLSSymbolValue ::
    "loaded_object \<Rightarrow> u32 \<Rightarrow> resolver option \<Rightarrow> string \<Rightarrow> (world, loader_error, u64) st" where
  "resolveTLSSymbolValue obj symIdx rs relocType =
     (if symIdx = 0 then retS 0
      else bindS (attempt (resolveSymForReloc obj symIdx rs)) (\<lambda>S.
             case S of
               None \<Rightarrow> resolveTLSSymbolLocal obj symIdx relocType
             | Some S \<Rightarrow> retS (S - Base obj)))"

definition selectTLSModule :: "loaded_object \<Rightarrow> loaded_object option \<Rightarrow> u64 \<Rightarrow> tls_module option \<times> i64" where
  "selectTLSModule obj providerObj addr =
     (case providerObj of
        Some p \<Rightarrow>
          if TLSModule p \<noteq> None then (TLSModule p, addr - Base p)
          else if TLSModule obj \<noteq> None then (TLSModule obj, addr - Base obj)
          else (None, 0)
      | None \<Rightarrow>
          if TLSModule obj \<noteq> None then (TLSModule obj, addr - Base obj) else (None, 0))"

text \<open>The weak test of the failure branch has the same result either way; it loads the symbol's entry.\<close>

definition resolveTLSModuleAndOffset ::
    "loaded_object \<Rightarrow> u32 \<Rightarrow> resolver option \<Rightarrow> (world, loader_error, tls_module option \<times> i64) st" where
  "resolveTLSModuleAndOffset obj symIdx rs =
     (if symIdx = 0 then retS (TLSModule obj, 0)
      else bindS (readMem (\<lambda>m. symName m obj symIdx)) (\<lambda>name.
             if name = [] then retS (TLSModule obj, 0)
             else case rs of
                    None \<Rightarrow> liftS (Panic NilPointer)
                  | Some r \<Rightarrow> bindS (attempt (rs_ResolveWithLibrary r name)) (\<lambda>ext.
                      case ext of
                        Some (addr, providerObj) \<Rightarrow> retS (selectTLSModule obj providerObj addr)
                      | None \<Rightarrow> bindS (readMem (\<lambda>m. isWeakSymbol m obj symIdx)) (\<lambda>weak.
                          if weak then retS (None, 0) else retS (None, 0)))))"

section \<open>Resolution over a linked symbol table\<close>

text \<open>
  The tables as a linker lays them out: the entries \<open>syms\<close> are in memory, the object's size is theirs, and
  \<open>nm\<close> gives the names the string table holds at their offsets.
\<close>

definition symtab_in :: "memory \<Rightarrow> loaded_object \<Rightarrow> elf64sym list \<Rightarrow> (u32 \<Rightarrow> string) \<Rightarrow> bool" where
  "symtab_in m obj syms nm \<longleftrightarrow>
     SymtabAddr obj \<noteq> 0 \<and> StrtabAddr obj \<noteq> 0 \<and> unat (SymtabSize obj) div 24 = length syms \<and>
     length syms < 2 ^ 32 \<and> holds m (SymtabAddr obj) (concat (map encSym syms)) \<and>
     list_all (\<lambda>e. ReadCStringMem m (StrtabAddr obj) (ucast (st_name e)) (StrtabSize obj) =
       (Ok (nm (st_name e)) :: (loader_error, string) result)) syms"

lemma ucast_index: "i < 2 ^ 32 \<Longrightarrow> ucast (of_nat i :: u32) = (of_nat i :: u64)"
proof -
  assume "i < 2 ^ 32"
  then have "unat (of_nat i :: u32) = i" by (simp add: unat_of_nat)
  then show ?thesis by (metis of_nat_unat)
qed

lemma getSymbolEntry_in:
  assumes "symtab_in m obj syms nm" and "0 < i" and "i < length syms"
  shows "getSymbolEntry obj (of_nat i) = Some (SymtabAddr obj + of_nat (i * 24))"
    and "holds m (SymtabAddr obj + of_nat (i * 24)) (encSym (syms ! i))"
proof -
  have i32: "i < 2 ^ 32" using assms by (simp add: symtab_in_def)
  have u: "unat (of_nat i :: u32) = i" using i32 by (simp add: unat_of_nat)
  have nz: "(of_nat i :: u32) \<noteq> 0" using u assms(2) by auto
  note c = ucast_index[OF i32]
  have "unat (SymtabSize obj div 24) = length syms" using assms(1) by (simp add: symtab_in_def unat_div)
  then have "\<not> of_nat i \<ge> SymtabSize obj div 24"
    using i32 assms(3) by (simp add: word_le_nat_alt unat_of_nat64 not_le)
  then show "getSymbolEntry obj (of_nat i) = Some (SymtabAddr obj + of_nat (i * 24))"
    using assms(1) nz by (simp add: getSymbolEntry_def symtab_in_def c Let_def)
  show "holds m (SymtabAddr obj + of_nat (i * 24)) (encSym (syms ! i))"
    using assms(1,3) by (intro holds_concat) (auto simp: symtab_in_def)
qed

lemma sym_reads:
  assumes "symtab_in m obj syms nm" and "0 < i" and "i < length syms"
  shows "symName m obj (of_nat i) = (Ok (nm (st_name (syms ! i))) :: (loader_error, string) result)"
    and "isWeakSymbol m obj (of_nat i) = (Ok (drop_bit 4 (st_info (syms ! i)) = 2) :: (loader_error, bool) result)"
    and "symAddress m obj (of_nat i) = (Ok (st_value (syms ! i)) :: (loader_error, u64) result)"
proof -
  note f = encSym_fields[OF getSymbolEntry_in(2)[OF assms], simplified]
  have g: "getSymbolEntry obj (of_nat i) = Some (SymtabAddr obj + of_nat i * 24)"
    using getSymbolEntry_in(1)[OF assms] by simp
  show "symName m obj (of_nat i) = (Ok (nm (st_name (syms ! i))) :: (loader_error, string) result)"
    using assms(1,3) by (simp add: symName_def g f symtab_in_def list_all_iff)
  show "isWeakSymbol m obj (of_nat i) = (Ok (drop_bit 4 (st_info (syms ! i)) = 2) :: (loader_error, bool) result)"
    by (simp add: isWeakSymbol_def symBind_def g f)
  show "symAddress m obj (of_nat i) = (Ok (st_value (syms ! i)) :: (loader_error, u64) result)"
    by (simp add: symAddress_def g f)
qed

text \<open>A resolver that does not touch the memory.\<close>

definition quiet :: "resolver \<Rightarrow> bool" where
  "quiet rs \<longleftrightarrow> (\<forall>name w. w_mem (snd (rs_Resolve rs name w)) = w_mem w)"

definition undefinedAs :: "elf64sym \<Rightarrow> string \<Rightarrow> (loader_error, u64) result" where
  "undefinedAs e name = (if drop_bit 4 (st_info e) = 2 then Ok 0 else Err (UndefinedSymbol name))"

text \<open>The order of resolution as the format has it.\<close>

definition resolveSpec ::
    "loaded_object \<Rightarrow> elf64sym \<Rightarrow> string \<Rightarrow> resolver option \<Rightarrow> (world, loader_error, u64) st" where
  "resolveSpec obj e name rs w =
     (if name = [] then (Ok 0, w)
      else case Lookup (Symbols obj) name of
             Some s \<Rightarrow> (Ok (sym_Value s), w)
           | None \<Rightarrow>
              (case rs of
                 None \<Rightarrow> (undefinedAs e name, w)
               | Some r \<Rightarrow> (case rs_Resolve r name w of (q, w') \<Rightarrow>
                   (case q of Ok a \<Rightarrow> Ok a | Err _ \<Rightarrow> undefinedAs e name | Panic p \<Rightarrow> Panic p | Hang \<Rightarrow> Hang, w'))))"

text \<open>
  C7: Symbol resolution follows the symbol table. For a linked symbol table in memory, the symbol of a
  relocation resolves by its name: a definition of the object itself wins and the resolver is not
  asked; then the resolver's answer; a symbol neither has is 0 when it is weak and an error naming it
  otherwise. Index 0 and indices past the table name no symbol and resolve to 0.
\<close>

theorem resolveSymForReloc_order:
  assumes "symtab_in (w_mem w) obj syms nm" and "pred_option quiet rs" and "i < 2 ^ 32"
  shows "resolveSymForReloc obj (of_nat i) rs w =
    (if 0 < i \<and> i < length syms then resolveSpec obj (syms ! i) (nm (st_name (syms ! i))) rs w else (Ok 0, w))"
proof (cases "0 < i \<and> i < length syms")
  case True
  then have i: "0 < i" "i < length syms" by simp_all
  have nz: "(of_nat i :: u32) \<noteq> 0" using i assms(3) by (auto simp: word_unat_eq_iff unat_of_nat)
  note reads = sym_reads[OF assms(1) i]
  have weak: "isWeakSymbol (w_mem w') obj (of_nat i) =
      (Ok (drop_bit 4 (st_info (syms ! i)) = 2) :: (loader_error, bool) result)" if "w_mem w' = w_mem w" for w'
    using reads(2) that by simp
  have q: "w_mem w' = w_mem w" if "rs = Some r" "rs_Resolve r (nm (st_name (syms ! i))) w = (x, w')" for r x w'
    using assms(2) that by (simp add: quiet_def) (metis snd_conv)
  show ?thesis
    using True nz reads(1,2)
    by (auto simp: resolveSymForReloc_def resolveSpec_def undefinedAs_def st_defs readMem_run tryLocalSymbolLookup_def
        tryExternalResolve_def attempt_def weak dest: q split: option.split prod.split result.split)
next
  case False
  then have "getSymbolEntry obj (of_nat i) = None"
  proof (cases "i = 0")
    case i0: False
    have "unat (SymtabSize obj div 24) = length syms" using assms(1) by (simp add: symtab_in_def unat_div)
    moreover have "unat (ucast (of_nat i :: u32) :: u64) = i"
      using assms(3) by (simp add: ucast_index[OF assms(3)] unat_of_nat64)
    ultimately show ?thesis using False i0 by (simp add: getSymbolEntry_def Let_def word_le_nat_alt)
  qed (simp add: getSymbolEntry_def)
  then show ?thesis using False by (auto simp: resolveSymForReloc_def symName_def st_defs readMem_run)
qed

definition demoUser :: loaded_object where
  "demoUser = (newObject demoTwo 0x5000)\<lparr>SymtabAddr := 0x1000, SymtabSize := 72, StrtabAddr := 0x104E, StrtabSize := 3\<rparr>"

definition demoResolver :: resolver where
  "demoResolver = \<lparr>rs_Resolve = (\<lambda>name w. (if name = ''f'' then Ok 0x7000 else Err (), w)),
     rs_ResolveWithLibrary = (\<lambda>name w. (Err (), w))\<rparr>"

lemma demoUser_symtab: "symtab_in demoSymMem demoUser demoSyms (\<lambda>n. if n = 1 then ''f'' else [])"
proof -
  have "holds demoSymMem 0x104E [0, ord CHR ''f'', 0]"
    using demoSym_holds by (simp add: demoSymBytes_def demoSyms_def demoVersym_def holds_append)
  from holds_take[OF this, of 1] have "holds demoSymMem 0x104E [0]" by simp
  then have "ReadCStringMem demoSymMem 0x104E (ucast (0 :: u32)) 3 = (Ok [] :: (loader_error, string) result)"
    by (intro ReadCStringMem_holds) simp_all
  moreover have "ReadCStringMem demoSymMem 0x104E (ucast (1 :: u32)) 3 = (Ok ''f'' :: (loader_error, string) result)"
    using demoSym_parts(3) by (intro ReadCStringMem_holds) simp_all
  ultimately show ?thesis
    using demoSym_parts(1) by (simp add: symtab_in_def demoUser_def demoSyms_def)
qed

theorem resolveSymForReloc_order_witness:
  "resolveSymForReloc demoUser 2 (Some demoResolver) (initialWorld demoSymMem) = (Ok 0x7000, initialWorld demoSymMem)"
proof -
  have i: "w_mem (initialWorld demoSymMem) = demoSymMem" by (simp add: initialWorld_def)
  have q: "pred_option quiet (Some demoResolver)" by (simp add: quiet_def demoResolver_def)
  show ?thesis
    using resolveSymForReloc_order[of "initialWorld demoSymMem", unfolded i, OF demoUser_symtab q, of 2]
    by (simp add: demoSyms_def resolveSpec_def demoUser_def newObject_def NewTable_def Lookup_def demoResolver_def)
qed

text \<open>
  A symbol table that lies behind its string table. \<open>computeSymbolTableSize\<close> takes the distance from the
  symbol table to the string table for its size, and 0 where the string table comes first. Every relocation
  against a symbol of such a library then resolves to address 0 without an error.
\<close>

theorem unsized_symtab_resolves_to_zero:
  assumes "StrtabAddr obj \<le> SymtabAddr obj" and "initializeSymbolTable m dyn base obj = Ok obj'"
  shows "resolveSymForReloc obj' i rs w = (Ok 0, w)"
proof -
  have z: "computeSymbolTableSize dyn (SymtabAddr obj) (StrtabAddr obj) = 0"
    using assms(1) by (simp add: computeSymbolTableSize_def not_less[symmetric])
  have "SymtabSize obj' = 0"
    using assms(2) by (auto simp: initializeSymbolTable_def z loadVersionInfo_def Let_def split: if_splits)
  then have "getSymbolEntry obj' i = None" by (simp add: getSymbolEntry_def)
  then show ?thesis by (simp add: resolveSymForReloc_def symName_def st_defs readMem_run)
qed

text \<open>Reading a table of zeros finds no symbol.\<close>

definition zeroMemory :: memory where
  "zeroMemory = \<lparr>mbytes = \<lambda>_. 0, mprot = \<lambda>_. Some 1\<rparr>"

lemma zero_reads:
  "rd32 zeroMemory a = Ok 0" "rd64 zeroMemory a = Ok 0"
proof -
  have rb: "rd_bytes zeroMemory a n = Ok (replicate n 0)" for n
  proof -
    have "find (\<lambda>i. \<not> readable zeroMemory (a + of_nat i)) [0..<n] = None"
      by (simp add: find_None_iff readable_def zeroMemory_def)
    then show ?thesis by (simp add: rd_bytes_def peek_def zeroMemory_def map_replicate_const)
  qed
  show "rd32 zeroMemory a = Ok 0" "rd64 zeroMemory a = Ok 0"
    by (simp_all add: rd32_def rd64_def rb le_word_def numeral_eq_Suc)
qed

theorem unsized_symtab_resolves_to_zero_witness:
  "\<exists>obj'. initializeSymbolTable zeroMemory [DT_SYMENT \<mapsto> 24, DT_STRSZ \<mapsto> 3] 0x5000 (demoUser\<lparr>SymtabAddr := 0x2000\<rparr>) = Ok obj' \<and>
     resolveSymForReloc obj' 2 (Some demoResolver) (initialWorld zeroMemory) = (Ok 0, initialWorld zeroMemory)"
proof -
  let ?obj = "demoUser\<lparr>SymtabAddr := 0x2000\<rparr>"
  let ?step = "\<lambda>i. loadSymbolEntry zeroMemory 0x2000 0x104E (of_nat i) 3"
  have "?step i t = Ok t" for i t
    by (simp add: loadSymbolEntry_def shouldProcessSymbol_def zero_reads Let_def)
  then have "\<exists>t'. forR ?step [0..<4096] (Symbols ?obj) = Ok t' \<and> True"
    by (intro forR_total) simp_all
  then obtain obj' where "initializeSymbolTable zeroMemory [DT_SYMENT \<mapsto> 24, DT_STRSZ \<mapsto> 3] 0x5000 ?obj = Ok obj'"
    by (auto simp: initializeSymbolTable_def computeSymbolTableSize_def loadVersionInfo_def LoadFromDynamic_def
        computeSymtabSize_def demoUser_def)
  moreover have "StrtabAddr ?obj \<le> SymtabAddr ?obj" by (simp add: demoUser_def)
  ultimately show ?thesis using unsized_symtab_resolves_to_zero by blast
qed

end
