(* ===== verification/Reloc_Codes.thy ===== *)
theory Reloc_Codes
  imports Prelude
begin

text \<open>
  The relocation types of \<open>loader/reloc_amd64.go\<close> and \<open>loader/reloc_arm64.go\<close>: the constants by their names, and the
  codes the loader uses, each file's block of \<open>reloc...\<close> constants. The names are written without the prefixes
  \<open>R_X86_64_\<close> and \<open>R_AARCH64_\<close> that all of them have.
\<close>

section \<open>The constants\<close>

definition amd64Types :: "(string \<times> u32) list" where
  "amd64Types = [
    (''NONE'', 0), (''64'', 1), (''PC32'', 2), (''GOT32'', 3), (''PLT32'', 4), (''COPY'', 5), (''GLOB_DAT'', 6),
    (''JUMP_SLOT'', 7), (''RELATIVE'', 8), (''GOTPCREL'', 9), (''32'', 10), (''32S'', 11), (''16'', 12),
    (''PC16'', 13), (''8'', 14), (''PC8'', 15), (''DTPMOD64'', 16), (''DTPOFF64'', 17), (''TPOFF64'', 18),
    (''TLSGD'', 19), (''TLSLD'', 20), (''DTPOFF32'', 21), (''GOTTPOFF'', 22), (''TPOFF32'', 23), (''PC64'', 24),
    (''GOTOFF64'', 25), (''GOTPC32'', 26), (''SIZE32'', 32), (''SIZE64'', 33), (''IRELATIVE'', 37)]"

definition arm64Types :: "(string \<times> u32) list" where
  "arm64Types = [
    (''NONE'', 0), (''ABS64'', 257), (''ABS32'', 258), (''ABS16'', 259), (''PREL64'', 260), (''PREL32'', 261),
    (''PREL16'', 262), (''MOVW_UABS_G0'', 263), (''MOVW_UABS_G0_NC'', 264), (''MOVW_UABS_G1'', 265),
    (''MOVW_UABS_G1_NC'', 266), (''MOVW_UABS_G2'', 267), (''MOVW_UABS_G2_NC'', 268), (''MOVW_UABS_G3'', 269),
    (''MOVW_SABS_G0'', 270), (''MOVW_SABS_G1'', 271), (''MOVW_SABS_G2'', 272), (''LD_PREL_LO19'', 273),
    (''ADR_PREL_LO21'', 274), (''ADR_PREL_PG_HI21'', 275), (''ADR_PREL_PG_HI21_NC'', 276),
    (''ADD_ABS_LO12_NC'', 277), (''LDST8_ABS_LO12_NC'', 278), (''TSTBR14'', 279), (''CONDBR19'', 280),
    (''JUMP26'', 282), (''CALL26'', 283), (''LDST16_ABS_LO12_NC'', 284), (''LDST32_ABS_LO12_NC'', 285),
    (''LDST64_ABS_LO12_NC'', 286), (''LDST128_ABS_LO12_NC'', 299), (''ADR_GOT_PAGE'', 311),
    (''LD64_GOT_LO12_NC'', 312), (''LD64_GOTPAGE_LO15'', 313), (''TLSGD_ADR_PREL21'', 512),
    (''TLSGD_ADR_PAGE21'', 513), (''TLSGD_ADD_LO12_NC'', 514), (''TLSGD_MOVW_G1'', 515), (''TLSGD_MOVW_G0_NC'', 516),
    (''TLSLD_ADR_PREL21'', 517), (''TLSLD_ADR_PAGE21'', 518), (''TLSLD_ADD_LO12_NC'', 519), (''TLSLD_MOVW_G1'', 520),
    (''TLSLD_MOVW_G0_NC'', 521), (''TLSLD_LD_PREL19'', 522), (''TLSLD_MOVW_DTPREL_G2'', 523),
    (''TLSLD_MOVW_DTPREL_G1'', 524), (''TLSLD_MOVW_DTPREL_G1_NC'', 525), (''TLSLD_MOVW_DTPREL_G0'', 526),
    (''TLSLD_MOVW_DTPREL_G0_NC'', 527), (''TLSLD_ADD_DTPREL_HI12'', 528), (''TLSLD_ADD_DTPREL_LO12'', 529),
    (''TLSLD_ADD_DTPREL_LO12_NC'', 530), (''TLSLD_LDST8_DTPREL_LO12'', 531), (''TLSLD_LDST8_DTPREL_LO12_NC'', 532),
    (''TLSLD_LDST16_DTPREL_LO12'', 533), (''TLSLD_LDST16_DTPREL_LO12_NC'', 534), (''TLSLD_LDST32_DTPREL_LO12'', 535),
    (''TLSLD_LDST32_DTPREL_LO12_NC'', 536), (''TLSLD_LDST64_DTPREL_LO12'', 537),
    (''TLSLD_LDST64_DTPREL_LO12_NC'', 538), (''TLSIE_MOVW_GOTTPREL_G1'', 539), (''TLSIE_MOVW_GOTTPREL_G0_NC'', 540),
    (''TLSIE_ADR_GOTTPREL_PAGE21'', 541), (''TLSIE_LD64_GOTTPREL_LO12_NC'', 542),
    (''TLSIE_LD_GOTTPREL_PREL19'', 543), (''TLSLE_MOVW_TPREL_G2'', 544), (''TLSLE_MOVW_TPREL_G1'', 545),
    (''TLSLE_MOVW_TPREL_G1_NC'', 546), (''TLSLE_MOVW_TPREL_G0'', 547), (''TLSLE_MOVW_TPREL_G0_NC'', 548),
    (''TLSLE_ADD_TPREL_HI12'', 549), (''TLSLE_ADD_TPREL_LO12'', 550), (''TLSLE_ADD_TPREL_LO12_NC'', 551),
    (''TLSLE_LDST8_TPREL_LO12'', 552), (''TLSLE_LDST8_TPREL_LO12_NC'', 553), (''TLSLE_LDST16_TPREL_LO12'', 554),
    (''TLSLE_LDST16_TPREL_LO12_NC'', 555), (''TLSLE_LDST32_TPREL_LO12'', 556), (''TLSLE_LDST32_TPREL_LO12_NC'', 557),
    (''TLSLE_LDST64_TPREL_LO12'', 558), (''TLSLE_LDST64_TPREL_LO12_NC'', 559), (''TLSDESC_LD_PREL19'', 560),
    (''TLSDESC_ADR_PREL21'', 561), (''TLSDESC_ADR_PAGE21'', 562), (''TLSDESC_LD64_LO12'', 563),
    (''TLSDESC_ADD_LO12'', 564), (''TLSDESC_OFF_G1'', 565), (''TLSDESC_OFF_G0_NC'', 566), (''TLSDESC_LDR'', 567),
    (''TLSDESC_ADD'', 568), (''TLSDESC_CALL'', 569), (''TLSLE_LDST128_TPREL_LO12'', 570),
    (''TLSLE_LDST128_TPREL_LO12_NC'', 571), (''TLSLD_LDST128_DTPREL_LO12'', 572),
    (''TLSLD_LDST128_DTPREL_LO12_NC'', 573), (''COPY'', 1024), (''GLOB_DAT'', 1025), (''JUMP_SLOT'', 1026),
    (''RELATIVE'', 1027), (''TLS_DTPMOD64'', 1028), (''TLS_DTPREL64'', 1029), (''TLS_TPREL64'', 1030),
    (''TLSDESC'', 1031), (''IRELATIVE'', 1032)]"

definition typeCode :: "(string \<times> u32) list \<Rightarrow> string \<Rightarrow> u32" where
  "typeCode types name = the (map_of types name)"

section \<open>The codes of the loader\<close>

text \<open>The codes one architecture gives to the types the loader knows.\<close>

record reloc_codes =
  relocNone :: u32
  relocRelative :: u32
  reloc64 :: u32
  relocGlobDat :: u32
  relocJumpSlot :: u32
  relocCopy :: u32
  reloc32 :: u32
  reloc32S :: u32
  relocPC32 :: u32
  relocPLT32 :: u32
  relocDTPMod64 :: u32
  relocDTPOff64 :: u32
  relocTPOff64 :: u32
  relocDTPOff32 :: u32
  relocTPOff32 :: u32
  relocGOTTPOff :: u32
  relocTLSGD :: u32
  relocTLSLD :: u32
  relocIRelative :: u32

definition amd64Codes :: reloc_codes where
  "amd64Codes = \<lparr>
    relocNone = typeCode amd64Types ''NONE'', relocRelative = typeCode amd64Types ''RELATIVE'',
    reloc64 = typeCode amd64Types ''64'', relocGlobDat = typeCode amd64Types ''GLOB_DAT'',
    relocJumpSlot = typeCode amd64Types ''JUMP_SLOT'', relocCopy = typeCode amd64Types ''COPY'',
    reloc32 = typeCode amd64Types ''32'', reloc32S = typeCode amd64Types ''32S'',
    relocPC32 = typeCode amd64Types ''PC32'', relocPLT32 = typeCode amd64Types ''PLT32'',
    relocDTPMod64 = typeCode amd64Types ''DTPMOD64'', relocDTPOff64 = typeCode amd64Types ''DTPOFF64'',
    relocTPOff64 = typeCode amd64Types ''TPOFF64'', relocDTPOff32 = typeCode amd64Types ''DTPOFF32'',
    relocTPOff32 = typeCode amd64Types ''TPOFF32'', relocGOTTPOff = typeCode amd64Types ''GOTTPOFF'',
    relocTLSGD = typeCode amd64Types ''TLSGD'', relocTLSLD = typeCode amd64Types ''TLSLD'',
    relocIRelative = typeCode amd64Types ''IRELATIVE''\<rparr>"

definition arm64Codes :: reloc_codes where
  "arm64Codes = \<lparr>
    relocNone = typeCode arm64Types ''NONE'', relocRelative = typeCode arm64Types ''RELATIVE'',
    reloc64 = typeCode arm64Types ''ABS64'', relocGlobDat = typeCode arm64Types ''GLOB_DAT'',
    relocJumpSlot = typeCode arm64Types ''JUMP_SLOT'', relocCopy = typeCode arm64Types ''COPY'',
    reloc32 = typeCode arm64Types ''ABS32'', reloc32S = typeCode arm64Types ''ABS16'',
    relocPC32 = typeCode arm64Types ''PREL32'', relocPLT32 = typeCode arm64Types ''PREL16'',
    relocDTPMod64 = typeCode arm64Types ''TLS_DTPMOD64'', relocDTPOff64 = typeCode arm64Types ''TLS_DTPREL64'',
    relocTPOff64 = typeCode arm64Types ''TLS_TPREL64'',
    relocDTPOff32 = typeCode arm64Types ''TLSLD_LDST32_DTPREL_LO12_NC'',
    relocTPOff32 = typeCode arm64Types ''TLSLE_LDST32_TPREL_LO12_NC'',
    relocGOTTPOff = typeCode arm64Types ''TLSIE_LD64_GOTTPREL_LO12_NC'',
    relocTLSGD = typeCode arm64Types ''TLSGD_ADR_PAGE21'', relocTLSLD = typeCode arm64Types ''TLSLD_ADR_PAGE21'',
    relocIRelative = typeCode arm64Types ''IRELATIVE''\<rparr>"

text \<open>As numbers.\<close>

lemma amd64Codes_values:
  "amd64Codes = \<lparr>relocNone = 0, relocRelative = 8, reloc64 = 1, relocGlobDat = 6, relocJumpSlot = 7, relocCopy = 5,
     reloc32 = 10, reloc32S = 11, relocPC32 = 2, relocPLT32 = 4, relocDTPMod64 = 16, relocDTPOff64 = 17,
     relocTPOff64 = 18, relocDTPOff32 = 21, relocTPOff32 = 23, relocGOTTPOff = 22, relocTLSGD = 19, relocTLSLD = 20,
     relocIRelative = 37\<rparr>"
  by code_simp

lemma arm64_data_codes:
  "typeCode arm64Types ''NONE'' = 0"
  "typeCode arm64Types ''RELATIVE'' = 1027"
  "typeCode arm64Types ''ABS64'' = 257"
  "typeCode arm64Types ''GLOB_DAT'' = 1025"
  "typeCode arm64Types ''JUMP_SLOT'' = 1026"
  "typeCode arm64Types ''COPY'' = 1024"
  "typeCode arm64Types ''ABS32'' = 258"
  "typeCode arm64Types ''ABS16'' = 259"
  "typeCode arm64Types ''PREL32'' = 261"
  "typeCode arm64Types ''PREL16'' = 262"
  by code_simp+

lemma arm64_tls_codes:
  "typeCode arm64Types ''TLS_DTPMOD64'' = 1028"
  "typeCode arm64Types ''TLS_DTPREL64'' = 1029"
  "typeCode arm64Types ''TLS_TPREL64'' = 1030"
  "typeCode arm64Types ''TLSLD_LDST32_DTPREL_LO12_NC'' = 536"
  "typeCode arm64Types ''TLSLE_LDST32_TPREL_LO12_NC'' = 557"
  "typeCode arm64Types ''TLSIE_LD64_GOTTPREL_LO12_NC'' = 542"
  "typeCode arm64Types ''TLSGD_ADR_PAGE21'' = 513"
  "typeCode arm64Types ''TLSLD_ADR_PAGE21'' = 518"
  "typeCode arm64Types ''IRELATIVE'' = 1032"
  by code_simp+

lemma arm64Codes_values:
  "arm64Codes = \<lparr>relocNone = 0, relocRelative = 1027, reloc64 = 257, relocGlobDat = 1025, relocJumpSlot = 1026, relocCopy = 1024,
     reloc32 = 258, reloc32S = 259, relocPC32 = 261, relocPLT32 = 262, relocDTPMod64 = 1028, relocDTPOff64 = 1029,
     relocTPOff64 = 1030, relocDTPOff32 = 536, relocTPOff32 = 557, relocGOTTPOff = 542, relocTLSGD = 513, relocTLSLD = 518,
     relocIRelative = 1032\<rparr>"
  by (simp add: arm64Codes_def arm64_data_codes arm64_tls_codes)

text \<open>The types the loader has handlers for.\<close>

definition amd64Handled :: "string list" where
  "amd64Handled = [
    ''NONE'', ''RELATIVE'', ''64'', ''GLOB_DAT'', ''JUMP_SLOT'', ''COPY'', ''32'', ''32S'', ''PC32'', ''PLT32'',
    ''DTPMOD64'', ''DTPOFF64'', ''TPOFF64'', ''DTPOFF32'', ''TPOFF32'', ''GOTTPOFF'', ''TLSGD'', ''TLSLD'',
    ''IRELATIVE'']"

definition arm64Handled :: "string list" where
  "arm64Handled = [
    ''NONE'', ''RELATIVE'', ''ABS64'', ''GLOB_DAT'', ''JUMP_SLOT'', ''COPY'', ''ABS32'', ''ABS16'', ''PREL32'',
    ''PREL16'', ''TLS_DTPMOD64'', ''TLS_DTPREL64'', ''TLS_TPREL64'', ''TLSLD_LDST32_DTPREL_LO12_NC'',
    ''TLSLE_LDST32_TPREL_LO12_NC'', ''TLSIE_LD64_GOTTPREL_LO12_NC'', ''TLSGD_ADR_PAGE21'', ''TLSLD_ADR_PAGE21'',
    ''IRELATIVE'']"

end
