(* ===== verification/Loader_Reloc.thy ===== *)
theory Loader_Reloc
  imports Reloc_Symbols Reloc_Codes
begin

text \<open>
  The relocations of \<open>loader/loader.go\<close>, with the relocation codes of \<open>reloc_amd64.go\<close> and
  \<open>reloc_arm64.go\<close>. A handler works on the state and gives the object back, whose GOT fields two of the
  handlers change. An entry is loaded from its table when its turn comes. The target pointer of an entry is
  an address; \<open>int32(x)\<close> and \<open>uint32(x)\<close> keep the low half.
\<close>

unbundle bit_operations_syntax

record rela_entry =
  rl_Offset :: u64
  rl_Info :: u64
  rl_Addend :: i64

definition relaSymIdx :: "u64 \<Rightarrow> u32" where
  "relaSymIdx info = ucast (drop_bit 32 info)"

definition relaType :: "u64 \<Rightarrow> u32" where
  "relaType info = ucast (info AND 0xffffffff)"

text \<open>Stores to memory.\<close>

definition poke64 :: "u64 \<Rightarrow> u64 \<Rightarrow> (world, loader_error, unit) st" where
  "poke64 a v = onMem (storeS (\<lambda>m. wr64 m a v))"

definition poke32 :: "u64 \<Rightarrow> u32 \<Rightarrow> (world, loader_error, unit) st" where
  "poke32 a v = onMem (storeS (\<lambda>m. wr32 m a v))"

section \<open>Absolute and relative relocations\<close>

definition applyRelative :: "loaded_object \<Rightarrow> u64 \<Rightarrow> i64 \<Rightarrow> (world, loader_error, unit) st" where
  "applyRelative obj offsetPtr addend = poke64 offsetPtr (Base obj + addend)"

definition apply64 ::
    "loaded_object \<Rightarrow> u32 \<Rightarrow> u64 \<Rightarrow> i64 \<Rightarrow> resolver option \<Rightarrow> (world, loader_error, unit) st" where
  "apply64 obj symIdx offsetPtr addend rs =
     bindS (resolveSymForReloc obj symIdx rs) (\<lambda>S. poke64 offsetPtr (S + addend))"

definition applySymbolAddress ::
    "loaded_object \<Rightarrow> u32 \<Rightarrow> u64 \<Rightarrow> resolver option \<Rightarrow> (world, loader_error, unit) st" where
  "applySymbolAddress obj symIdx offsetPtr rs =
     bindS (resolveSymForReloc obj symIdx rs) (\<lambda>S. poke64 offsetPtr S)"

definition applyGlobDat :: "loaded_object \<Rightarrow> u32 \<Rightarrow> u64 \<Rightarrow> resolver option \<Rightarrow> (world, loader_error, unit) st" where
  "applyGlobDat obj symIdx offsetPtr rs = applySymbolAddress obj symIdx offsetPtr rs"

definition applyJumpSlot :: "loaded_object \<Rightarrow> u32 \<Rightarrow> u64 \<Rightarrow> resolver option \<Rightarrow> (world, loader_error, unit) st" where
  "applyJumpSlot obj symIdx offsetPtr rs = applySymbolAddress obj symIdx offsetPtr rs"

definition applyCopy :: "loaded_object \<Rightarrow> u32 \<Rightarrow> u64 \<Rightarrow> resolver option \<Rightarrow> (world, loader_error, unit) st" where
  "applyCopy obj symIdx offsetPtr rs =
     bindS (resolveSymForReloc obj symIdx rs) (\<lambda>S.
     bindS (readMem (\<lambda>m. symName m obj symIdx)) (\<lambda>name.
       case Lookup (Symbols obj) name of
         None \<Rightarrow> failS (CopySymbolNotFound name)
       | Some s \<Rightarrow>
           bindS (liftS (unsafeSlice offsetPtr (sym_Size s) 1)) (\<lambda>_.
           bindS (liftS (unsafeSlice S (sym_Size s) 1)) (\<lambda>_.
             onMem (copyBytes offsetPtr S (sym_Size s))))))"

definition apply32 ::
    "loaded_object \<Rightarrow> u32 \<Rightarrow> u64 \<Rightarrow> i64 \<Rightarrow> resolver option \<Rightarrow> (world, loader_error, unit) st" where
  "apply32 obj symIdx offsetPtr addend rs =
     bindS (resolveSymForReloc obj symIdx rs) (\<lambda>S. poke32 offsetPtr (ucast (S + addend)))"

definition apply32S ::
    "loaded_object \<Rightarrow> u32 \<Rightarrow> u64 \<Rightarrow> i64 \<Rightarrow> resolver option \<Rightarrow> (world, loader_error, unit) st" where
  "apply32S obj symIdx offsetPtr addend rs =
     bindS (resolveSymForReloc obj symIdx rs) (\<lambda>S. poke32 offsetPtr (ucast (S + addend)))"

definition applyPC32 ::
    "loaded_object \<Rightarrow> u32 \<Rightarrow> u64 \<Rightarrow> i64 \<Rightarrow> u64 \<Rightarrow> resolver option \<Rightarrow> (world, loader_error, unit) st" where
  "applyPC32 obj symIdx offsetPtr addend offset rs =
     bindS (resolveSymForReloc obj symIdx rs) (\<lambda>S. poke32 offsetPtr (ucast (S + addend - offset)))"

definition applyIRelative :: "native \<Rightarrow> loaded_object \<Rightarrow> u64 \<Rightarrow> i64 \<Rightarrow> (world, loader_error, unit) st" where
  "applyIRelative nt obj offsetPtr addend =
     (let resolverAddr = Base obj + addend
      in bindS (CallIfuncResolver nt resolverAddr) (\<lambda>resolvedAddr. poke64 offsetPtr resolvedAddr))"

section \<open>Thread-local storage relocations\<close>

definition applyDTPMod64 :: "loaded_object \<Rightarrow> rela_entry \<Rightarrow> u64 \<Rightarrow> (world, loader_error, unit) st" where
  "applyDTPMod64 obj r offsetPtr =
     (case TLSModule obj of
        None \<Rightarrow> failS (NoTLSSegment ''relocDTPMod64'' (rl_Offset r))
      | Some md \<Rightarrow> poke64 offsetPtr (GetModuleID md))"

definition applyDTPOff64 ::
    "loaded_object \<Rightarrow> u32 \<Rightarrow> rela_entry \<Rightarrow> u64 \<Rightarrow> i64 \<Rightarrow> resolver option \<Rightarrow> (world, loader_error, unit) st" where
  "applyDTPOff64 obj symIdx r offsetPtr addend rs =
     (if TLSModule obj = None then failS (NoTLSSegment ''relocDTPOff64'' (rl_Offset r))
      else bindS (resolveTLSSymbolValue obj symIdx rs ''relocDTPOff64'') (\<lambda>symValue.
             poke64 offsetPtr (symValue + addend)))"

definition writeTPOffset :: "os \<Rightarrow> u64 \<Rightarrow> tls_module option \<Rightarrow> i64 \<Rightarrow> i64 \<Rightarrow> (world, loader_error, unit) st" where
  "writeTPOffset os offsetPtr tlsModule symOffsetInModule addend =
     bindS (mapErrS (TLSBlockFailed ''relocTPOff64'') (onMem (AllocateBlock os tlsModule))) (\<lambda>block.
       let offset = GetThreadPointerOffset block;
           offset = offset + symOffsetInModule
       in poke64 offsetPtr (offset + addend))"

definition applyTPOff64 ::
    "os \<Rightarrow> loaded_object \<Rightarrow> u32 \<Rightarrow> rela_entry \<Rightarrow> u64 \<Rightarrow> i64 \<Rightarrow> resolver option \<Rightarrow> (world, loader_error, unit) st" where
  "applyTPOff64 os obj symIdx r offsetPtr addend rs =
     bindS (resolveTLSModuleAndOffset obj symIdx rs) (\<lambda>(tlsModule, symOffsetInModule).
       if tlsModule = None then poke64 offsetPtr 0
       else writeTPOffset os offsetPtr tlsModule symOffsetInModule addend)"

definition applyDTPOff32 ::
    "loaded_object \<Rightarrow> u32 \<Rightarrow> rela_entry \<Rightarrow> u64 \<Rightarrow> i64 \<Rightarrow> resolver option \<Rightarrow> (world, loader_error, unit) st" where
  "applyDTPOff32 obj symIdx r offsetPtr addend rs =
     (if TLSModule obj = None then failS (NoTLSSegment ''relocDTPOff32'' (rl_Offset r))
      else bindS (resolveTLSSymbolValue obj symIdx rs ''relocDTPOff32'') (\<lambda>symValue.
             poke32 offsetPtr (ucast (symValue + addend))))"

definition applyTPOff32 ::
    "os \<Rightarrow> loaded_object \<Rightarrow> u32 \<Rightarrow> rela_entry \<Rightarrow> u64 \<Rightarrow> i64 \<Rightarrow> resolver option \<Rightarrow> (world, loader_error, unit) st" where
  "applyTPOff32 os obj symIdx r offsetPtr addend rs =
     (if TLSModule obj = None then failS (NoTLSSegment ''relocTPOff32'' (rl_Offset r))
      else bindS (mapErrS (TLSBlockFailed ''relocTPOff32'') (onMem (AllocateBlock os (TLSModule obj)))) (\<lambda>block.
        let offset = GetThreadPointerOffset block
        in bindS (if symIdx \<noteq> 0
                  then bindS (attempt (resolveSymForReloc obj symIdx rs)) (\<lambda>S.
                         retS (case S of Some S \<Rightarrow> offset + (S - Base obj) | None \<Rightarrow> offset))
                  else retS offset) (\<lambda>offset.
             poke32 offsetPtr (ucast (offset + addend)))))"

definition applyGottpoff ::
    "os \<Rightarrow> loaded_object \<Rightarrow> rela_entry \<Rightarrow> u32 \<Rightarrow> u64 \<Rightarrow> i64 \<Rightarrow> resolver option \<Rightarrow> (world, loader_error, unit) st" where
  "applyGottpoff os obj r symIdx offsetPtr addend rs =
     (let pcRel = (\<lambda>gotEntry.
            let relocSite = Base obj + rl_Offset r;
                pcRelOffset = gotEntry - relocSite - 4
            in poke32 offsetPtr (ucast (pcRelOffset + addend)))
      in if TLSModule obj = None then failS (NoTLSSegment ''relocGOTTPOff'' (rl_Offset r))
         else if symIdx \<noteq> 0
         then bindS (attempt (resolveSymForReloc obj symIdx rs)) (\<lambda>S.
                case S of
                  Some S \<Rightarrow> pcRel S
                | None \<Rightarrow>
                    bindS (mapErrS (TLSBlockFailed ''relocGOTTPOff'') (onMem (AllocateBlock os (TLSModule obj)))) (\<lambda>block.
                      let tpOff = GetThreadPointerOffset block
                      in poke32 offsetPtr (ucast (tpOff + addend))))
         else pcRel 0)"

section \<open>Entries of the global offset table\<close>

abbreviation (input) gotPageSize :: u64 where "gotPageSize \<equiv> 4096"

definition firstGOTPage :: "os \<Rightarrow> loaded_object \<Rightarrow> (world, loader_error, loaded_object) st" where
  "firstGOTPage os obj =
     (if GOTBase obj = 0
      then bindS (mapErrS GOTSpaceFailed (onMem (MapAnon os gotPageSize (ProtRead OR ProtWrite)))) (\<lambda>addr.
             retS (obj\<lparr>GOTBase := addr, GOTEntries := Map.empty, GOTPages := [addr]\<rparr>))
      else retS obj)"

definition growGOT :: "os \<Rightarrow> loaded_object \<Rightarrow> (world, loader_error, loaded_object) st" where
  "growGOT os obj =
     (let requiredSize = GOTSize obj + 16;
          totalAllocated = of_nat (length (GOTPages obj)) * gotPageSize
      in if requiredSize > totalAllocated
         then bindS (mapErrS GOTPageFailed (onMem (MapAnon os gotPageSize (ProtRead OR ProtWrite)))) (\<lambda>newAddr.
                retS (obj\<lparr>GOTPages := GOTPages obj @ [newAddr]\<rparr>))
         else retS obj)"

definition allocateGOTEntryPair ::
    "os \<Rightarrow> loaded_object \<Rightarrow> u32 \<Rightarrow> (world, loader_error, u64 \<times> loaded_object) st" where
  "allocateGOTEntryPair os obj symIdx =
     (case GOTEntries obj symIdx of
        Some offset \<Rightarrow> retS (GOTBase obj + offset, obj)
      | None \<Rightarrow>
          bindS (firstGOTPage os obj) (\<lambda>obj.
          bindS (growGOT os obj) (\<lambda>obj.
            let offset = GOTSize obj;
                obj = obj\<lparr>GOTEntries := (GOTEntries obj)(symIdx \<mapsto> offset), GOTSize := GOTSize obj + 16\<rparr>;
                pageIndex = offset div gotPageSize;
                pageOffset = offset mod gotPageSize
            in if unat pageIndex < length (GOTPages obj)
               then retS (GOTPages obj ! unat pageIndex + pageOffset, obj)
               else liftS (Panic IndexOutOfRange))))"

definition allocateTLSGotEntry ::
    "os \<Rightarrow> loaded_object \<Rightarrow> u32 \<Rightarrow> string \<Rightarrow> u64 \<Rightarrow> (world, loader_error, u64 \<times> loaded_object) st" where
  "allocateTLSGotEntry os obj symIdx relocName offset =
     bindS (mapErrS (GOTEntryFailed relocName offset) (allocateGOTEntryPair os obj symIdx)) (\<lambda>(gotEntry, obj).
       case TLSModule obj of
         None \<Rightarrow> liftS (Panic NilPointer)
       | Some md \<Rightarrow> bindS (poke64 gotEntry (GetModuleID md)) (\<lambda>_. retS (gotEntry, obj)))"

definition writePCRelativeOffset :: "loaded_object \<Rightarrow> u64 \<Rightarrow> u64 \<Rightarrow> (world, loader_error, unit) st" where
  "writePCRelativeOffset obj offset gotEntry =
     (let relocSite = Base obj + offset;
          pcRelOffset = gotEntry - (relocSite + 4)
      in poke32 relocSite (ucast pcRelOffset))"

definition applyTlsgd :: "os \<Rightarrow> loaded_object \<Rightarrow> rela_entry \<Rightarrow> (world, loader_error, loaded_object) st" where
  "applyTlsgd os obj r =
     (if TLSModule obj = None then failS (NoTLSSegment ''relocTLSGD'' (rl_Offset r))
      else
        let symIdx = ucast (drop_bit 32 (rl_Info r)) :: u32
        in bindS (allocateTLSGotEntry os obj symIdx ''relocTLSGD'' (rl_Offset r)) (\<lambda>(gotEntry, obj).
           bindS (if symIdx \<noteq> 0
                  then bindS (readMem (\<lambda>m. symAddress m obj symIdx)) (\<lambda>symAddr. retS (symAddr + rl_Addend r))
                  else retS (rl_Addend r)) (\<lambda>tlsOffset.
           bindS (poke64 (gotEntry + 8) tlsOffset) (\<lambda>_.
           bindS (writePCRelativeOffset obj (rl_Offset r) gotEntry) (\<lambda>_. retS obj)))))"

abbreviation (input) tlsldMarker :: u32 where "tlsldMarker \<equiv> 0xFFFFFFFF"

definition applyTlsld :: "os \<Rightarrow> loaded_object \<Rightarrow> rela_entry \<Rightarrow> (world, loader_error, loaded_object) st" where
  "applyTlsld os obj r =
     (if TLSModule obj = None then failS (NoTLSSegment ''relocTLSLD'' (rl_Offset r))
      else bindS (allocateTLSGotEntry os obj tlsldMarker ''relocTLSLD'' (rl_Offset r)) (\<lambda>(gotEntry, obj).
           bindS (poke64 (gotEntry + 8) 0) (\<lambda>_.
           bindS (writePCRelativeOffset obj (rl_Offset r) gotEntry) (\<lambda>_. retS obj))))"

section \<open>The dispatch\<close>

record reloc_context =
  rc_obj :: loaded_object
  rc_r :: rela_entry
  rc_symIdx :: u32
  rc_offset :: u64
  rc_addend :: i64
  rc_resolver :: "resolver option"

type_synonym reloc_handler = "reloc_context \<Rightarrow> (world, loader_error, loaded_object) st"

text \<open>A handler that leaves the object as it is.\<close>

definition plain :: "(reloc_context \<Rightarrow> (world, loader_error, unit) st) \<Rightarrow> reloc_handler" where
  "plain h = (\<lambda>ctx. bindS (h ctx) (\<lambda>_. retS (rc_obj ctx)))"

definition relocHandlers :: "os \<Rightarrow> native \<Rightarrow> reloc_codes \<Rightarrow> u32 \<rightharpoonup> reloc_handler" where
  "relocHandlers os nt cd = map_of [
     (relocNone cd, plain (\<lambda>c. retS ())),
     (relocRelative cd, plain (\<lambda>c. applyRelative (rc_obj c) (rc_offset c) (rc_addend c))),
     (reloc64 cd, plain (\<lambda>c. apply64 (rc_obj c) (rc_symIdx c) (rc_offset c) (rc_addend c) (rc_resolver c))),
     (relocGlobDat cd, plain (\<lambda>c. applyGlobDat (rc_obj c) (rc_symIdx c) (rc_offset c) (rc_resolver c))),
     (relocJumpSlot cd, plain (\<lambda>c. applyJumpSlot (rc_obj c) (rc_symIdx c) (rc_offset c) (rc_resolver c))),
     (relocCopy cd, plain (\<lambda>c. applyCopy (rc_obj c) (rc_symIdx c) (rc_offset c) (rc_resolver c))),
     (reloc32 cd, plain (\<lambda>c. apply32 (rc_obj c) (rc_symIdx c) (rc_offset c) (rc_addend c) (rc_resolver c))),
     (reloc32S cd, plain (\<lambda>c. apply32S (rc_obj c) (rc_symIdx c) (rc_offset c) (rc_addend c) (rc_resolver c))),
     (relocPC32 cd, plain (\<lambda>c. applyPC32 (rc_obj c) (rc_symIdx c) (rc_offset c) (rc_addend c) (rc_offset c) (rc_resolver c))),
     (relocPLT32 cd, plain (\<lambda>c. applyPC32 (rc_obj c) (rc_symIdx c) (rc_offset c) (rc_addend c) (rc_offset c) (rc_resolver c))),
     (relocDTPMod64 cd, plain (\<lambda>c. applyDTPMod64 (rc_obj c) (rc_r c) (rc_offset c))),
     (relocDTPOff64 cd, plain (\<lambda>c. applyDTPOff64 (rc_obj c) (rc_symIdx c) (rc_r c) (rc_offset c) (rc_addend c) (rc_resolver c))),
     (relocTPOff64 cd, plain (\<lambda>c. applyTPOff64 os (rc_obj c) (rc_symIdx c) (rc_r c) (rc_offset c) (rc_addend c) (rc_resolver c))),
     (relocDTPOff32 cd, plain (\<lambda>c. applyDTPOff32 (rc_obj c) (rc_symIdx c) (rc_r c) (rc_offset c) (rc_addend c) (rc_resolver c))),
     (relocTPOff32 cd, plain (\<lambda>c. applyTPOff32 os (rc_obj c) (rc_symIdx c) (rc_r c) (rc_offset c) (rc_addend c) (rc_resolver c))),
     (relocGOTTPOff cd, plain (\<lambda>c. applyGottpoff os (rc_obj c) (rc_r c) (rc_symIdx c) (rc_offset c) (rc_addend c) (rc_resolver c))),
     (relocTLSGD cd, \<lambda>c. applyTlsgd os (rc_obj c) (rc_r c)),
     (relocTLSLD cd, \<lambda>c. applyTlsld os (rc_obj c) (rc_r c)),
     (relocIRelative cd, plain (\<lambda>c. applyIRelative nt (rc_obj c) (rc_offset c) (rc_addend c)))]"

definition validateRelaTableSize :: "u64 \<Rightarrow> (loader_error, unit) result" where
  "validateRelaTableSize tableSize = (if tableSize mod 24 \<noteq> 0 then Err (UnalignedRelaTable tableSize) else Ok ())"

definition validateRelocationOffset :: "loaded_object \<Rightarrow> rela_entry \<Rightarrow> (loader_error, unit) result" where
  "validateRelocationOffset obj r =
     (let maxOffset = BaseVAddr (Parsed obj) + MemSize (Parsed obj)
      in if rl_Offset r < BaseVAddr (Parsed obj) \<or> rl_Offset r \<ge> maxOffset then Err (RelocOutOfRange (rl_Offset r))
         else Ok ())"

definition buildRelocContext :: "loaded_object \<Rightarrow> rela_entry \<Rightarrow> resolver option \<Rightarrow> reloc_context" where
  "buildRelocContext obj r rs =
     \<lparr>rc_obj = obj, rc_r = r, rc_symIdx = relaSymIdx (rl_Info r),
      rc_offset = Base obj + (rl_Offset r - BaseVAddr (Parsed obj)), rc_addend = rl_Addend r, rc_resolver = rs\<rparr>"

definition applyRelocation ::
    "os \<Rightarrow> native \<Rightarrow> reloc_codes \<Rightarrow> resolver option \<Rightarrow> rela_entry \<Rightarrow> loaded_object \<Rightarrow> (world, loader_error, loaded_object) st" where
  "applyRelocation os nt cd rs r obj =
     bindS (liftS (validateRelocationOffset obj r)) (\<lambda>_.
       let ctx = buildRelocContext obj r rs;
           relocType = relaType (rl_Info r)
       in case relocHandlers os nt cd relocType of
            None \<Rightarrow> failS (UnknownRelocation relocType (rl_Offset r))
          | Some handler \<Rightarrow> handler ctx)"

definition loadRela :: "memory \<Rightarrow> u64 \<Rightarrow> (loader_error, rela_entry) result" where
  "loadRela m p =
     bindR (rd64 m p) (\<lambda>offset.
     bindR (rd64 m (p + 8)) (\<lambda>info.
     bindR (rd64 m (p + 16)) (\<lambda>addend.
       Ok \<lparr>rl_Offset = offset, rl_Info = info, rl_Addend = addend\<rparr>)))"

definition applyRelaTable ::
    "os \<Rightarrow> native \<Rightarrow> reloc_codes \<Rightarrow> resolver option \<Rightarrow> u64 \<Rightarrow> u64 \<Rightarrow> loaded_object \<Rightarrow> (world, loader_error, loaded_object) st" where
  "applyRelaTable os nt cd rs tableAddr tableSize obj =
     (if tableAddr = 0 \<or> tableSize = 0 then retS obj
      else bindS (liftS (validateRelaTableSize tableSize)) (\<lambda>_.
        let n = tableSize div 24
        in bindS (liftS (unsafeSlice tableAddr n 24)) (\<lambda>_.
             forS (\<lambda>i obj. bindS (readMem (\<lambda>m. loadRela m (tableAddr + of_nat i * 24))) (\<lambda>r.
                             applyRelocation os nt cd rs r obj)) [0..<unat n] obj)))"

definition processRelocations ::
    "os \<Rightarrow> native \<Rightarrow> reloc_codes \<Rightarrow> resolver option \<Rightarrow> loaded_object \<Rightarrow> (world, loader_error, loaded_object) st" where
  "processRelocations os nt cd rs obj =
     bindS (applyRelaTable os nt cd rs (RelaAddr obj) (RelaSize obj) obj) (\<lambda>obj.
       applyRelaTable os nt cd rs (JmpRelAddr obj) (JmpRelSize obj) obj)"

end
