(* ===== verification/Reloc_Abi.thy ===== *)
theory Reloc_Abi
  imports Loader_Reloc
begin

text \<open>
  The relocations of x86-64 against the psABI: what one entry of the data and of the dynamic thread-local relocation
  types writes, and what a whole table leaves in memory.
\<close>

unbundle bit_operations_syntax

section \<open>One entry\<close>

text \<open>The formulas of the psABI: symbol \<open>S\<close>, load bias \<open>B\<close>, addend \<open>A\<close>, place \<open>P\<close>.\<close>

definition abiBytes :: "u32 \<Rightarrow> u64 \<Rightarrow> u64 \<Rightarrow> u64 \<Rightarrow> u64 \<Rightarrow> bytes option" where
  "abiBytes t S B A P =
     (if t = 8 then Some (le_enc 8 (unat (B + A)))
      else if t = 1 then Some (le_enc 8 (unat (S + A)))
      else if t = 6 \<or> t = 7 then Some (le_enc 8 (unat S))
      else if t = 10 \<or> t = 11 then Some (le_enc 4 (unat (S + A) mod 2 ^ 32))
      else if t = 2 \<or> t = 4 then Some (le_enc 4 (unat (S + A - P) mod 2 ^ 32))
      else None)"

text \<open>The thread-local ones: the module's identifier, and \<open>off\<close>, the place of the symbol in the module, plus the addend.\<close>

definition tlsBytes :: "u32 \<Rightarrow> tls_module option \<Rightarrow> u64 \<Rightarrow> u64 \<Rightarrow> bytes option" where
  "tlsBytes t md off A =
     (case md of
        None \<Rightarrow> None
      | Some md \<Rightarrow>
          if t = 16 then Some (le_enc 8 (unat (mod_ID md)))
          else if t = 17 then Some (le_enc 8 (unat (off + A)))
          else if t = 21 then Some (le_enc 4 (unat (off + A) mod 2 ^ 32))
          else None)"

definition place :: "loaded_object \<Rightarrow> rela_entry \<Rightarrow> u64" where
  "place obj r = Base obj + (rl_Offset r - BaseVAddr (Parsed obj))"

definition bias :: "loaded_object \<Rightarrow> u64" where
  "bias obj = Base obj - BaseVAddr (Parsed obj)"

definition put :: "u64 \<Rightarrow> bytes \<Rightarrow> world \<Rightarrow> world" where
  "put a bs w = w\<lparr>w_mem := (w_mem w)\<lparr>mbytes := store (mbytes (w_mem w)) a bs\<rparr>\<rparr>"

lemma onMem_store: "all_writable (w_mem w) a (length bs) \<Longrightarrow>
    onMem (storeS (\<lambda>m. wr_bytes m a bs)) w = (Ok (), put a bs w)"
  by (simp add: onMem_def storeS_Ok put_def)

lemma poke64_Ok: "all_writable (w_mem w) a 8 \<Longrightarrow> poke64 a v w = (Ok (), put a (le_enc 8 (unat v)) w)"
  by (simp add: poke64_def wr64_def onMem_store)

lemma poke32_Ok: "all_writable (w_mem w) a 4 \<Longrightarrow> poke32 a v w = (Ok (), put a (le_enc 4 (unat v)) w)"
  by (simp add: poke32_def wr32_def onMem_store)

lemma unat_low32: "unat (ucast (v :: u64) :: u32) = unat v mod 2 ^ 32"
  by (simp add: unsigned_ucast_eq unsigned_take_bit_eq take_bit_eq_mod)

lemma amd64_handlers:
  "relocHandlers os nt amd64Codes 8 = Some (plain (\<lambda>c. applyRelative (rc_obj c) (rc_offset c) (rc_addend c)))"
  "relocHandlers os nt amd64Codes 1 = Some (plain (\<lambda>c. apply64 (rc_obj c) (rc_symIdx c) (rc_offset c) (rc_addend c) (rc_resolver c)))"
  "relocHandlers os nt amd64Codes 6 = Some (plain (\<lambda>c. applyGlobDat (rc_obj c) (rc_symIdx c) (rc_offset c) (rc_resolver c)))"
  "relocHandlers os nt amd64Codes 7 = Some (plain (\<lambda>c. applyJumpSlot (rc_obj c) (rc_symIdx c) (rc_offset c) (rc_resolver c)))"
  "relocHandlers os nt amd64Codes 10 = Some (plain (\<lambda>c. apply32 (rc_obj c) (rc_symIdx c) (rc_offset c) (rc_addend c) (rc_resolver c)))"
  "relocHandlers os nt amd64Codes 11 = Some (plain (\<lambda>c. apply32S (rc_obj c) (rc_symIdx c) (rc_offset c) (rc_addend c) (rc_resolver c)))"
  "relocHandlers os nt amd64Codes 2 = Some (plain (\<lambda>c. applyPC32 (rc_obj c) (rc_symIdx c) (rc_offset c) (rc_addend c) (rc_offset c) (rc_resolver c)))"
  "relocHandlers os nt amd64Codes 4 = Some (plain (\<lambda>c. applyPC32 (rc_obj c) (rc_symIdx c) (rc_offset c) (rc_addend c) (rc_offset c) (rc_resolver c)))"
  by (simp_all add: relocHandlers_def amd64Codes_values)

lemma tls_handlers:
  "relocHandlers os nt amd64Codes 16 = Some (plain (\<lambda>c. applyDTPMod64 (rc_obj c) (rc_r c) (rc_offset c)))"
  "relocHandlers os nt amd64Codes 17 = Some (plain (\<lambda>c. applyDTPOff64 (rc_obj c) (rc_symIdx c) (rc_r c) (rc_offset c) (rc_addend c) (rc_resolver c)))"
  "relocHandlers os nt amd64Codes 21 = Some (plain (\<lambda>c. applyDTPOff32 (rc_obj c) (rc_symIdx c) (rc_r c) (rc_offset c) (rc_addend c) (rc_resolver c)))"
  by (simp_all add: relocHandlers_def amd64Codes_values)

text \<open>What an entry writes, where \<open>Sf\<close> gives the addresses of the symbols; \<open>tlsOffset\<close> is the symbol's place in the module.\<close>

definition tlsOffset :: "loaded_object \<Rightarrow> (u32 \<Rightarrow> u64) \<Rightarrow> u32 \<Rightarrow> u64" where
  "tlsOffset obj Sf i = (if i = 0 then 0 else Sf i - Base obj)"

definition entryBytes :: "loaded_object \<Rightarrow> (u32 \<Rightarrow> u64) \<Rightarrow> rela_entry \<Rightarrow> bytes option" where
  "entryBytes obj Sf r =
     (let t = relaType (rl_Info r); i = relaSymIdx (rl_Info r)
      in case abiBytes t (Sf i) (bias obj) (rl_Addend r) (place obj r) of
           Some bs \<Rightarrow> Some bs
         | None \<Rightarrow> tlsBytes t (TLSModule obj) (tlsOffset obj Sf i) (rl_Addend r))"

lemma resolveTLS_run:
  assumes "resolveSymForReloc obj i rs w = (Ok (Sf i), w)"
  shows "resolveTLSSymbolValue obj i rs what w = (Ok (tlsOffset obj Sf i), w)"
  using assms by (simp add: resolveTLSSymbolValue_def tlsOffset_def bindS_def retS_def attempt_def)

lemma applyRelocation_tls:
  assumes range: "validateRelocationOffset obj r = Ok ()"
    and bs: "tlsBytes (relaType (rl_Info r)) (TLSModule obj) (tlsOffset obj Sf (relaSymIdx (rl_Info r))) (rl_Addend r) = Some bs"
    and S: "resolveSymForReloc obj (relaSymIdx (rl_Info r)) rs w = (Ok (Sf (relaSymIdx (rl_Info r))), w)"
    and wr: "all_writable (w_mem w) (place obj r) (length bs)"
  shows "applyRelocation os nt amd64Codes rs r obj w = (Ok obj, put (place obj r) bs w)"
proof -
  obtain md where md: "TLSModule obj = Some md" using bs by (auto simp: tlsBytes_def split: option.splits)
  have t: "relaType (rl_Info r) \<in> {16, 17, 21}" using bs md by (auto simp: tlsBytes_def split: if_splits)
  from t bs wr show ?thesis
    by (elim insertE emptyE)
       (auto simp: tlsBytes_def md applyRelocation_def range bindS_def liftS_def Let_def tls_handlers plain_def buildRelocContext_def
         retS_def place_def[symmetric] applyDTPMod64_def applyDTPOff64_def applyDTPOff32_def GetModuleID_def
         resolveTLS_run[where Sf = Sf, OF S] poke64_Ok poke32_Ok unat_low32)
qed

lemma applyRelocation_simple:
  assumes range: "validateRelocationOffset obj r = Ok ()" and base: "BaseVAddr (Parsed obj) = 0"
    and bs: "abiBytes (relaType (rl_Info r)) S (bias obj) (rl_Addend r) (place obj r) = Some bs"
    and S: "resolveSymForReloc obj (relaSymIdx (rl_Info r)) rs w = (Ok S, w)"
    and wr: "all_writable (w_mem w) (place obj r) (length bs)"
  shows "applyRelocation os nt amd64Codes rs r obj w = (Ok obj, put (place obj r) bs w)"
proof -
  have run: "applyRelocation os nt amd64Codes rs r obj w =
      the (relocHandlers os nt amd64Codes (relaType (rl_Info r))) (buildRelocContext obj r rs) w"
    if "relocHandlers os nt amd64Codes (relaType (rl_Info r)) \<noteq> None"
    using that by (auto simp: applyRelocation_def range bindS_def liftS_def Let_def)
  have t: "relaType (rl_Info r) \<in> {8, 1, 6, 7, 10, 11, 2, 4}"
    using bs by (auto simp: abiBytes_def split: if_splits)
  note defs = amd64_handlers plain_def buildRelocContext_def bindS_def retS_def S place_def[symmetric]
    applyRelative_def apply64_def applyGlobDat_def applyJumpSlot_def applySymbolAddress_def apply32_def apply32S_def applyPC32_def
  have B: "Base obj = bias obj" using base by (simp add: bias_def)
  from t bs wr run show ?thesis
    by (elim insertE emptyE) (auto simp: abiBytes_def defs B[symmetric] poke64_Ok poke32_Ok unat_low32)
qed

section \<open>A table of entries\<close>

lemma forS_append: "forS f (as @ bs) x = bindS (forS f as x) (forS f bs)"
proof (induction as arbitrary: x)
  case Nil
  then show ?case by (simp add: bindS_def retS_def)
next
  case (Cons a as)
  have "bindS (bindS m f) g = bindS m (\<lambda>x. bindS (f x) g)" for m :: "('a, 'b, 'c) st" and f :: "'c \<Rightarrow> ('a, 'b, 'c) st"
    and g :: "'c \<Rightarrow> ('a, 'b, 'c) st"
    by (rule ext) (simp add: bindS_def split: prod.split result.split)
  moreover have "forS f (as @ bs) = (\<lambda>x. bindS (forS f as x) (forS f bs))" by (rule ext) (rule Cons.IH)
  ultimately show ?case by simp
qed

text \<open>A counting loop with an invariant of the state.\<close>

lemma forS_counted:
  assumes "P 0 s" and "\<And>i s. i < n \<Longrightarrow> P i s \<Longrightarrow> \<exists>t. f i x s = (Ok x, t) \<and> P (Suc i) t"
  shows "\<exists>t. forS f [0..<n] x s = (Ok x, t) \<and> P n t"
  using assms(2)
proof (induction n)
  case 0
  with assms(1) show ?case by (simp add: retS_def)
next
  case (Suc n)
  then obtain t where t: "forS f [0..<n] x s = (Ok x, t)" "P n t" by fastforce
  from Suc.prems[OF _ t(2)] obtain u where "f n x t = (Ok x, u)" "P (Suc n) u" by blast
  with t show ?case by (simp add: forS_append bindS_def retS_def)
qed

definition encRela :: "rela_entry \<Rightarrow> bytes" where
  "encRela r = le_enc 8 (unat (rl_Offset r)) @ le_enc 8 (unat (rl_Info r)) @ le_enc 8 (unat (rl_Addend r))"

lemma length_encRela [simp]: "length (encRela r) = 24"
  by (simp add: encRela_def)

lemma loadRela_holds:
  assumes "holds m a (encRela r)"
  shows "loadRela m a = Ok r"
proof -
  have h: "holds m a (le_enc 8 (unat (rl_Offset r)))" "holds m (a + 8) (le_enc 8 (unat (rl_Info r)))"
    "holds m (a + 16) (le_enc 8 (unat (rl_Addend r)))"
    using assms by (simp_all add: encRela_def holds_append add.assoc)
  show ?thesis by (simp add: loadRela_def holds_rd64[OF h(1)] holds_rd64[OF h(2)] holds_rd64[OF h(3)])
qed

definition width :: "rela_entry \<Rightarrow> nat" where
  "width r = (if relaType (rl_Info r) \<in> {8, 1, 6, 7, 16, 17} then 8 else 4)"

lemma entryBytes_length: "entryBytes obj Sf r = Some bs \<Longrightarrow> length bs = width r"
  by (auto simp: entryBytes_def abiBytes_def tlsBytes_def width_def Let_def split: if_splits option.splits)

text \<open>The types a table may have; the thread-local ones need a module.\<close>

definition tableType :: "loaded_object \<Rightarrow> rela_entry \<Rightarrow> bool" where
  "tableType obj r \<longleftrightarrow>
     relaType (rl_Info r) \<in> {8, 1, 6, 7, 10, 11, 2, 4} \<or> relaType (rl_Info r) \<in> {16, 17, 21} \<and> TLSModule obj \<noteq> None"

lemma entryBytes_some: "tableType obj r \<Longrightarrow> \<exists>bs. entryBytes obj Sf r = Some bs"
  by (auto simp: tableType_def entryBytes_def abiBytes_def tlsBytes_def Let_def)

lemma applyRelocation_entry:
  assumes "validateRelocationOffset obj r = Ok ()" and "BaseVAddr (Parsed obj) = 0" and "entryBytes obj Sf r = Some bs"
    and "resolveSymForReloc obj (relaSymIdx (rl_Info r)) rs w = (Ok (Sf (relaSymIdx (rl_Info r))), w)"
    and "all_writable (w_mem w) (place obj r) (length bs)"
  shows "applyRelocation os nt amd64Codes rs r obj w = (Ok obj, put (place obj r) bs w)"
proof (cases "abiBytes (relaType (rl_Info r)) (Sf (relaSymIdx (rl_Info r))) (bias obj) (rl_Addend r) (place obj r)")
  case None
  then show ?thesis using assms(3) by (intro applyRelocation_tls[where Sf = Sf, OF assms(1) _ assms(4,5)]) (simp add: entryBytes_def Let_def)
next
  case (Some bs')
  then show ?thesis using assms(3) by (intro applyRelocation_simple[OF assms(1,2) _ assms(4,5)]) (simp add: entryBytes_def Let_def)
qed

text \<open>Two states that differ at most in the contents of the targets of \<open>es\<close>.\<close>

definition only_targets :: "loaded_object \<Rightarrow> rela_entry list \<Rightarrow> world \<Rightarrow> world \<Rightarrow> bool" where
  "only_targets obj es w w' \<longleftrightarrow>
     w_modules w' = w_modules w \<and> w_nextID w' = w_nextID w \<and> w_blocks w' = w_blocks w \<and>
     mprot (w_mem w') = mprot (w_mem w) \<and>
     (\<forall>x. list_all (\<lambda>r. \<not> in_region (place obj r) (width r) x) es \<longrightarrow> mbytes (w_mem w') x = mbytes (w_mem w) x)"

lemma only_targets_put:
  assumes "only_targets obj es w w1" and "r \<in> set es" and "length bs = width r"
  shows "only_targets obj es w (put (place obj r) bs w1)"
  using assms by (auto simp: only_targets_def put_def list_all_iff store_outside)

text \<open>
  A table that can be applied: entries of the data relocation types and, with a TLS module, of the dynamic thread-local
  ones, inside the image, to writable targets that overlap neither each other nor the table.
\<close>

definition table_ok :: "memory \<Rightarrow> loaded_object \<Rightarrow> u64 \<Rightarrow> rela_entry list \<Rightarrow> bool" where
  "table_ok m obj table es \<longleftrightarrow>
     table \<noteq> 0 \<and> es \<noteq> [] \<and> unat table + 24 * length es < 2 ^ 63 \<and> holds m table (concat (map encRela es)) \<and>
     list_all (\<lambda>r. validateRelocationOffset obj r = Ok () \<and> tableType obj r \<and>
       all_writable m (place obj r) (width r) \<and> unat (place obj r) + width r < 2 ^ 63 \<and>
       apart (place obj r) (width r) table (24 * length es)) es \<and>
     sorted_wrt (\<lambda>r q. apart (place obj r) (width r) (place obj q) (width q)) es"

lemma apart_not_in:
  "apart a n b k \<Longrightarrow> unat a + n < 2 ^ 63 \<Longrightarrow> unat b + k < 2 ^ 63 \<Longrightarrow> i < n \<Longrightarrow> \<not> in_region b k (a + of_nat i)"
  by (rule apart_region) (auto intro!: in_region_offset)

lemma apart_sym: "apart a n b k \<longleftrightarrow> apart b k a n"
  by (auto simp: apart_def)

lemma holds_unchanged:
  assumes "holds m a bs" and "mprot m' = mprot m"
    and "\<And>i. i < length bs \<Longrightarrow> mbytes m' (a + of_nat i) = mbytes m (a + of_nat i)"
  shows "holds m' a bs"
proof -
  have "peek m' a (length bs) = peek m a (length bs)" using assms(3) by (simp add: peek_def)
  with assms(1,2) show ?thesis by (simp add: holds_def all_readable_iff readable_def)
qed

lemma peek_put:
  "length bs = n \<Longrightarrow> n < 2 ^ 63 \<Longrightarrow> peek (w_mem (put a bs w)) a n = bs"
  unfolding put_def by (simp add: peek_store)

lemma peek_put_apart:
  assumes "apart b n a (length bs)" and "unat a + length bs < 2 ^ 63" and "unat b + n < 2 ^ 63"
  shows "peek (w_mem (put a bs w)) b n = peek (w_mem w) b n"
  unfolding put_def peek_def using apart_not_in[OF assms(1,3,2)] by (auto simp: store_outside)

lemma table_entry:
  assumes "table_ok m obj table es" and "i < length es"
  shows "validateRelocationOffset obj (es ! i) = Ok ()" "tableType obj (es ! i)"
    "all_writable m (place obj (es ! i)) (width (es ! i))" "unat (place obj (es ! i)) + width (es ! i) < 2 ^ 63"
    "apart (place obj (es ! i)) (width (es ! i)) table (24 * length es)" "unat table + 24 * length es < 2 ^ 63"
    "\<And>j. j < i \<Longrightarrow> apart (place obj (es ! j)) (width (es ! j)) (place obj (es ! i)) (width (es ! i))"
  using assms nth_mem[OF assms(2)] by (auto simp: table_ok_def list_all_iff sorted_wrt_iff_nth_less)

text \<open>What holds after the first \<open>i\<close> entries.\<close>

definition after :: "world \<Rightarrow> loaded_object \<Rightarrow> u64 \<Rightarrow> rela_entry list \<Rightarrow> (u32 \<Rightarrow> u64) \<Rightarrow> nat \<Rightarrow> world \<Rightarrow> bool" where
  "after w obj table es Sf i w' \<longleftrightarrow>
     only_targets obj es w w' \<and> holds (w_mem w') table (concat (map encRela es)) \<and>
     (\<forall>j<i. Some (peek (w_mem w') (place obj (es ! j)) (width (es ! j))) = entryBytes obj Sf (es ! j))"

lemma entry_step:
  assumes ok: "table_ok (w_mem w) obj table es" and base: "BaseVAddr (Parsed obj) = 0" and i: "i < length es"
    and S: "\<And>w'. only_targets obj es w w' \<Longrightarrow>
        resolveSymForReloc obj (relaSymIdx (rl_Info (es ! i))) rs w' = (Ok (Sf (relaSymIdx (rl_Info (es ! i)))), w')"
    and inv: "after w obj table es Sf i w1"
  shows "\<exists>w2. bindS (readMem (\<lambda>m. loadRela m (table + of_nat i * 24))) (\<lambda>r. applyRelocation os nt amd64Codes rs r obj) w1 =
      (Ok obj, w2) \<and> after w obj table es Sf (Suc i) w2"
proof -
  let ?r = "es ! i"
  note e = table_entry[OF ok i]
  have ot: "only_targets obj es w w1" and h: "holds (w_mem w1) table (concat (map encRela es))"
    and done1: "\<And>j. j < i \<Longrightarrow> Some (peek (w_mem w1) (place obj (es ! j)) (width (es ! j))) = entryBytes obj Sf (es ! j)"
    using inv by (simp_all add: after_def)
  have ld: "loadRela (w_mem w1) (table + of_nat i * 24) = Ok ?r"
    using holds_concat[OF h _ i] by (intro loadRela_holds) simp
  obtain bs where bs: "entryBytes obj Sf ?r = Some bs"
    using entryBytes_some[OF e(2)] by blast
  have len: "length bs = width ?r" by (rule entryBytes_length[OF bs])
  have wr: "all_writable (w_mem w1) (place obj ?r) (length bs)"
    using e(3) ot by (simp add: len only_targets_def all_writable_iff writable_def)
  let ?w2 = "put (place obj ?r) bs w1"
  have run: "applyRelocation os nt amd64Codes rs ?r obj w1 = (Ok obj, ?w2)"
    by (rule applyRelocation_entry[OF e(1) base bs S[OF ot] wr])
  have "only_targets obj es w ?w2" using ot i len by (intro only_targets_put) simp_all
  moreover have "holds (w_mem ?w2) table (concat (map encRela es))"
  proof (rule holds_unchanged[OF h])
    fix j
    assume "j < length (concat (map encRela es))"
    then have "j < 24 * length es" by (simp add: length_concat comp_def sum_list_triv)
    with apart_not_in[OF e(5)[unfolded apart_sym[of "place obj ?r"]] e(6,4)] len
    show "mbytes (w_mem ?w2) (table + of_nat j) = mbytes (w_mem w1) (table + of_nat j)"
      by (simp add: put_def store_outside)
  qed (simp add: put_def)
  moreover have "Some (peek (w_mem ?w2) (place obj (es ! j)) (width (es ! j))) = entryBytes obj Sf (es ! j)"
    if "j < Suc i" for j
  proof (cases "j = i")
    case True
    then show ?thesis using bs len e(4) by (simp add: peek_put)
  next
    case False
    then have "j < i" using that by simp
    with done1 e(7)[of j] e(4) table_entry(4)[OF ok, of j] i len show ?thesis by (simp add: peek_put_apart)
  qed
  ultimately show ?thesis using run ld by (auto simp: after_def bindS_def readMem_run)
qed

lemma applyRelaTable_run:
  assumes "table_ok (w_mem w) obj table es" and "BaseVAddr (Parsed obj) = 0"
    and "\<And>r w'. r \<in> set es \<Longrightarrow> only_targets obj es w w' \<Longrightarrow>
        resolveSymForReloc obj (relaSymIdx (rl_Info r)) rs w' = (Ok (Sf (relaSymIdx (rl_Info r))), w')"
  shows "\<exists>w'. applyRelaTable os nt amd64Codes rs table (24 * of_nat (length es)) obj w = (Ok obj, w') \<and>
    only_targets obj es w w' \<and>
    list_all (\<lambda>r. Some (peek (w_mem w') (place obj r) (width r)) = entryBytes obj Sf r) es"
proof -
  let ?n = "length es"
  have n: "unat table + 24 * ?n < 2 ^ 63" "es \<noteq> []" "table \<noteq> 0" using assms(1) by (simp_all add: table_ok_def)
  have sz: "unat (24 * of_nat ?n :: u64) = 24 * ?n"
    using n(1) by (simp add: unat_mult_lem[THEN iffD1] unat_of_nat64)
  have nz: "(24 * of_nat ?n :: u64) \<noteq> 0" using sz n(2) by auto
  have m0: "(24 * of_nat ?n :: u64) mod 24 = 0" by (simp add: word_unat_eq_iff unat_mod sz)
  have d: "unat ((24 * of_nat ?n :: u64) div 24) = ?n" by (simp add: unat_div sz)
  have sl: "unsafeSlice table ((24 * of_nat ?n) div 24) 24 = (Ok (table, (24 * of_nat ?n) div 24) :: (loader_error, u64 \<times> u64) result)"
    using n by (simp add: unsafeSlice_def d)
  have start: "after w obj table es Sf 0 w"
    using assms(1) by (simp add: after_def only_targets_def table_ok_def)
  let ?f = "\<lambda>i obj. bindS (readMem (\<lambda>m. loadRela m (table + of_nat i * 24))) (\<lambda>r. applyRelocation os nt amd64Codes rs r obj)"
  have step: "\<exists>t. ?f i obj s = (Ok obj, t) \<and> after w obj table es Sf (Suc i) t" if "i < ?n" "after w obj table es Sf i s" for i s
    using that assms(3)[of "es ! i"] by (intro entry_step[OF assms(1,2)]) auto
  obtain w' where "forS ?f [0..<?n] obj w = (Ok obj, w')" and "after w obj table es Sf ?n w'"
    using forS_counted[where P = "after w obj table es Sf" and f = ?f, OF start step] by blast
  then show ?thesis
    using n nz by (intro exI[of _ w'])
      (simp add: applyRelaTable_def validateRelaTableSize_def m0 bindS_def liftS_def Let_def sl d after_def list_all_length)
qed


definition demoRela :: "rela_entry list" where
  "demoRela = [\<lparr>rl_Offset = 0, rl_Info = 8, rl_Addend = 0x123\<rparr>, \<lparr>rl_Offset = 0x10, rl_Info = 2, rl_Addend = 0x3000\<rparr>]"

definition demoRelaMem :: memory where
  "demoRelaMem = \<lparr>mbytes = store (\<lambda>_. 0) 0x1000 (concat (map encRela demoRela)),
                  mprot = (\<lambda>x. if in_region 0x1000 0x2000 x then Some 3 else None)\<rparr>"

lemma demoRela_ok: "table_ok demoRelaMem (newObject demoTwo 0x2000) 0x1000 demoRela"
proof -
  have len: "length (concat (map encRela demoRela)) = 48" by (simp add: demoRela_def)
  have "holds (demoRelaMem\<lparr>mbytes := store (\<lambda>_. 0) 0x1000 (concat (map encRela demoRela))\<rparr>) 0x1000 (concat (map encRela demoRela))"
    by (intro holds_store) (auto simp: len all_readable_iff readable_def demoRelaMem_def in_region_def unat_of_nat64)
  then have "holds demoRelaMem 0x1000 (concat (map encRela demoRela))" by (simp add: demoRelaMem_def)
  moreover have "all_writable demoRelaMem 0x2000 8" "all_writable demoRelaMem 0x2010 4"
    by (simp_all add: all_writable_def writable_def demoRelaMem_def in_region_def upt_conv_Cons)
  ultimately show ?thesis
    by (simp add: table_ok_def) (simp add: demoRela_def place_def width_def relaType_def validateRelocationOffset_def newObject_def
        demoTwo_def apart_def tableType_def)
qed


end
