(* ===== verification/Reloc_Safety.thy ===== *)
theory Reloc_Safety
  imports Reloc_Abi
begin

text \<open>
  What a relocation can touch, what is refused, and where the code departs from what its checks suggest: the
  bound check covers the first byte only, and a \<open>COPY\<close> relocation copies from the object itself.
\<close>

unbundle bit_operations_syntax

section \<open>The frame of one entry\<close>

lemma in_image:
  fixes b off m :: u64
  assumes "b \<le> off" and "off < b + m"
  shows "unat (off - b) < unat m"
proof (cases "unat b + unat m < 2 ^ 64")
  case True
  then have "unat (b + m) = unat b + unat m" by (intro unat_add_no_wrap) simp
  then show ?thesis using assms by (simp add: unat_sub word_le_nat_alt word_less_nat_alt)
next
  case False
  have "unat (b + m) = (unat b + unat m) mod 2 ^ 64" by (simp add: unat_word_ariths)
  also have "\<dots> = unat b + unat m - 2 ^ 64"
    using False unat_bound64[of b] unat_bound64[of m] by (simp add: mod_if)
  finally show ?thesis using assms unat_bound64[of m] False by (simp add: word_le_nat_alt word_less_nat_alt)
qed

lemma validated_offset:
  assumes "validateRelocationOffset obj r = Ok ()"
  shows "unat (rl_Offset r - BaseVAddr (Parsed obj)) < unat (MemSize (Parsed obj))"
  using assms by (intro in_image) (auto simp: validateRelocationOffset_def Let_def not_less split: if_splits)

lemma snd_storeS: "snd (storeS (\<lambda>m. wr_bytes m a bs) m) =
    (if all_writable m a (length bs) then m\<lparr>mbytes := store (mbytes m) a bs\<rparr> else m)"
proof (cases "all_writable m a (length bs)")
  case False
  then have "find (\<lambda>i. \<not> writable m (a + of_nat i)) [0..<length bs] \<noteq> None"
    by (simp add: all_writable_iff find_upt_None)
  with False show ?thesis by (auto simp: storeS_def wr_bytes_def)
qed (simp add: storeS_Ok)

lemma snd_onMem: "w_mem (snd (onMem f w)) = snd (f (w_mem w))"
  by (simp add: onMem_def split: prod.split)

text \<open>Memory that has changed in the image and the seven bytes behind it at most.\<close>

definition framed :: "loaded_object \<Rightarrow> memory \<Rightarrow> world \<Rightarrow> bool" where
  "framed obj m w \<longleftrightarrow> mprot (w_mem w) = mprot m \<and>
     same_outside (Base obj) (unat (MemSize (Parsed obj)) + 7) m (w_mem w)"

lemma keeps_framed_store:
  assumes k: "unat k < unat (MemSize (Parsed obj))" and bs: "length bs \<le> 8" and small: "unat (MemSize (Parsed obj)) < 2 ^ 63"
  shows "keeps (framed obj m) (onMem (storeS (\<lambda>m. wr_bytes m (Base obj + k) bs)))"
  unfolding keeps_def
proof (intro allI impI)
  fix w
  assume inv: "framed obj m w"
  have out: "same_outside (Base obj) (unat (MemSize (Parsed obj)) + 7) (w_mem w)
      ((w_mem w)\<lparr>mbytes := store (mbytes (w_mem w)) (Base obj + of_nat (unat k)) bs\<rparr>)"
    using k bs small by (intro same_outside_store) simp_all
  show "framed obj m (snd (onMem (storeS (\<lambda>m. wr_bytes m (Base obj + k) bs)) w))"
    using inv out same_outside_trans by (auto simp: framed_def snd_onMem snd_storeS)
qed

lemma keeps_framed_poke:
  assumes "unat k < unat (MemSize (Parsed obj))" and "unat (MemSize (Parsed obj)) < 2 ^ 63"
  shows "keeps (framed obj m) (poke64 (Base obj + k) v)" and "keeps (framed obj m) (poke32 (Base obj + k) u)"
  unfolding poke64_def wr64_def poke32_def wr32_def
  by (intro keeps_framed_store[OF assms(1) _ assms(2)]; simp)+

text \<open>Resolution with a resolver that does not touch the memory.\<close>

lemma keeps_attempt [keeps_intros]: "keeps P c \<Longrightarrow> keeps P (attempt c)"
  by (auto simp: keeps_def attempt_def split: prod.splits)

lemma keeps_quiet:
  assumes "quiet r"
  shows "keeps (framed obj m) (rs_Resolve r name)"
  using assms by (simp add: keeps_def framed_def quiet_def)

lemma keeps_resolve:
  assumes "pred_option quiet rs"
  shows "keeps (framed ob m) (resolveSymForReloc obj i rs)"
proof -
  have "keeps (framed ob m) (tryExternalResolve rs name)" for name
    using assms by (cases rs) (auto simp: tryExternalResolve_def intro!: keeps_intros keeps_quiet)
  then show ?thesis
    unfolding resolveSymForReloc_def
    by (auto intro!: keeps_intros simp del: split_paired_All split: option.split)
qed

lemma keeps_option_case [keeps_intros]:
  "keeps P a \<Longrightarrow> (\<And>x. keeps P (f x)) \<Longrightarrow> keeps P (case o' of None \<Rightarrow> a | Some x \<Rightarrow> f x)"
  by (simp split: option.split)

lemma keeps_resolveTLS:
  assumes "pred_option quiet rs"
  shows "keeps (framed ob m) (resolveTLSSymbolValue obj i rs t)"
  unfolding resolveTLSSymbolValue_def resolveTLSSymbolLocal_def
  by (intro keeps_intros keeps_resolve[OF assms])

text \<open>The types whose handler writes to its target only: no native call, no allocation, no copy.\<close>

definition dataTypes :: "u32 list" where
  "dataTypes = [0, 8, 1, 6, 7, 10, 11, 2, 4, 16, 17, 21]"

lemma none_handler: "relocHandlers os nt amd64Codes 0 = Some (plain (\<lambda>c. retS ()))"
  by (simp add: relocHandlers_def amd64Codes_values)

lemmas data_handlers = none_handler tls_handlers

text \<open>
  C8: The frame of a relocation. A relocation of a data type, whatever its outcome and whatever its entry
  says, changes no protection and no byte outside the object's image and the seven bytes behind it, and
  never the object.
\<close>

theorem applyRelocation_frame:
  assumes "relaType (rl_Info r) \<in> set dataTypes" and "pred_option quiet rs" and "unat (MemSize (Parsed obj)) < 2 ^ 63"
    and "applyRelocation os nt amd64Codes rs r obj w = (q, w')"
  shows "mprot (w_mem w') = mprot (w_mem w) \<and>
    same_outside (Base obj) (unat (MemSize (Parsed obj)) + 7) (w_mem w) (w_mem w') \<and> (\<forall>obj'. q = Ok obj' \<longrightarrow> obj' = obj)"
proof (cases "validateRelocationOffset obj r")
  case (Ok u)
  let ?k = "rl_Offset r - BaseVAddr (Parsed obj)"
  have k: "unat ?k < unat (MemSize (Parsed obj))" by (rule validated_offset) (use Ok in simp)
  note pk = keeps_framed_poke[OF k assms(3)]
  have ctx: "rc_offset (buildRelocContext obj r rs) = Base obj + ?k" "rc_obj (buildRelocContext obj r rs) = obj"
      "rc_resolver (buildRelocContext obj r rs) = rs"
    by (simp_all add: buildRelocContext_def)
  note keepers = keeps_intros pk keeps_resolve[OF assms(2)] keeps_resolveTLS[OF assms(2)]
  let ?h = "the (relocHandlers os nt amd64Codes (relaType (rl_Info r)))" and ?c = "buildRelocContext obj r rs"
  have t: "relaType (rl_Info r) \<in> {0, 8, 1, 6, 7, 10, 11, 2, 4, 16, 17, 21}"
    using assms(1) by (auto simp: dataTypes_def)
  then have "relocHandlers os nt amd64Codes (relaType (rl_Info r)) \<noteq> None"
    by (auto simp: amd64_handlers data_handlers)
  then have run: "?h ?c w = (q, w')"
    using assms(4) Ok by (auto simp: applyRelocation_def bindS_def liftS_def Let_def)
  from t have "keeps (framed obj (w_mem w)) (?h ?c)"
    by (elim insertE emptyE;
        simp only: amd64_handlers data_handlers option.sel plain_def ctx applyRelative_def apply64_def applyGlobDat_def
          applyJumpSlot_def applySymbolAddress_def apply32_def apply32S_def applyPC32_def applyDTPMod64_def
          applyDTPOff64_def applyDTPOff32_def;
        intro keepers)
  moreover have "framed obj (w_mem w) w" by (simp add: framed_def)
  ultimately have "framed obj (w_mem w) w'" using run by (rule keepsD)
  moreover have "obj' = obj" if "q = Ok obj'" for obj'
    using run that t by (elim insertE emptyE; simp add: amd64_handlers data_handlers plain_def st_Ok ctx)
  ultimately show ?thesis by (simp add: framed_def)
qed (use assms(4) in \<open>auto simp: applyRelocation_def bindS_def liftS_def validateRelocationOffset_def Let_def split: if_splits\<close>)

lemma demoRela_holds: "holds demoRelaMem 0x1000 (encRela (\<lparr>rl_Offset = 0, rl_Info = 8, rl_Addend = 0x123\<rparr>))"
  using demoRela_ok by (simp add: table_ok_def demoRela_def holds_append)

theorem applyRelocation_frame_witness:
  "\<exists>q w'. applyRelocation (demoOs []) demoNative amd64Codes None \<lparr>rl_Offset = 0x2FFF, rl_Info = 8, rl_Addend = 0x123\<rparr>
      (newObject demoTwo 0x2000) (initialWorld demoRelaMem) = (q, w') \<and>
     same_outside 0x2000 0x3007 demoRelaMem (w_mem w')"
proof -
  let ?r = "\<lparr>rl_Offset = 0x2FFF, rl_Info = 8, rl_Addend = 0x123\<rparr>" and ?obj = "newObject demoTwo 0x2000"
  obtain q w' where run: "applyRelocation (demoOs []) demoNative amd64Codes None ?r ?obj (initialWorld demoRelaMem) = (q, w')"
    by fastforce
  have "same_outside (Base ?obj) (unat (MemSize (Parsed ?obj)) + 7) (w_mem (initialWorld demoRelaMem)) (w_mem w')"
    using applyRelocation_frame[OF _ _ _ run] by (simp add: dataTypes_def relaType_def newObject_def demoTwo_def)
  with run show ?thesis by (auto simp: newObject_def demoTwo_def initialWorld_def)
qed

section \<open>The bound check and the width of the write\<close>

text \<open>
  C40: A write across the end of the image. \<open>validateRelocationOffset\<close> compares the first byte of the target
  with the end of the image and not the last. A \<open>RELATIVE\<close> entry for the last byte passes, and its store
  puts seven bytes of the value behind the image, over whatever is mapped there.
\<close>

theorem reloc_straddles_image:
  assumes "relaType (rl_Info r) = 8" and "MemSize (Parsed obj) \<noteq> 0"
    and "unat (BaseVAddr (Parsed obj)) + unat (MemSize (Parsed obj)) < 2 ^ 64"
    and "rl_Offset r = BaseVAddr (Parsed obj) + (MemSize (Parsed obj) - 1)"
    and "all_writable (w_mem w) (Base obj + (MemSize (Parsed obj) - 1)) 8"
  shows "\<exists>w'. applyRelocation os nt amd64Codes rs r obj w = (Ok obj, w') \<and>
      peek (w_mem w') (Base obj + MemSize (Parsed obj)) 7 = drop 1 (le_enc 8 (unat (Base obj + rl_Addend r)))"
proof -
  let ?b = "BaseVAddr (Parsed obj)" and ?m = "MemSize (Parsed obj)"
  let ?p = "Base obj + (?m - 1)" and ?v = "le_enc 8 (unat (Base obj + rl_Addend r))"
  have m1: "unat (?m - 1) = unat ?m - 1" using assms(2) by (simp add: unat_minus_one)
  have mpos: "0 < unat ?m" using assms(2) by (simp add: unat_gt_0)
  have off: "unat (?b + (?m - 1)) = unat ?b + (unat ?m - 1)" using assms(3) m1 by (subst unat_add_no_wrap) simp_all
  have top: "unat (?b + ?m) = unat ?b + unat ?m" using assms(3) by (intro unat_add_no_wrap) simp
  have v: "validateRelocationOffset obj r = Ok ()"
    using off top mpos by (auto simp: validateRelocationOffset_def assms(4) Let_def word_less_nat_alt word_le_nat_alt)
  have run: "applyRelocation os nt amd64Codes rs r obj w = (Ok obj, put ?p ?v w)"
    using assms(1,5) by (simp add: applyRelocation_def v bindS_def liftS_def amd64_handlers plain_def retS_def
        buildRelocContext_def assms(4) applyRelative_def poke64_Ok)
  have "Base obj + ?m = ?p + of_nat 1" by simp
  then have "peek (w_mem (put ?p ?v w)) (Base obj + ?m) 7 = drop 1 (peek (w_mem (put ?p ?v w)) ?p (1 + 7))"
    by (simp only: peek_append) simp
  also have "peek (w_mem (put ?p ?v w)) ?p (1 + 7) = ?v" by (intro peek_put) simp_all
  finally show ?thesis using run by blast
qed

definition openMem :: memory where
  "openMem = \<lparr>mbytes = \<lambda>_. 0, mprot = \<lambda>_. Some 3\<rparr>"

theorem reloc_straddles_image_witness:
  "\<exists>w'. applyRelocation (demoOs []) demoNative amd64Codes None \<lparr>rl_Offset = 0x2FFF, rl_Info = 8, rl_Addend = 0x123\<rparr>
      (newObject demoTwo 0x2000) (initialWorld openMem) = (Ok (newObject demoTwo 0x2000), w') \<and>
     peek (w_mem w') 0x5000 7 = [0x21, 0, 0, 0, 0, 0, 0]"
proof -
  let ?r = "\<lparr>rl_Offset = 0x2FFF, rl_Info = 8, rl_Addend = 0x123\<rparr>" and ?obj = "newObject demoTwo 0x2000"
  have "all_writable openMem a n" for a n by (simp add: all_writable_iff writable_def openMem_def)
  then have "\<exists>w'. applyRelocation (demoOs []) demoNative amd64Codes None ?r ?obj (initialWorld openMem) = (Ok ?obj, w') \<and>
      peek (w_mem w') (Base ?obj + MemSize (Parsed ?obj)) 7 = drop 1 (le_enc 8 (unat (Base ?obj + rl_Addend ?r)))"
    by (intro reloc_straddles_image) (simp_all add: relaType_def newObject_def demoTwo_def initialWorld_def)
  moreover have l: "le_enc (Suc n) v = of_nat v # le_enc n (v div 256)" for n v by simp
  have "le_enc 8 0x2123 = 0x23 # le_enc 7 0x21" using l[of 7 "0x2123"] by simp
  moreover have "le_enc 7 0x21 = 0x21 # replicate 6 0" using l[of 6 "0x21"] by simp
  moreover have "replicate 6 (0 :: u8) = [0, 0, 0, 0, 0, 0]" by (simp add: numeral_eq_Suc)
  ultimately show ?thesis by (simp add: newObject_def demoTwo_def)
qed

text \<open>
  What is refused. An entry whose offset lies outside \<open>[BaseVAddr, BaseVAddr + MemSize)\<close> gives the range
  error, and inside it every type but the nineteen of the table gives the unknown-type error; in both cases
  nothing has changed.
\<close>

theorem applyRelocation_refuses:
  assumes "unat (BaseVAddr (Parsed obj)) + unat (MemSize (Parsed obj)) < 2 ^ 64"
  shows "applyRelocation os nt amd64Codes rs r obj w =
    (if unat (rl_Offset r) < unat (BaseVAddr (Parsed obj)) \<or>
        unat (BaseVAddr (Parsed obj)) + unat (MemSize (Parsed obj)) \<le> unat (rl_Offset r)
     then (Err (RelocOutOfRange (rl_Offset r)), w)
     else if relaType (rl_Info r) \<notin> set (dataTypes @ [5, 18, 19, 20, 22, 23, 37])
     then (Err (UnknownRelocation (relaType (rl_Info r)) (rl_Offset r)), w)
     else the (relocHandlers os nt amd64Codes (relaType (rl_Info r))) (buildRelocContext obj r rs) w)"
proof -
  have top: "unat (BaseVAddr (Parsed obj) + MemSize (Parsed obj)) = unat (BaseVAddr (Parsed obj)) + unat (MemSize (Parsed obj))"
    using assms by (intro unat_add_no_wrap) simp
  have dom: "relocHandlers os nt amd64Codes t = None \<longleftrightarrow> t \<notin> set (dataTypes @ [5, 18, 19, 20, 22, 23, 37])" for t
    unfolding relocHandlers_def map_of_eq_None_iff by (auto simp: amd64Codes_values dataTypes_def)
  show ?thesis
    unfolding dom[symmetric]
    by (auto simp: applyRelocation_def validateRelocationOffset_def bindS_def liftS_def failS_def Let_def
        word_less_nat_alt word_le_nat_alt top split: option.split)
qed

theorem applyRelocation_refuses_witness:
  "applyRelocation (demoOs []) demoNative amd64Codes None \<lparr>rl_Offset = 0x3000, rl_Info = 8, rl_Addend = 0\<rparr>
     (newObject demoTwo 0x2000) (initialWorld openMem) = (Err (RelocOutOfRange 0x3000), initialWorld openMem) \<and>
   applyRelocation (demoOs []) demoNative amd64Codes None \<lparr>rl_Offset = 0x10, rl_Info = 3, rl_Addend = 0\<rparr>
     (newObject demoTwo 0x2000) (initialWorld openMem) = (Err (UnknownRelocation 3 0x10), initialWorld openMem)"
proof -
  have "unat (BaseVAddr (Parsed (newObject demoTwo 0x2000))) + unat (MemSize (Parsed (newObject demoTwo 0x2000))) < 2 ^ 64"
    by (simp add: newObject_def demoTwo_def)
  from applyRelocation_refuses[OF this] show ?thesis
    by (simp add: newObject_def demoTwo_def relaType_def dataTypes_def)
qed

section \<open>\<open>COPY\<close> relocations\<close>

lemma copyBytes_done:
  assumes "copyBytes dst src n m = (Ok (), m')"
  shows "m' = m\<lparr>mbytes := store (mbytes m) dst (peek m src (unat n))\<rparr>"
proof -
  from assms obtain bs where rd: "rd_bytes m src (unat n) = (Ok bs :: ('a, bytes) result)"
    and wr: "storeS (\<lambda>m. wr_bytes m dst bs) m = (Ok () :: ('a, unit) result, m')"
    by (auto simp: copyBytes_def st_Ok loadS_def)
  have "bs = peek m src (unat n)" using rd by (auto simp: rd_bytes_def split: option.splits)
  moreover have "find (\<lambda>i. \<not> writable m (dst + of_nat i)) [0..<length bs] = None"
    using wr by (auto simp: storeS_def wr_bytes_def split: option.splits)
  ultimately show ?thesis using wr by (simp add: storeS_def wr_bytes_def)
qed

text \<open>
  A \<open>COPY\<close> relocation copies from the object itself. The size and, by the order of resolution, also the
  address come from the object's own symbol table, so when \<open>applyCopy\<close> succeeds it has copied the object's own
  definition, and no other library provides a byte; a symbol only another library defines is an error.
\<close>

theorem applyCopy_own_definition:
  assumes "Lookup (Symbols obj) [] = None" and "pred_option quiet rs" and "applyCopy obj i p rs w = (Ok (), w')"
  shows "\<exists>name s. symName (w_mem w) obj i = (Ok name :: (loader_error, string) result) \<and> Lookup (Symbols obj) name = Some s \<and>
    w' = put p (peek (w_mem w) (sym_Value s) (unat (sym_Size s))) w"
proof -
  from assms(3) obtain S w1 name s where res: "resolveSymForReloc obj i rs w = (Ok S, w1)"
    and nm: "symName (w_mem w1) obj i = (Ok name :: (loader_error, string) result)" and lk: "Lookup (Symbols obj) name = Some s"
    and cp: "onMem (copyBytes p S (sym_Size s)) w1 = (Ok () :: (loader_error, unit) result, w')"
    by (auto simp: applyCopy_def st_Ok readMem_run split: option.splits)
  have mem: "w_mem w1 = w_mem w"
    using res assms(2)
    by (auto simp: resolveSymForReloc_def st_Ok readMem_run tryExternalResolve_def attempt_def quiet_def
        split: if_splits option.splits prod.splits result.splits) (metis snd_conv)+
  have ne: "name \<noteq> []" using assms(1) lk by auto
  have nz: "i \<noteq> 0" using nm ne by (auto simp: symName_def getSymbolEntry_def split: if_splits)
  have S: "S = sym_Value s" "w1 = w"
    using res nm lk ne nz by (auto simp: mem resolveSymForReloc_def st_Ok readMem_run tryLocalSymbolLookup_def)
  have "w' = put p (peek (w_mem w) S (unat (sym_Size s))) w"
    using cp by (auto simp: S(2) onMem_def put_def split: prod.splits dest: copyBytes_done)
  with nm lk S show ?thesis by (auto simp: mem)
qed

text \<open>The memory of \<open>demoUser\<close>, made writable.\<close>

definition demoCopyMem :: memory where
  "demoCopyMem = demoSymMem\<lparr>mprot := \<lambda>_. Some 3\<rparr>"

lemma demoCopy_name: "symName demoCopyMem (demoUser\<lparr>Symbols := t\<rparr>) 1 = (Ok ''f'' :: ('e, string) result)"
proof -
  have up: "holds demoCopyMem a bs" if "holds demoSymMem a bs" for a bs
    using that by (simp add: holds_def demoCopyMem_def all_readable_iff readable_def peek_def)
  have "holds demoSymMem (0x1000 + of_nat (1 * 24)) (encSym (demoSyms ! 1))"
    by (rule holds_concat[OF demoSym_parts(1)]) (simp_all add: demoSyms_def)
  from encSym_fields(1)[OF up[OF this]] have "rd32 demoCopyMem 0x1018 = (Ok 1 :: ('e, u32) result)" by (simp add: demoSyms_def)
  moreover have "ReadCStringMem demoCopyMem 0x104E (ucast (1 :: u32)) 3 = (Ok ''f'' :: ('e, string) result)"
    using up[OF demoSym_parts(3)] by (intro ReadCStringMem_holds) simp_all
  ultimately show ?thesis by (simp add: symName_def demoUser_def getSymbolEntry_def word_le_nat_alt)
qed

theorem applyCopy_own_definition_witness:
  "\<exists>w'. applyCopy (demoUser\<lparr>Symbols := (NewTable 0x5000)\<lparr>t_symbols := [''f'' \<mapsto> \<lparr>sym_Name = ''f'', sym_Value = 0x1000,
        sym_Size = 2, sym_Bind = 1, sym_Type = 1, sym_Section = 9, sym_VerIdx = 0, sym_VerName = []\<rparr>]\<rparr>\<rparr>)
      1 0x8000 (Some demoResolver) (initialWorld demoCopyMem) = (Ok (), w') \<and>
     w' = put 0x8000 (peek demoCopyMem 0x1000 2) (initialWorld demoCopyMem)"
proof -
  let ?s = "\<lparr>sym_Name = ''f'', sym_Value = 0x1000, sym_Size = 2, sym_Bind = 1, sym_Type = 1, sym_Section = 9, sym_VerIdx = 0, sym_VerName = []\<rparr>"
  let ?t = "(NewTable 0x5000)\<lparr>t_symbols := [''f'' \<mapsto> ?s]\<rparr>"
  let ?obj = "demoUser\<lparr>Symbols := ?t\<rparr>" and ?w = "initialWorld demoCopyMem"
  have i: "w_mem ?w = demoCopyMem" by (simp add: initialWorld_def)
  have rw: "all_readable demoCopyMem a n" "all_writable demoCopyMem a n" for a n
    by (simp_all add: all_readable_iff all_writable_iff readable_def writable_def demoCopyMem_def)
  have "applyCopy ?obj 1 0x8000 (Some demoResolver) ?w = (Ok (), snd (applyCopy ?obj 1 0x8000 (Some demoResolver) ?w))"
    by (simp add: applyCopy_def resolveSymForReloc_def bindS_def readMem_run i demoCopy_name retS_def tryLocalSymbolLookup_def
        Lookup_def liftS_def unsafeSlice_def onMem_def copyBytes_Ok[OF rw])
  then obtain w' where run: "applyCopy ?obj 1 0x8000 (Some demoResolver) ?w = (Ok (), w')" by blast
  have "\<exists>name s. symName (w_mem ?w) ?obj 1 = (Ok name :: (loader_error, string) result) \<and> Lookup (Symbols ?obj) name = Some s \<and>
      w' = put 0x8000 (peek (w_mem ?w) (sym_Value s) (unat (sym_Size s))) ?w"
    by (rule applyCopy_own_definition[OF _ _ run]) (simp_all add: Lookup_def quiet_def demoResolver_def)
  with run show ?thesis by (auto simp: i demoCopy_name Lookup_def)
qed

end
