(* ===== verification/Reloc_Got.thy ===== *)
theory Reloc_Got
  imports Reloc_Safety
begin

text \<open>
  The entries of the global offset table that TLS relocations make: pairs of 16 bytes on pages of 4096
  bytes, numbered by their offset over all pages.
\<close>

unbundle bit_operations_syntax

definition gotAddr :: "loaded_object \<Rightarrow> u64 \<Rightarrow> u64" where
  "gotAddr obj off = GOTPages obj ! (unat off div 4096) + of_nat (unat off mod 4096)"

definition separate :: "u64 \<Rightarrow> nat \<Rightarrow> u64 \<Rightarrow> nat \<Rightarrow> bool" where
  "separate a n b k \<longleftrightarrow> unat a + n \<le> unat b \<or> unat b + k \<le> unat a"

definition page_ok :: "memory \<Rightarrow> u64 \<Rightarrow> bool" where
  "page_ok m p \<longleftrightarrow> region_prot p 4096 (Some 3) m \<and> unat p + 4096 \<le> 18446744073709551616"

text \<open>
  The state of the table: pages are writable and separate, the entries handed out fill them from the
  start, no two symbols share one.
\<close>

definition got_ok :: "loaded_object \<Rightarrow> memory \<Rightarrow> bool" where
  "got_ok obj m \<longleftrightarrow>
     (GOTBase obj = 0 \<longrightarrow> GOTPages obj = [] \<and> GOTSize obj = 0 \<and> GOTEntries obj = Map.empty) \<and>
     (GOTBase obj \<noteq> 0 \<longrightarrow> GOTPages obj \<noteq> [] \<and> GOTPages obj ! 0 = GOTBase obj) \<and>
     16 dvd unat (GOTSize obj) \<and> unat (GOTSize obj) \<le> 4096 * length (GOTPages obj) \<and>
     (\<forall>i off. GOTEntries obj i = Some off \<longrightarrow> 16 dvd unat off \<and> unat off + 16 \<le> unat (GOTSize obj)) \<and>
     (\<forall>i j off. GOTEntries obj i = Some off \<and> GOTEntries obj j = Some off \<longrightarrow> i = j) \<and>
     list_all (page_ok m) (GOTPages obj) \<and> sorted_wrt (\<lambda>p q. separate p 4096 q 4096) (GOTPages obj)"

section \<open>Addresses of entries\<close>

lemma region_separate:
  assumes "region_prot a n (Some p) m" and "region_prot b k None m" and "0 < n" and "0 < k"
    and "unat a + n \<le> 18446744073709551616" and "unat b + k \<le> 18446744073709551616"
  shows "separate a n b k"
proof (rule ccontr)
  assume "\<not> separate a n b k"
  then have lt: "unat b < unat a + n" "unat a < unat b + k" by (simp_all add: separate_def)
  let ?x = "if a \<le> b then b else a"
  have "in_region a n ?x" "in_region b k ?x"
    using lt assms(3,4) by (auto simp: in_region_interval[OF assms(5)] in_region_interval[OF assms(6)] word_le_nat_alt)
  with assms(1,2) show False by (auto simp: region_prot_def)
qed

lemma entry_in_page:
  fixes off n :: nat
  assumes "16 dvd off" and "off + 16 \<le> 4096 * n"
  shows "off div 4096 < n" and "off mod 4096 + 16 \<le> 4096"
proof -
  show "off div 4096 < n" using assms(2) by (simp add: less_mult_imp_div_less mult.commute)
  have "16 dvd off mod 4096" using assms(1) by (simp add: dvd_mod)
  then obtain k where k: "off mod 4096 = 16 * k" by (rule dvdE)
  have "off mod 4096 < 4096" by simp
  then show "off mod 4096 + 16 \<le> 4096" unfolding k by simp
qed

text \<open>Entries at different offsets are at separate addresses.\<close>

lemma gotAddr_separate:
  assumes pages: "list_all (page_ok m) (GOTPages obj)" "sorted_wrt (\<lambda>p q. separate p 4096 q 4096) (GOTPages obj)"
    and a: "16 dvd unat a" "unat a + 16 \<le> 4096 * length (GOTPages obj)"
    and b: "16 dvd unat b" "unat b + 16 \<le> 4096 * length (GOTPages obj)" and lt: "unat a < unat b"
  shows "separate (gotAddr obj a) 16 (gotAddr obj b) 16"
proof -
  note pa = entry_in_page[OF a] and pb = entry_in_page[OF b]
  have u: "unat (gotAddr obj x) = unat (GOTPages obj ! (unat x div 4096)) + unat x mod 4096"
    if "unat x div 4096 < length (GOTPages obj)" "unat x mod 4096 + 16 \<le> 4096" for x
  proof -
    have "unat (GOTPages obj ! (unat x div 4096)) + 4096 \<le> 18446744073709551616"
      using pages(1) that(1) by (simp add: list_all_length page_ok_def)
    moreover have "unat (of_nat (unat x mod 4096) :: u64) = unat x mod 4096" using that(2) by (intro unat_of_nat64) simp
    ultimately show ?thesis using that(2) unfolding gotAddr_def by (subst unat_add_no_wrap) simp_all
  qed
  show ?thesis
  proof (cases "unat a div 4096 = unat b div 4096")
    case True
    have "unat a mod 4096 + 16 \<le> unat b mod 4096"
    proof -
      have "unat a mod 4096 < unat b mod 4096"
        using lt True by (metis div_mult_mod_eq add_less_cancel_left)
      moreover have "16 dvd unat a mod 4096" "16 dvd unat b mod 4096" using a(1) b(1) by (simp_all add: dvd_mod)
      then obtain k l where "unat a mod 4096 = 16 * k" "unat b mod 4096 = 16 * l" by (auto elim!: dvdE)
      ultimately show ?thesis by simp
    qed
    then show ?thesis using pa pb True by (simp add: separate_def u)
  next
    case False
    then have "unat a div 4096 < unat b div 4096" using lt by (metis div_le_mono le_neq_implies_less nless_le)
    then have "separate (GOTPages obj ! (unat a div 4096)) 4096 (GOTPages obj ! (unat b div 4096)) 4096"
      using pages(2) pb(1) by (simp add: sorted_wrt_iff_nth_less)
    then show ?thesis using pa pb by (auto simp: separate_def u)
  qed
qed

section \<open>New pages\<close>

lemma newPage:
  assumes os: "os_ok os file" and call: "MapAnon os 4096 (ProtRead OR ProtWrite) m = (Ok b, m')"
  shows "page_ok m' b" and "b \<noteq> 0" and "page_ok m p \<Longrightarrow> page_ok m' p \<and> separate p 4096 b 4096"
proof -
  have mm: "mmap_ok os file" and pg: "pagesize_ok os" using os by (simp_all add: os_ok_def)
  have map: "Map os 0 4096 (1 OR 2) (2 OR 0x20) (- 1) 0 m = (Ok b, m')" using call by (simp add: MapAnon_def)
  have n: "4096 \<le> pages os 4096" using pages_ge[OF pg, of 4096] by simp
  have R: "unat b + pages os 4096 \<le> 18446744073709551616" "same_outside b (pages os 4096) m m'"
    "region_prot b (pages os 4096) (Some 3) m'" "b \<noteq> 0" "region_prot b (pages os 4096) None m"
    using mm map by (cases rule: Map_cases; simp)+
  show "b \<noteq> 0" by (rule R(4))
  show "page_ok m' b"
    using region_prot_sub[OF R(3), of b 0 4096] n R(1) by (simp add: page_ok_def)
  assume p: "page_ok m p"
  have sep: "separate p 4096 b (pages os 4096)"
    using region_separate[of p 4096 3 m b "pages os 4096"] p R n by (simp add: page_ok_def)
  have "\<not> in_region b (pages os 4096) x" if "in_region p 4096 x" for x
    using p R(1) sep that by (auto simp: page_ok_def in_region_interval separate_def)
  with p R(2) sep n show "page_ok m' p \<and> separate p 4096 b 4096"
    by (auto simp: page_ok_def region_prot_def same_outside_def separate_def)
qed

lemma onMem_MapAnon:
  assumes "mapErrS g (onMem (MapAnon os n p)) w = (Ok b, w')"
  shows "MapAnon os n p (w_mem w) = (Ok b, w_mem w')"
  using assms by (auto simp: st_Ok onMem_def split: prod.splits)

lemma firstGOTPage_ok:
  assumes os: "os_ok os file" and inv: "got_ok obj (w_mem w)" and call: "firstGOTPage os obj w = (Ok obj', w')"
  shows "got_ok obj' (w_mem w') \<and> GOTBase obj' \<noteq> 0 \<and> GOTSize obj' = GOTSize obj \<and> GOTEntries obj' = GOTEntries obj \<and>
    take (length (GOTPages obj)) (GOTPages obj') = GOTPages obj \<and> length (GOTPages obj') \<le> Suc (length (GOTPages obj))"
proof (cases "GOTBase obj = 0")
  case True
  with call obtain b where b: "mapErrS GOTSpaceFailed (onMem (MapAnon os 4096 (ProtRead OR ProtWrite))) w = (Ok b, w')"
    and obj': "obj' = obj\<lparr>GOTBase := b, GOTEntries := Map.empty, GOTPages := [b]\<rparr>"
    by (auto simp: firstGOTPage_def bindS_eq_Ok retS_eq_Ok)
  note np = newPage[OF os onMem_MapAnon[OF b]]
  show ?thesis using True inv np(1,2) by (simp add: obj' got_ok_def)
next
  case False
  with call inv show ?thesis by (simp add: firstGOTPage_def retS_def)
qed

lemma growGOT_ok:
  assumes os: "os_ok os file" and inv: "got_ok obj (w_mem w)" and base: "GOTBase obj \<noteq> 0"
    and len: "length (GOTPages obj) < 2 ^ 41" and call: "growGOT os obj w = (Ok obj', w')"
  shows "got_ok obj' (w_mem w') \<and> GOTBase obj' = GOTBase obj \<and> GOTSize obj' = GOTSize obj \<and> GOTEntries obj' = GOTEntries obj \<and>
    take (length (GOTPages obj)) (GOTPages obj') = GOTPages obj \<and> unat (GOTSize obj) + 16 \<le> 4096 * length (GOTPages obj')"
proof -
  let ?n = "length (GOTPages obj)"
  have sz: "unat (GOTSize obj) \<le> 4096 * ?n" using inv by (simp add: got_ok_def)
  have r: "unat (GOTSize obj + 16) = unat (GOTSize obj) + 16" using sz len by (subst unat_add_no_wrap) simp_all
  have t: "unat (of_nat ?n * 4096 :: u64) = ?n * 4096"
    using len by (simp add: unat_mult_lem[THEN iffD1] unat_of_nat64)
  show ?thesis
  proof (cases "GOTSize obj + 16 > of_nat ?n * 4096")
    case True
    with call obtain b where b: "mapErrS GOTPageFailed (onMem (MapAnon os 4096 (ProtRead OR ProtWrite))) w = (Ok b, w')"
      and obj': "obj' = obj\<lparr>GOTPages := GOTPages obj @ [b]\<rparr>"
      by (auto simp: growGOT_def Let_def bindS_eq_Ok retS_eq_Ok)
    note np = newPage[OF os onMem_MapAnon[OF b]]
    have "list_all (page_ok (w_mem w)) (GOTPages obj)" using inv by (simp add: got_ok_def)
    then have "list_all (page_ok (w_mem w')) (GOTPages obj)" "\<forall>p\<in>set (GOTPages obj). separate p 4096 b 4096"
      using np(3) by (auto simp: list_all_iff)
    then show ?thesis using inv base sz np(1) by (simp add: obj' got_ok_def sorted_wrt_append nth_append)
  next
    case False
    then have "unat (GOTSize obj) + 16 \<le> 4096 * ?n" using r t by (simp add: word_less_nat_alt)
    with False call inv show ?thesis by (simp add: growGOT_def Let_def retS_def)
  qed
qed

section \<open>A new entry\<close>

lemma gotAddr_prefix:
  assumes "take (length (GOTPages obj)) (GOTPages obj') = GOTPages obj" and "unat off div 4096 < length (GOTPages obj)"
  shows "gotAddr obj' off = gotAddr obj off"
  using assms nth_take[of "unat off div 4096" "length (GOTPages obj)" "GOTPages obj'"] by (simp add: gotAddr_def)

text \<open>Adding the entry at the end of the used part keeps the invariant.\<close>

lemma got_ok_add:
  assumes inv: "got_ok obj m" and room: "unat (GOTSize obj) + 16 \<le> 4096 * length (GOTPages obj)" and new: "GOTEntries obj i = None"
    and len: "length (GOTPages obj) < 2 ^ 42" and base: "GOTBase obj \<noteq> 0"
  shows "got_ok (obj\<lparr>GOTEntries := (GOTEntries obj)(i \<mapsto> GOTSize obj), GOTSize := GOTSize obj + 16\<rparr>) m"
proof -
  have r: "unat (GOTSize obj + 16) = unat (GOTSize obj) + 16" using room len by (subst unat_add_no_wrap) simp_all
  have old: "\<And>j off. GOTEntries obj j = Some off \<Longrightarrow> unat off + 16 \<le> unat (GOTSize obj)"
    using inv by (simp add: got_ok_def)
  have "16 dvd unat (GOTSize obj) + 16" using inv by (simp add: got_ok_def)
  with inv room base old r show ?thesis by (fastforce simp: got_ok_def)
qed

lemma allocateGOTEntryPair_steps:
  assumes "allocateGOTEntryPair os obj i w = (Ok (a, obj'), w')" and "GOTEntries obj i = None"
  obtains obj1 w1 obj2 where "firstGOTPage os obj w = (Ok obj1, w1)" "growGOT os obj1 w1 = (Ok obj2, w')"
    "unat (GOTSize obj2) div 4096 < length (GOTPages obj2)"
    "obj' = obj2\<lparr>GOTEntries := (GOTEntries obj2)(i \<mapsto> GOTSize obj2), GOTSize := GOTSize obj2 + 16\<rparr>"
    "a = gotAddr obj2 (GOTSize obj2)"
proof -
  have w: "of_nat (unat (GOTSize ob) mod 4096) = GOTSize ob mod 4096" for ob :: loaded_object
    by (simp add: word_unat_eq_iff unat_mod unat_of_nat64 less_imp_le_nat)
  from assms show thesis
    by (auto simp: allocateGOTEntryPair_def bindS_eq_Ok retS_eq_Ok liftS_eq_Ok Let_def gotAddr_def w unat_div
        split: if_splits intro!: that)
qed

text \<open>
  C15: A new entry of the offset table. While the invariant of the table holds (writable separate pages, filled from the start,
  no two symbols on one entry), a symbol without an entry gets the next sixteen bytes: they are writable,
  lie apart from the entry of every other symbol, whose addresses stay as they are, and the invariant holds again.
\<close>

theorem allocateGOTEntryPair_fresh:
  assumes "os_ok os file" and "got_ok obj (w_mem w)" and "GOTEntries obj i = None" and "length (GOTPages obj) < 2 ^ 40"
    and "allocateGOTEntryPair os obj i w = (Ok (a, obj'), w')"
  shows "got_ok obj' (w_mem w') \<and> GOTEntries obj' = (GOTEntries obj)(i \<mapsto> GOTSize obj) \<and> a = gotAddr obj' (GOTSize obj) \<and>
    all_writable (w_mem w') a 16 \<and>
    (\<forall>j off. GOTEntries obj j = Some off \<longrightarrow> gotAddr obj' off = gotAddr obj off \<and> separate (gotAddr obj off) 16 a 16)"
proof -
  obtain obj1 w1 obj2 where s1: "firstGOTPage os obj w = (Ok obj1, w1)" and s2: "growGOT os obj1 w1 = (Ok obj2, w')"
    and page: "unat (GOTSize obj2) div 4096 < length (GOTPages obj2)"
    and obj': "obj' = obj2\<lparr>GOTEntries := (GOTEntries obj2)(i \<mapsto> GOTSize obj2), GOTSize := GOTSize obj2 + 16\<rparr>"
    and a: "a = gotAddr obj2 (GOTSize obj2)"
    using assms(5,3) by (rule allocateGOTEntryPair_steps)
  note f = firstGOTPage_ok[OF assms(1,2) s1]
  have l1: "length (GOTPages obj1) < 2 ^ 41" using f assms(4) by simp
  have i1: "got_ok obj1 (w_mem w1)" and b1: "GOTBase obj1 \<noteq> 0" using f by simp_all
  note g = growGOT_ok[OF assms(1) i1 b1 l1 s2]
  have same: "GOTSize obj2 = GOTSize obj" "GOTEntries obj2 = GOTEntries obj" "GOTBase obj2 \<noteq> 0" using f g by simp_all
  have room: "unat (GOTSize obj) + 16 \<le> 4096 * length (GOTPages obj2)" using f g by simp
  have l2: "length (GOTPages obj2) < 2 ^ 42" using s2 l1 by (auto simp: growGOT_def Let_def bindS_eq_Ok retS_eq_Ok split: if_splits)
  have i2: "got_ok obj2 (w_mem w')" using g by simp
  have inv: "got_ok obj' (w_mem w')"
    unfolding obj' using i2 room assms(3) l2 same by (intro got_ok_add) simp_all
  have pre: "take (length (GOTPages obj)) (GOTPages obj2) = GOTPages obj"
    using f g take_take[of "length (GOTPages obj)" "length (GOTPages obj1)" "GOTPages obj2"]
    by (metis length_take min.absorb1 min.cobounded1 nat_le_linear take_all_iff)
  have sz: "16 dvd unat (GOTSize obj)" using assms(2) by (simp add: got_ok_def)
  note pg = entry_in_page[OF sz room]
  have pok: "list_all (page_ok (w_mem w')) (GOTPages obj2)" "sorted_wrt (\<lambda>p q. separate p 4096 q 4096) (GOTPages obj2)"
    using i2 by (simp_all add: got_ok_def)
  have "region_prot (GOTPages obj2 ! (unat (GOTSize obj) div 4096)) 4096 (Some 3) (w_mem w')"
    using pok(1) pg(1) by (simp add: list_all_length page_ok_def)
  from region_writable[OF this, of "unat (GOTSize obj) mod 4096" 16] pg(2)
  have wr: "all_writable (w_mem w') a 16" by (simp add: a gotAddr_def same)
  have others: "gotAddr obj' off = gotAddr obj off \<and> separate (gotAddr obj off) 16 a 16" if "GOTEntries obj j = Some off" for j off
  proof -
    have o: "16 dvd unat off" "unat off + 16 \<le> unat (GOTSize obj)" "unat (GOTSize obj) \<le> 4096 * length (GOTPages obj)"
      using assms(2) that by (auto simp: got_ok_def)
    have in_old: "unat off div 4096 < length (GOTPages obj)" using entry_in_page(1)[OF o(1), of "length (GOTPages obj)"] o by simp
    have "separate (gotAddr obj2 off) 16 (gotAddr obj2 (GOTSize obj)) 16"
      using o room by (intro gotAddr_separate[OF pok o(1) _ sz room]) simp_all
    with gotAddr_prefix[OF pre in_old] show ?thesis by (simp add: a same) (simp add: obj' gotAddr_def)
  qed
  show ?thesis using inv wr others by (simp add: obj' same a) (simp add: gotAddr_def)
qed

lemma freeAt_empty: "freeAt emptyMem a n"
  by (simp add: freeAt_def emptyMem_def list_all_iff)

lemma first_entry_run:
  "\<exists>obj' w'. allocateGOTEntryPair (demoOs []) (newObject demoTwo 0x500000) 7 (initialWorld emptyMem) = (Ok (0x100000, obj'), w')"
  by (simp add: allocateGOTEntryPair_def newObject_def firstGOTPage_def growGOT_def st_defs onMem_def MapAnon_def Map_def demoMmap_def
      initialWorld_def freeAt_empty pages4096_def Let_def)

theorem allocateGOTEntryPair_fresh_witness:
  "\<exists>obj' w'. allocateGOTEntryPair (demoOs []) (newObject demoTwo 0x500000) 7 (initialWorld emptyMem) = (Ok (0x100000, obj'), w') \<and>
     got_ok obj' (w_mem w') \<and> GOTEntries obj' = [7 \<mapsto> 0] \<and> all_writable (w_mem w') 0x100000 16"
proof -
  have ok: "got_ok (newObject demoTwo 0x500000) (w_mem (initialWorld emptyMem))"
    by (simp add: got_ok_def newObject_def)
  have n: "GOTEntries (newObject demoTwo 0x500000) 7 = None" "length (GOTPages (newObject demoTwo 0x500000)) < 2 ^ 40"
    "GOTEntries (newObject demoTwo 0x500000) = Map.empty" "GOTSize (newObject demoTwo 0x500000) = 0"
    by (simp_all add: newObject_def)
  obtain obj' w' where run: "allocateGOTEntryPair (demoOs []) (newObject demoTwo 0x500000) 7 (initialWorld emptyMem) = (Ok (0x100000, obj'), w')"
    using first_entry_run by blast
  from allocateGOTEntryPair_fresh[OF demoOs_ok ok n(1,2) run] run show ?thesis by (auto simp: n)
qed

text \<open>
  The entry of a symbol asked for again. A second request gives \<open>GOTBase\<close> plus the entry's offset over
  all pages. That is the address the entry was made at exactly when the entry's page lies at that distance
  behind the first page; where the kernel has put a later page elsewhere, the second request gives an address
  outside the table.
\<close>

theorem allocateGOTEntryPair_again:
  assumes "GOTEntries obj i = None" and "allocateGOTEntryPair os obj i w = (Ok (a, obj'), w')"
  shows "\<exists>b. allocateGOTEntryPair os obj' i w' = (Ok (b, obj'), w') \<and>
    (b = a \<longleftrightarrow> GOTPages obj' ! (unat (b - GOTBase obj') div 4096) =
      GOTBase obj' + of_nat (unat (b - GOTBase obj') div 4096 * 4096))"
proof -
  obtain obj1 w1 obj2 where obj': "obj' = obj2\<lparr>GOTEntries := (GOTEntries obj2)(i \<mapsto> GOTSize obj2), GOTSize := GOTSize obj2 + 16\<rparr>"
    and a: "a = gotAddr obj2 (GOTSize obj2)"
    using assms(2,1) by (rule allocateGOTEntryPair_steps)
  let ?o = "GOTSize obj2" and ?p = "GOTPages obj2 ! (unat (GOTSize obj2) div 4096)"
  have "of_nat (unat ?o) = (of_nat (unat ?o div 4096 * 4096) + of_nat (unat ?o mod 4096) :: u64)"
    unfolding of_nat_add[symmetric] by simp
  then have o: "?o = of_nat (unat ?o div 4096 * 4096) + of_nat (unat ?o mod 4096)" by simp
  have "GOTBase obj2 + ?o = a \<longleftrightarrow> GOTBase obj2 + (of_nat (unat ?o div 4096 * 4096) + of_nat (unat ?o mod 4096)) = a"
    by (simp only: o[symmetric])
  also have "\<dots> \<longleftrightarrow> ?p = GOTBase obj2 + of_nat (unat ?o div 4096 * 4096)"
    unfolding a gotAddr_def add.assoc[symmetric] add_right_cancel by (rule eq_commute)
  finally have iff: "GOTBase obj2 + ?o = a \<longleftrightarrow> ?p = GOTBase obj2 + of_nat (unat ?o div 4096 * 4096)" .
  have "allocateGOTEntryPair os obj' i w' = (Ok (GOTBase obj2 + ?o, obj'), w')"
    by (simp add: allocateGOTEntryPair_def obj' retS_def)
  with iff show ?thesis by (intro exI[of _ "GOTBase obj2 + ?o"]) (simp add: obj')
qed

definition demoFullGot :: loaded_object where
  "demoFullGot = (newObject demoTwo 0x500000)\<lparr>GOTBase := 0x100000, GOTPages := [0x100000], GOTSize := 0x1000\<rparr>"

theorem allocateGOTEntryPair_again_witness:
  "\<exists>obj' w'. allocateGOTEntryPair (demoOs []) demoFullGot 7 (initialWorld (emptyMem\<lparr>mprot := [0x100000 \<mapsto> 3]\<rparr>)) = (Ok (0x200000, obj'), w') \<and>
     allocateGOTEntryPair (demoOs []) obj' 7 w' = (Ok (0x101000, obj'), w')"
proof -
  let ?m = "emptyMem\<lparr>mprot := [0x100000 \<mapsto> 3]\<rparr>"
  have used: "\<not> freeAt ?m 0x100000 4096" by (auto simp: freeAt_def list_all_iff intro!: bexI[of _ 0])
  have "0x200000 + of_nat i \<noteq> (0x100000 :: u64)" if "i < 4096" for i
    using that by (simp add: word_unat_eq_iff unat_word_ariths unat_of_nat64)
  then have free: "freeAt ?m 0x200000 4096" by (auto simp: freeAt_def list_all_iff emptyMem_def)
  obtain obj' w' where run: "allocateGOTEntryPair (demoOs []) demoFullGot 7 (initialWorld ?m) = (Ok (0x200000, obj'), w')"
      and o: "GOTBase obj' = 0x100000" "GOTPages obj' = [0x100000, 0x200000]" "GOTEntries obj' 7 = Some 0x1000"
    by (auto simp: allocateGOTEntryPair_def demoFullGot_def newObject_def firstGOTPage_def growGOT_def st_defs onMem_def MapAnon_def Map_def
        demoMmap_def initialWorld_def used free pages4096_def Let_def)
  have "GOTEntries demoFullGot 7 = None" by (simp add: demoFullGot_def newObject_def)
  from allocateGOTEntryPair_again[OF this run] obtain b where "allocateGOTEntryPair (demoOs []) obj' 7 w' = (Ok (b, obj'), w')"
    by blast
  moreover from this have "b = 0x101000" by (simp add: allocateGOTEntryPair_def o retS_def)
  ultimately show ?thesis using run by blast
qed

end
