(* ===== verification/Loader_Life.thy ===== *)
theory Loader_Life
  imports Reloc_Got
begin

text \<open>
  The life of an object: \<open>Load\<close> with its constructors and \<open>Unload\<close> with its destructors (\<open>loader/loader.go\<close>).
  Opening a file for mapping is a parameter that gives a descriptor.
\<close>

unbundle bit_operations_syntax

section \<open>Constructors\<close>

definition adjustFunctionAddr :: "u64 \<Rightarrow> loaded_object \<Rightarrow> u64" where
  "adjustFunctionAddr fn obj = (if fn < MemSize (Parsed obj) then Base obj + fn else fn)"

definition applyRELROProtection :: "os \<Rightarrow> loaded_object \<Rightarrow> parsed_object \<Rightarrow> (world, loader_error, unit) st" where
  "applyRELROProtection os obj parsed =
     (case GNURelroSeg parsed of
        None \<Rightarrow> retS ()
      | Some relro \<Rightarrow>
          if ph_Vaddr relro \<ge> BaseVAddr parsed then
            let relroAddr = Base obj + (ph_Vaddr relro - BaseVAddr parsed);
                relroSize = pageUp os (ph_Memsz relro)
            in bindS (attempt (onMem (Protect os relroAddr relroSize ProtRead))) (\<lambda>_. retS ())
          else retS ())"

definition runInitArray :: "native \<Rightarrow> loaded_object \<Rightarrow> (world, loader_error, unit) st" where
  "runInitArray nt obj =
     (if InitArray obj = 0 \<or> InitArraySz obj = 0 then retS ()
      else
        let n = InitArraySz obj div 8
        in forS (\<lambda>i _. bindS (readMem (\<lambda>m. rd64 m (InitArray obj + of_nat i * 8))) (\<lambda>fn.
             if fn \<noteq> 0 then callFunc nt (adjustFunctionAddr fn obj) else retS ())) [0..<unat n] ())"

definition runConstructors :: "native \<Rightarrow> loaded_object \<Rightarrow> (world, loader_error, unit) st" where
  "runConstructors nt obj =
     bindS (if InitAddr obj \<noteq> 0 then callFunc nt (InitAddr obj) else retS ()) (\<lambda>_. runInitArray nt obj)"

section \<open>Loading\<close>

definition finalizeObject ::
    "os \<Rightarrow> native \<Rightarrow> reloc_codes \<Rightarrow> resolver option \<Rightarrow> parsed_object \<Rightarrow> loaded_object \<Rightarrow> (world, loader_error, loaded_object) st" where
  "finalizeObject os nt cd rs parsed obj =
     bindS (mapErrS RelocationsFailed (processRelocations os nt cd rs obj)) (\<lambda>obj.
     bindS (applyRELROProtection os obj parsed) (\<lambda>_.
     bindS (runConstructors nt obj) (\<lambda>_. retS obj)))"

definition parseAndOpen ::
    "(bytes \<Rightarrow> elf_file option) \<Rightarrow> (string \<rightharpoonup> bytes) \<Rightarrow> (string \<rightharpoonup> i64) \<Rightarrow> string \<Rightarrow> (loader_error, parsed_object \<times> i64) result" where
  "parseAndOpen newFile fs openFd path =
     bindR (mapErr ParseFailed (Parse newFile fs path)) (\<lambda>parsed.
       case openFd path of None \<Rightarrow> Err (OpenError path) | Some fd \<Rightarrow> Ok (parsed, fd))"

definition Load ::
    "os \<Rightarrow> native \<Rightarrow> reloc_codes \<Rightarrow> (bytes \<Rightarrow> elf_file option) \<Rightarrow> (string \<rightharpoonup> bytes) \<Rightarrow> (string \<rightharpoonup> i64) \<Rightarrow>
     string \<Rightarrow> resolver option \<Rightarrow> (world, loader_error, loaded_object) st" where
  "Load os nt cd newFile fs openFd path rs =
     bindS (liftS (parseAndOpen newFile fs openFd path)) (\<lambda>(parsed, fd).
     bindS (createAndMapObject os parsed fd) (\<lambda>obj.
       orElse (finalizeObject os nt cd rs parsed obj) (onMem (Unmap os (Base obj) (MemSize parsed)))))"

section \<open>Unloading\<close>

text \<open>\<open>recover\<close> stops a Go panic; a fault in native code is not one.\<close>

definition callFuncSafe :: "native \<Rightarrow> u64 \<Rightarrow> (world, loader_error, unit) st" where
  "callFuncSafe nt fn = (\<lambda>w. case callFunc nt fn w of (r, w') \<Rightarrow> (if r = Panic NativePanic then Ok () else r, w'))"

definition runFiniArray :: "native \<Rightarrow> loaded_object \<Rightarrow> (world, loader_error, unit) st" where
  "runFiniArray nt obj =
     (if FiniArray obj = 0 \<or> FiniArraySz obj = 0 then retS ()
      else
        let n = FiniArraySz obj div 8
        in forS (\<lambda>i _. bindS (readMem (\<lambda>m. rd64 m (FiniArray obj + of_nat i * 8))) (\<lambda>fn.
             if fn \<noteq> 0 then callFuncSafe nt (adjustFunctionAddr fn obj) else retS ())) (rev [0..<unat n]) ())"

definition runFiniFunction :: "native \<Rightarrow> loaded_object \<Rightarrow> (world, loader_error, unit) st" where
  "runFiniFunction nt obj = (if FiniAddr obj \<noteq> 0 then callFuncSafe nt (FiniAddr obj) else retS ())"

definition runFiniCallbacks :: "native \<Rightarrow> loaded_object \<Rightarrow> (world, loader_error, unit) st" where
  "runFiniCallbacks nt obj = bindS (runFiniArray nt obj) (\<lambda>_. runFiniFunction nt obj)"

definition unmapGOTPages :: "os \<Rightarrow> loaded_object \<Rightarrow> (world, loader_error, unit) st" where
  "unmapGOTPages os obj =
     forS (\<lambda>pageAddr _. mapErrS (UnmapGOTFailed pageAddr) (onMem (Unmap os pageAddr gotPageSize))) (GOTPages obj) ()"

definition Unload :: "os \<Rightarrow> native \<Rightarrow> loaded_object \<Rightarrow> (world, loader_error, unit) st" where
  "Unload os nt obj =
     bindS (runFiniCallbacks nt obj) (\<lambda>_.
     bindS (unmapGOTPages os obj) (\<lambda>_.
       mapErrS UnmapFailed (onMem (Unmap os (Base obj) (MemSize (Parsed obj))))))"

section \<open>The order of constructors and destructors\<close>

text \<open>An array of function addresses in memory, as the linker writes it.\<close>

definition functions_at :: "memory \<Rightarrow> u64 \<Rightarrow> u64 \<Rightarrow> u64 list \<Rightarrow> bool" where
  "functions_at m a sz fns \<longleftrightarrow>
     unat sz div 8 = length fns \<and> holds m a (concat (map (\<lambda>f. le_enc 8 (unat f)) fns))"

text \<open>Native code that leaves the memory at the array alone; the array is read while the functions run.\<close>

definition array_kept :: "native \<Rightarrow> u64 \<Rightarrow> u64 \<Rightarrow> u64 list \<Rightarrow> bool" where
  "array_kept nt a sz fns \<longleftrightarrow>
     (\<forall>f w. functions_at (w_mem w) a sz fns \<longrightarrow> functions_at (w_mem (snd (nt_call nt f w))) a sz fns)"

text \<open>The calls a list of addresses stands for.\<close>

definition callAll :: "(u64 \<Rightarrow> (world, loader_error, unit) st) \<Rightarrow> u64 list \<Rightarrow> (world, loader_error, unit) st" where
  "callAll call fns = forS (\<lambda>f _. call f) fns ()"

definition live :: "loaded_object \<Rightarrow> u64 list \<Rightarrow> u64 list" where
  "live obj fns = map (\<lambda>f. adjustFunctionAddr f obj) (filter (\<lambda>f. f \<noteq> 0) fns)"

lemma functions_at_nth:
  assumes "functions_at m a sz fns" and "i < length fns"
  shows "rd64 m (a + of_nat i * 8) = Ok (fns ! i)"
proof -
  have "holds m (a + of_nat (i * 8)) (le_enc 8 (unat (fns ! i)))"
    using assms by (intro holds_concat) (auto simp: functions_at_def)
  then show ?thesis by (intro holds_rd64) simp
qed

text \<open>A loop over positions of the array is the loop over the functions there.\<close>

lemma array_loop:
  assumes inv: "functions_at (w_mem w) a sz fns"
    and keep: "\<And>f w. functions_at (w_mem w) a sz fns \<Longrightarrow> functions_at (w_mem (snd (call f w))) a sz fns"
    and ixs: "set ixs \<subseteq> {..<length fns}"
  shows "forS (\<lambda>i _. bindS (readMem (\<lambda>m. rd64 m (a + of_nat i * 8))) (\<lambda>fn.
      if fn \<noteq> 0 then call (adjustFunctionAddr fn obj) else retS ())) ixs () w =
    callAll call (live obj (map (\<lambda>i. fns ! i) ixs)) w"
  using inv ixs
proof (induction ixs arbitrary: w)
  case Nil
  then show ?case by (simp add: callAll_def live_def)
next
  case (Cons i ixs)
  then have rd: "rd64 (w_mem w) (a + of_nat i * 8) = (Ok (fns ! i) :: (loader_error, u64) result)"
    by (intro functions_at_nth) simp_all
  have IH: "functions_at (w_mem u) a sz fns \<Longrightarrow>
      forS (\<lambda>i _. bindS (readMem (\<lambda>m. rd64 m (a + of_nat i * 8))) (\<lambda>fn.
        if fn \<noteq> 0 then call (adjustFunctionAddr fn obj) else retS ())) ixs () u =
      callAll call (live obj (map (\<lambda>i. fns ! i) ixs)) u" for u
    using Cons.IH Cons.prems(2) by simp
  show ?case
  proof (cases "fns ! i = 0")
    case True
    with IH[OF Cons.prems(1)] rd show ?thesis by (simp add: bindS_def readMem_run retS_def live_def)
  next
    case False
    obtain r u where c: "call (adjustFunctionAddr (fns ! i) obj) w = (r, u)" by fastforce
    have "functions_at (w_mem u) a sz fns" using keep[OF Cons.prems(1), of "adjustFunctionAddr (fns ! i) obj"] c by simp
    note IH[OF this]
    with False rd c show ?thesis
      by (cases r) (simp_all add: bindS_def readMem_run live_def callAll_def)
  qed
qed

lemma snd_callFunc: "snd (callFunc nt f w) = snd (nt_call nt f w)"
  by (simp add: callFunc_def nativeS_def split: prod.split)

lemma snd_callFuncSafe: "snd (callFuncSafe nt f w) = snd (nt_call nt f w)"
  using snd_callFunc[where 'a = loader_error, of nt f w] by (auto simp: callFuncSafe_def split: prod.split)

lemma callAll_append: "callAll call (xs @ ys) = bindS (callAll call xs) (\<lambda>_. callAll call ys)"
  by (simp add: callAll_def forS_append)

lemma callAll_single: "callAll call [f] = call f"
  by (rule ext) (simp add: callAll_def bindS_def retS_def split: prod.split result.split)

lemma map_nth_rev: "map ((!) fns) (rev [0..<length fns]) = rev fns"
  by (simp add: rev_map[symmetric] map_nth)

text \<open>
  C10: The order of constructors and destructors. With the arrays in memory as the linker wrote them, and
  left alone by the functions called, \<open>runConstructors\<close> calls \<open>DT_INIT\<close> and then the functions of \<open>DT_INIT_ARRAY\<close> from
  first to last, and \<open>runFiniCallbacks\<close> calls those of \<open>DT_FINI_ARRAY\<close> from last to first and then \<open>DT_FINI\<close>. Null
  entries are skipped and link-time addresses are moved to where the object is.
\<close>

theorem lifecycle_order:
  assumes "functions_at (w_mem w) (InitArray obj) (InitArraySz obj) inits" and "InitArray obj \<noteq> 0"
    and "array_kept nt (InitArray obj) (InitArraySz obj) inits"
    and "functions_at (w_mem v) (FiniArray obj) (FiniArraySz obj) finis" and "FiniArray obj \<noteq> 0"
    and "array_kept nt (FiniArray obj) (FiniArraySz obj) finis"
  shows "runConstructors nt obj w =
      callAll (callFunc nt) ((if InitAddr obj \<noteq> 0 then [InitAddr obj] else []) @ live obj inits) w \<and>
    runFiniCallbacks nt obj v =
      callAll (callFuncSafe nt) (live obj (rev finis) @ (if FiniAddr obj \<noteq> 0 then [FiniAddr obj] else [])) v"
proof
  have ni: "unat (InitArraySz obj div 8) = length inits" and nf: "unat (FiniArraySz obj div 8) = length finis"
    using assms(1,4) by (simp_all add: functions_at_def unat_div)
  have sub: "set [0..<length inits] \<subseteq> {..<length inits}" "set (rev [0..<length finis]) \<subseteq> {..<length finis}" by auto
  have init: "runInitArray nt obj u = callAll (callFunc nt) (live obj inits) u"
    if "functions_at (w_mem u) (InitArray obj) (InitArraySz obj) inits" for u
  proof (cases "InitArraySz obj = 0")
    case True
    with ni show ?thesis by (simp add: runInitArray_def live_def callAll_def)
  next
    case False
    have "runInitArray nt obj u = callAll (callFunc nt) (live obj (map ((!) inits) [0..<length inits])) u"
      using False assms(2) array_loop[OF that _ sub(1), of "callFunc nt" obj] assms(3)
      by (simp add: runInitArray_def Let_def ni array_kept_def snd_callFunc)
    then show ?thesis by (simp add: map_nth)
  qed
  have kept: "functions_at (w_mem (snd (callFunc nt (InitAddr obj) w :: (loader_error, unit) result \<times> world)))
      (InitArray obj) (InitArraySz obj) inits"
    using assms(1,3) by (simp add: array_kept_def snd_callFunc)
  show "runConstructors nt obj w =
      callAll (callFunc nt) ((if InitAddr obj \<noteq> 0 then [InitAddr obj] else []) @ live obj inits) w"
  proof (cases "InitAddr obj = 0")
    case True
    with init[OF assms(1)] show ?thesis by (simp add: runConstructors_def bindS_def retS_def)
  next
    case False
    obtain r u where c: "callFunc nt (InitAddr obj) w = (r :: (loader_error, unit) result, u)" by fastforce
    with kept init[of u] False show ?thesis
      by (cases r) (simp_all add: runConstructors_def bindS_def callAll_def)
  qed
  have fini: "runFiniArray nt obj v = callAll (callFuncSafe nt) (live obj (rev finis)) v"
  proof (cases "FiniArraySz obj = 0")
    case True
    with nf show ?thesis by (simp add: runFiniArray_def live_def callAll_def)
  next
    case False
    have "runFiniArray nt obj v = callAll (callFuncSafe nt) (live obj (map ((!) finis) (rev [0..<length finis]))) v"
      using False assms(5) array_loop[OF assms(4) _ sub(2), of "callFuncSafe nt" obj] assms(6)
      by (simp add: runFiniArray_def Let_def nf array_kept_def snd_callFuncSafe)
    then show ?thesis by (simp only: map_nth_rev)
  qed
  show "runFiniCallbacks nt obj v =
      callAll (callFuncSafe nt) (live obj (rev finis) @ (if FiniAddr obj \<noteq> 0 then [FiniAddr obj] else [])) v"
    using fini by (cases "FiniAddr obj = 0")
      (simp_all add: runFiniCallbacks_def runFiniFunction_def callAll_append callAll_single bindS_def,
       simp add: callAll_def retS_def split: prod.split result.split)
qed

section \<open>Unloading\<close>

text \<open>Native code that changes nothing of the memory.\<close>

definition quiet_native :: "native \<Rightarrow> bool" where
  "quiet_native nt \<longleftrightarrow> (\<forall>f w. w_mem (snd (nt_call nt f w)) = w_mem w)"

lemma keeps_callFuncSafe: "quiet_native nt \<Longrightarrow> keeps (\<lambda>w. w_mem w = m) (callFuncSafe nt f)"
  by (simp add: keeps_def snd_callFuncSafe quiet_native_def)

lemma keeps_runFini: "quiet_native nt \<Longrightarrow> keeps (\<lambda>w. w_mem w = m) (runFiniCallbacks nt obj)"
  unfolding runFiniCallbacks_def runFiniArray_def runFiniFunction_def Let_def
  by (intro keeps_intros keeps_callFuncSafe)

definition unmapped :: "memory \<Rightarrow> u64 \<Rightarrow> nat \<Rightarrow> bool" where
  "unmapped m a n \<longleftrightarrow> region_prot a n None m"

text \<open>The regions of \<open>unmapGOTPages\<close> and of the image.\<close>

definition in_regions :: "os \<Rightarrow> (u64 \<times> u64) list \<Rightarrow> u64 \<Rightarrow> bool" where
  "in_regions os rs x \<longleftrightarrow> list_ex (\<lambda>(a, len). in_region a (pages os len) x) rs"

definition taken_out :: "os \<Rightarrow> (u64 \<times> u64) list \<Rightarrow> memory \<Rightarrow> memory \<Rightarrow> bool" where
  "taken_out os rs m m' \<longleftrightarrow>
     (\<forall>x. if in_regions os rs x then mprot m' x = None else mprot m' x = mprot m x \<and> mbytes m' x = mbytes m x)"

lemma Unmap_taken_out:
  assumes os: "munmap_ok os" and call: "mapErrS g (onMem (Unmap os a len)) w = (Ok (), w')" and before: "taken_out os rs m (w_mem w)"
  shows "taken_out os (rs @ [(a, len)]) m (w_mem w')"
proof -
  have u: "Unmap os a len (w_mem w) = (Ok (), w_mem w')"
    using call by (auto simp: st_Ok onMem_def split: prod.splits)
  from os u have "same_outside a (pages os len) (w_mem w) (w_mem w')" "region_prot a (pages os len) None (w_mem w')"
    by (cases rule: Unmap_cases; simp)+
  then have new: "in_region a (pages os len) x \<Longrightarrow> mprot (w_mem w') x = None"
    "\<not> in_region a (pages os len) x \<Longrightarrow> mprot (w_mem w') x = mprot (w_mem w) x \<and> mbytes (w_mem w') x = mbytes (w_mem w) x" for x
    by (simp_all add: same_outside_def region_prot_def)
  have split: "in_regions os (rs @ [(a, len)]) x \<longleftrightarrow> in_regions os rs x \<or> in_region a (pages os len) x" for x
    by (auto simp: in_regions_def)
  show ?thesis
    unfolding taken_out_def
  proof
    fix x
    show "if in_regions os (rs @ [(a, len)]) x then mprot (w_mem w') x = None
        else mprot (w_mem w') x = mprot m x \<and> mbytes (w_mem w') x = mbytes m x"
      using before new[of x] by (cases "in_region a (pages os len) x") (auto simp: taken_out_def split dest: spec[of _ x])
  qed
qed

lemma unmapGOT_taken_out:
  assumes os: "munmap_ok os" and call: "forS (\<lambda>p _. mapErrS (g p) (onMem (Unmap os p len))) ps () w = (Ok (), w')"
    and before: "taken_out os rs m (w_mem w)"
  shows "taken_out os (rs @ map (\<lambda>p. (p, len)) ps) m (w_mem w')"
  using call before
proof (induction ps arbitrary: w rs)
  case Nil
  then show ?case by (simp add: retS_def)
next
  case (Cons p ps)
  from Cons.prems(1) obtain w1 where one: "mapErrS (g p) (onMem (Unmap os p len)) w = (Ok (), w1)"
    and rest: "forS (\<lambda>p _. mapErrS (g p) (onMem (Unmap os p len))) ps () w1 = (Ok (), w')"
    by (auto simp: bindS_eq_Ok)
  from Cons.IH[OF rest Unmap_taken_out[OF os one Cons.prems(2)]] show ?case by simp
qed

lemma Unload_takes_out:
  assumes "munmap_ok os" and "quiet_native nt" and "Unload os nt obj w = (Ok (), w')"
  shows "taken_out os (map (\<lambda>p. (p, 4096)) (GOTPages obj) @ [(Base obj, MemSize (Parsed obj))]) (w_mem w) (w_mem w')"
proof -
  obtain w1 w2 where f: "runFiniCallbacks nt obj w = (Ok (), w1)" and g: "unmapGOTPages os obj w1 = (Ok (), w2)"
    and u: "mapErrS UnmapFailed (onMem (Unmap os (Base obj) (MemSize (Parsed obj)))) w2 = (Ok (), w')"
    using assms(3) by (auto simp: Unload_def bindS_eq_Ok)
  have "w_mem w1 = w_mem w" by (rule keepsD[OF keeps_runFini[OF assms(2)] refl f])
  then have "taken_out os [] (w_mem w) (w_mem w1)" by (simp add: taken_out_def in_regions_def)
  from unmapGOT_taken_out[OF assms(1) g[unfolded unmapGOTPages_def] this]
  have "taken_out os (map (\<lambda>p. (p, 4096)) (GOTPages obj)) (w_mem w) (w_mem w2)" by simp
  then show ?thesis by (rule Unmap_taken_out[OF assms(1) u])
qed

text \<open>
  C12: Unloading. When \<open>Unload\<close> returns without an error, and the destructors left the memory alone, every page of
  the image and every page of the offset table is unmapped, and every other address has the protection and
  contents it had before.
\<close>

theorem Unload_unmaps:
  assumes "munmap_ok os" and "quiet_native nt" and "Unload os nt obj w = (Ok (), w')"
  shows "taken_out os (map (\<lambda>p. (p, 4096)) (GOTPages obj) @ [(Base obj, MemSize (Parsed obj))]) (w_mem w) (w_mem w')"
  by (rule Unload_takes_out[OF assms])

section \<open>A failed load\<close>

lemma orElse_Err:
  assumes "orElse c h s = (Err e, u)"
  obtains t z where "c s = (Err e, t)" "h t = (z, u)"
  using assms by (auto simp: orElse_def split: prod.splits result.splits)



text \<open>Loading the small example file.\<close>

lemma demo_Load:
  "\<exists>obj w. Load (demoOs demoBytes) demoNative amd64Codes (\<lambda>_. Some demoElf) demoFs [''a.so'' \<mapsto> 3] ''a.so'' rs (initialWorld emptyMem) = (Ok obj, w) \<and>
     Base obj = 0x100000 \<and> RefCount obj = 1 \<and> Soname obj = []"
proof -
  have pao: "parseAndOpen (\<lambda>_. Some demoElf) demoFs [''a.so'' \<mapsto> 3] ''a.so'' = Ok (demoParsed, 3)"
    by (simp add: parseAndOpen_def demo_Parse)
  have free: "freeAt \<lparr>mbytes = \<lambda>_. 0, mprot = \<lambda>_. None\<rparr> a n" for a n by (simp add: freeAt_def list_all_iff)
  show ?thesis
    by (simp add: Load_def pao createAndMapObject_def initialWorld_def onMem_def MapAnon_def Map_def demoMmap_def free
        orElse_def mapSegments_def demoParsed_def mapSegment_def Let_def pageDown_def pageUp_def demoLoad_def
        elfProt_def computeMapProt_def mapFileRegion_def mapBSSRegion_def st_defs
        MapFixed_def newObject_def pages4096_def 
        populateObject_def readMem_def loadS_def populateDynamicTags_def populateRelocationTags_def
        populateSymbolTags_def extractRelocationAddresses_def ifTag_def validateRelocationTables_def populateInitFiniTags_def
        populateInitTags_def populateFiniTags_def populateSoname_def initializeSymbolTable_def computeSymbolTableSize_def
        loadVersionInfo_def setupTLS_def emptyMem_def finalizeObject_def processRelocations_def applyRelaTable_def
        applyRELROProtection_def runConstructors_def runInitArray_def)
qed

text \<open>A library with two functions in each array.\<close>

definition demoFunctions :: bytes where
  "demoFunctions = concat (map (\<lambda>f. le_enc 8 (unat f)) [0x10, 0x7000 :: u64])"

definition demoArrays :: memory where
  "demoArrays = \<lparr>mbytes = store (\<lambda>_. 0) 0x1000 demoFunctions, mprot = \<lambda>_. Some 3\<rparr>"

definition demoLib :: loaded_object where
  "demoLib = (newObject demoTwo 0x2000)\<lparr>InitAddr := 0x2100, InitArray := 0x1000, InitArraySz := 16,
     FiniArray := 0x1000, FiniArraySz := 16, FiniAddr := 0x2200, GOTPages := [0x9000]\<rparr>"

theorem lifecycle_order_witness:
  "runConstructors demoNative demoLib (initialWorld demoArrays) =
     callAll (callFunc demoNative) [0x2100, 0x2010, 0x7000] (initialWorld demoArrays) \<and>
   runFiniCallbacks demoNative demoLib (initialWorld demoArrays) =
     callAll (callFuncSafe demoNative) [0x7000, 0x2010, 0x2200] (initialWorld demoArrays)"
proof -
  have "length demoFunctions = 16" by (simp add: demoFunctions_def)
  then have "holds (demoArrays\<lparr>mbytes := store (\<lambda>_. 0) 0x1000 demoFunctions\<rparr>) 0x1000 demoFunctions"
    by (intro holds_store) (auto simp: all_readable_iff readable_def demoArrays_def)
  then have "holds demoArrays 0x1000 demoFunctions" by (simp add: demoArrays_def)
  then have at: "functions_at (w_mem (initialWorld demoArrays)) 0x1000 16 [0x10, 0x7000]"
    by (simp add: functions_at_def initialWorld_def demoFunctions_def)
  have kept: "array_kept demoNative a sz fns" for a sz fns
    by (simp add: array_kept_def demoNative_def)
  have f: "InitArray demoLib = 0x1000" "InitArraySz demoLib = 16" "FiniArray demoLib = 0x1000" "FiniArraySz demoLib = 16"
    "InitAddr demoLib = 0x2100" "FiniAddr demoLib = 0x2200"
    by (simp_all add: demoLib_def)
  have l: "live demoLib [0x10, 0x7000] = [0x2010, 0x7000]" "live demoLib [0x7000, 0x10] = [0x7000, 0x2010]"
    by (simp_all add: live_def adjustFunctionAddr_def demoLib_def newObject_def demoTwo_def)
  show ?thesis
    using lifecycle_order[where obj = demoLib and nt = demoNative, unfolded f, OF at _ kept at _ kept] by (simp add: l)
qed

theorem Unload_unmaps_witness:
  "\<exists>w'. Unload (demoOs []) demoNative demoLib (initialWorld demoArrays) = (Ok (), w') \<and>
     mprot (w_mem w') 0x2000 = None \<and> mprot (w_mem w') 0x9008 = None \<and> mprot (w_mem w') 0x8000 = Some 3"
proof -
  have mu: "munmap_ok (demoOs [])" using demoOs_ok[of "[]"] by (simp add: os_ok_def)
  have q: "quiet_native demoNative" by (simp add: quiet_native_def demoNative_def)
  have rd: "\<exists>v. rd64 demoArrays a = (Ok v :: ('e, u64) result)" for a
  proof -
    have "find (\<lambda>i. \<not> readable demoArrays (a + of_nat i)) [0..<8] = None"
      by (simp add: find_None_iff readable_def demoArrays_def)
    then show ?thesis by (simp add: rd64_def rd_bytes_def)
  qed
  obtain u v where uv: "rd64 demoArrays 0x1000 = (Ok u :: (loader_error, u64) result)" "rd64 demoArrays 0x1008 = (Ok v :: (loader_error, u64) result)"
    using rd by metis
  have "\<exists>w'. Unload (demoOs []) demoNative demoLib (initialWorld demoArrays) = (Ok (), w')"
    by (simp add: Unload_def runFiniCallbacks_def runFiniArray_def runFiniFunction_def demoLib_def newObject_def demoTwo_def
        unmapGOTPages_def st_defs readMem_run initialWorld_def uv callFuncSafe_def callFunc_def nativeS_def demoNative_def
        onMem_def Unmap_def Let_def upt_conv_Cons)
  then obtain w' where run: "Unload (demoOs []) demoNative demoLib (initialWorld demoArrays) = (Ok (), w')" by blast
  from Unload_unmaps[OF mu q run] have t: "taken_out (demoOs []) [(0x9000, 4096), (0x2000, 0x3000)] demoArrays (w_mem w')"
    by (simp add: demoLib_def newObject_def demoTwo_def initialWorld_def)
  have "mprot (w_mem w') 0x2000 = None" "mprot (w_mem w') 0x9008 = None" "mprot (w_mem w') 0x8000 = Some 3"
    using t[unfolded taken_out_def, THEN spec, of "0x2000"] t[unfolded taken_out_def, THEN spec, of "0x9008"]
      t[unfolded taken_out_def, THEN spec, of "0x8000"]
    by (simp_all add: in_regions_def in_region_def pages4096_def demoArrays_def)
  with run show ?thesis by blast
qed

end
