(* ===== verification/Loader_Relro.thy ===== *)
theory Loader_Relro
  imports Loader_Life
begin

text \<open>
  The last part of \<open>Load\<close> (\<open>loader/loader.go\<close>): what the protection of \<open>PT_GNU_RELRO\<close> leaves of the memory the
  relocations have written, with constructors that leave the memory alone.
\<close>

unbundle bit_operations_syntax

text \<open>The range \<open>applyRELROProtection\<close> asks the kernel to protect.\<close>

abbreviation (input) relroStart :: "loaded_object \<Rightarrow> parsed_object \<Rightarrow> prog_header \<Rightarrow> u64" where
  "relroStart obj parsed relro \<equiv> Base obj + (ph_Vaddr relro - BaseVAddr parsed)"

abbreviation (input) relroSize :: "os \<Rightarrow> prog_header \<Rightarrow> u64" where
  "relroSize os relro \<equiv> pageUp os (ph_Memsz relro)"

lemma keeps_callFunc: "quiet_native nt \<Longrightarrow> keeps (\<lambda>w. w_mem w = m) (callFunc nt f)"
  by (simp add: keeps_def snd_callFunc quiet_native_def)

lemma keeps_runConstructors: "quiet_native nt \<Longrightarrow> keeps (\<lambda>w. w_mem w = m) (runConstructors nt obj)"
  unfolding runConstructors_def runInitArray_def Let_def
  by (intro keeps_intros keeps_callFunc)

lemma applyRELRO_run:
  assumes "mprotect_ok os" and "GNURelroSeg parsed = Some relro" and "BaseVAddr parsed \<le> ph_Vaddr relro"
    and "applyRELROProtection os obj parsed w = (Ok (), w')"
  shows "case os_mprotect os (relroStart obj parsed relro) (relroSize os relro) 1 (w_mem w) of
      (Ok u, m) \<Rightarrow> w_mem w' = m \<and> mbytes m = mbytes (w_mem w) \<and>
        same_outside (relroStart obj parsed relro) (pages os (relroSize os relro)) (w_mem w) m \<and>
        region_prot (relroStart obj parsed relro) (pages os (relroSize os relro)) (Some 1) m
    | (q, m) \<Rightarrow> w_mem w' = w_mem w"
proof -
  obtain q m where call: "os_mprotect os (relroStart obj parsed relro) (relroSize os relro) 1 (w_mem w) = (q, m)" by fastforce
  note spec = assms(1)[unfolded mprotect_ok_def, rule_format, OF call]
  show ?thesis
    using assms(2-4) spec call
    by (cases q) (auto simp: applyRELROProtection_def Let_def bindS_def retS_def attempt_def onMem_def Protect_def mapErrS_def)
qed

text \<open>
  C11: Read-only relocations. When relocating has succeeded and the file has a \<open>PT_GNU_RELRO\<close> segment, its whole pages
  are read-only when \<open>Load\<close> returns, with the contents the relocations have left, and the memory outside them is
  untouched; unless the kernel refuses, which is not reported: then they stay as they were.
\<close>

theorem relro_protection:
  assumes "mprotect_ok os" and "quiet_native nt" and "GNURelroSeg parsed = Some relro" and "BaseVAddr parsed \<le> ph_Vaddr relro"
    and "finalizeObject os nt cd rs parsed obj w = (Ok obj', w')"
  shows "\<exists>w1. processRelocations os nt cd rs obj w = (Ok obj', w1) \<and>
    (case os_mprotect os (relroStart obj' parsed relro) (relroSize os relro) 1 (w_mem w1) of
       (Ok u, m) \<Rightarrow> mbytes (w_mem w') = mbytes (w_mem w1) \<and>
         same_outside (relroStart obj' parsed relro) (pages os (relroSize os relro)) (w_mem w1) (w_mem w') \<and>
         region_prot (relroStart obj' parsed relro) (pages os (relroSize os relro)) (Some 1) (w_mem w')
     | (q, m) \<Rightarrow> w_mem w' = w_mem w1)"
proof -
  obtain w1 w2 where rel: "processRelocations os nt cd rs obj w = (Ok obj', w1)"
    and relro: "applyRELROProtection os obj' parsed w1 = (Ok (), w2)" and con: "runConstructors nt obj' w2 = (Ok (), w')"
    using assms(5) by (auto simp: finalizeObject_def st_Ok)
  have "w_mem w' = w_mem w2" by (rule keepsD[OF keeps_runConstructors[OF assms(2)] refl con])
  with rel applyRELRO_run[OF assms(1,3,4) relro] show ?thesis by (auto split: prod.splits result.splits)
qed

text \<open>
  A segment that does not start on a page, as linkers lay it out, is never protected: the kernel refuses
  a start off the page grid.
\<close>

theorem relro_unaligned:
  assumes "mprotect_ok os" and "quiet_native nt" and "GNURelroSeg parsed = Some relro" and "BaseVAddr parsed \<le> ph_Vaddr relro"
    and "finalizeObject os nt cd rs parsed obj w = (Ok obj', w')"
    and "\<And>a len prot m. unat a mod unat (os_pagesize os) \<noteq> 0 \<Longrightarrow> os_mprotect os a len prot m = (Err 22, m)"
    and "unat (relroStart obj' parsed relro) mod unat (os_pagesize os) \<noteq> 0"
  shows "\<exists>w1. processRelocations os nt cd rs obj w = (Ok obj', w1) \<and> w_mem w' = w_mem w1"
proof -
  obtain w1 w2 where rel: "processRelocations os nt cd rs obj w = (Ok obj', w1)"
    and relro: "applyRELROProtection os obj' parsed w1 = (Ok (), w2)" and con: "runConstructors nt obj' w2 = (Ok (), w')"
    using assms(5) by (auto simp: finalizeObject_def st_Ok)
  have "w_mem w' = w_mem w2" by (rule keepsD[OF keeps_runConstructors[OF assms(2)] refl con])
  with rel applyRELRO_run[OF assms(1,3,4) relro] show ?thesis by (simp add: assms(6)[OF assms(7)])
qed

section \<open>The protection on an example\<close>

text \<open>An object whose second page is to be read-only after relocating.\<close>

definition relroParsed :: parsed_object where
  "relroParsed = demoTwo\<lparr>GNURelroSeg := Some (demoData\<lparr>ph_Vaddr := 0x1000, ph_Memsz := 0x800\<rparr>)\<rparr>"

definition pickyOs :: os where
  "pickyOs = (demoOs [])\<lparr>os_mprotect := (\<lambda>a len prot m.
     if unat a mod 4096 \<noteq> 0 then (Err 22, m) else os_mprotect (demoOs []) a len prot m)\<rparr>"

lemma picky_ok: "mprotect_ok pickyOs" "os_pagesize pickyOs = 4096" "pageUp pickyOs 0x800 = 0x1000" "pages pickyOs 0x1000 = 4096"
  using demoOs_ok[of "[]"]
  by (auto simp: pickyOs_def mprotect_ok_def os_ok_def pageUp_def pages_def split: if_splits)

lemma demoNative_quiet: "quiet_native demoNative"
  by (simp add: quiet_native_def demoNative_def)

lemma relro_example:
  "GNURelroSeg relroParsed = Some (demoData\<lparr>ph_Vaddr := 0x1000, ph_Memsz := 0x800\<rparr>)"
  "BaseVAddr relroParsed \<le> ph_Vaddr (demoData\<lparr>ph_Vaddr := 0x1000, ph_Memsz := 0x800\<rparr>)"
  "relroStart (newObject relroParsed b) relroParsed (demoData\<lparr>ph_Vaddr := 0x1000, ph_Memsz := 0x800\<rparr>) = b + 0x1000"
  "processRelocations pickyOs demoNative amd64Codes None (newObject relroParsed b) w = (Ok (newObject relroParsed b), w)"
  "\<exists>w'. finalizeObject pickyOs demoNative amd64Codes None relroParsed (newObject relroParsed b) w = (Ok (newObject relroParsed b), w')"
proof -
  let ?obj = "newObject relroParsed b"
  show seg: "GNURelroSeg relroParsed = Some (demoData\<lparr>ph_Vaddr := 0x1000, ph_Memsz := 0x800\<rparr>)"
    and "BaseVAddr relroParsed \<le> ph_Vaddr (demoData\<lparr>ph_Vaddr := 0x1000, ph_Memsz := 0x800\<rparr>)"
    and "relroStart ?obj relroParsed (demoData\<lparr>ph_Vaddr := 0x1000, ph_Memsz := 0x800\<rparr>) = b + 0x1000"
    by (simp_all add: newObject_def relroParsed_def demoTwo_def)
  show rel: "processRelocations pickyOs demoNative amd64Codes None ?obj w = (Ok ?obj, w)"
    by (simp add: processRelocations_def applyRelaTable_def st_defs newObject_def)
  have "os_mprotect pickyOs a len prot m = (if unat a mod 4096 \<noteq> 0 then (Err 22, m) else os_mprotect (demoOs []) a len prot m)" for a len prot m
    by (simp add: pickyOs_def)
  then have "\<exists>w'. applyRELROProtection pickyOs ?obj relroParsed w = (Ok (), w')"
    by (simp add: applyRELROProtection_def seg Let_def bindS_def retS_def attempt_def onMem_def Protect_def mapErrS_def
        split: prod.split result.split)
  moreover have "runConstructors demoNative ?obj = retS ()"
    by (rule ext) (simp add: runConstructors_def runInitArray_def newObject_def bindS_def retS_def)
  ultimately show "\<exists>w'. finalizeObject pickyOs demoNative amd64Codes None relroParsed ?obj w = (Ok ?obj, w')"
    by (auto simp: finalizeObject_def rel bindS_def mapErrS_def retS_def)
qed

theorem relro_protection_witness:
  "\<exists>w'. finalizeObject pickyOs demoNative amd64Codes None relroParsed (newObject relroParsed 0x2000) (initialWorld openMem) =
      (Ok (newObject relroParsed 0x2000), w') \<and>
     region_prot 0x3000 4096 (Some 1) (w_mem w') \<and> mprot (w_mem w') 0x4000 = Some 3"
proof -
  obtain w' where run: "finalizeObject pickyOs demoNative amd64Codes None relroParsed (newObject relroParsed 0x2000) (initialWorld openMem) =
      (Ok (newObject relroParsed 0x2000), w')"
    using relro_example(5) by blast
  have "os_mprotect pickyOs 0x3000 0x1000 1 m = (Ok (), mapRegion 0x3000 (pages4096 0x1000) (Some 1) (mbytes m) m)" for m
    by (simp add: pickyOs_def)
  with relro_protection[OF picky_ok(1) demoNative_quiet relro_example(1,2) run, unfolded relro_example(3,4)]
  have "same_outside 0x3000 4096 openMem (w_mem w')" "region_prot 0x3000 4096 (Some 1) (w_mem w')"
    by (auto simp: picky_ok initialWorld_def)
  moreover have "\<not> in_region 0x3000 4096 0x4000" by (simp add: in_region_def)
  ultimately have "region_prot 0x3000 4096 (Some 1) (w_mem w')" "mprot (w_mem w') 0x4000 = Some 3"
    unfolding same_outside_def by (simp_all add: openMem_def)
  with run show ?thesis by blast
qed

theorem relro_unaligned_witness:
  "\<exists>w'. finalizeObject pickyOs demoNative amd64Codes None relroParsed (newObject relroParsed 0x2010) (initialWorld openMem) =
      (Ok (newObject relroParsed 0x2010), w') \<and> w_mem w' = openMem"
proof -
  obtain w' where run: "finalizeObject pickyOs demoNative amd64Codes None relroParsed (newObject relroParsed 0x2010) (initialWorld openMem) =
      (Ok (newObject relroParsed 0x2010), w')"
    using relro_example(5) by blast
  have off: "unat (relroStart (newObject relroParsed 0x2010) relroParsed (demoData\<lparr>ph_Vaddr := 0x1000, ph_Memsz := 0x800\<rparr>)) mod
      unat (os_pagesize pickyOs) \<noteq> 0"
    unfolding relro_example(3) by (simp add: picky_ok)
  have "os_mprotect pickyOs a len prot m = (Err 22, m)" if "unat a mod unat (os_pagesize pickyOs) \<noteq> 0" for a len prot m
    using that by (simp add: pickyOs_def)
  from relro_unaligned[OF picky_ok(1) demoNative_quiet relro_example(1,2) run this off] run
  show ?thesis by (auto simp: initialWorld_def relro_example(4))
qed

end
