(* ===== verification/Loader_Symbols.thy ===== *)
theory Loader_Symbols
  imports Loader_Life
begin

text \<open>
  From the file to the index of symbols: what \<open>Load\<close> (\<open>loader/loader.go\<close>) makes of the symbol and version sections
  a linker has written. The theories below show that the segments are mapped, the sections read and the index
  filled; here these facts are put together.
\<close>

unbundle bit_operations_syntax

section \<open>Sections of the file in memory\<close>

text \<open>The file has \<open>data\<close> at the address \<open>v\<close>, in a readable segment.\<close>

definition data_in :: "bytes \<Rightarrow> u64 \<Rightarrow> bytes \<Rightarrow> prog_header \<Rightarrow> bool" where
  "data_in fl v data ph \<longleftrightarrow>
     ph_Flags ph AND 4 \<noteq> 0 \<and> ph_Vaddr ph \<le> v \<and>
     unat v - unat (ph_Vaddr ph) + length data \<le> unat (ph_Filesz ph) \<and>
     take (length data) (drop (unat (ph_Off ph) + (unat v - unat (ph_Vaddr ph))) fl) = data"

definition file_holds :: "bytes \<Rightarrow> parsed_object \<Rightarrow> u64 \<Rightarrow> bytes \<Rightarrow> bool" where
  "file_holds fl parsed v data \<longleftrightarrow> list_ex (data_in fl v data) (LoadSegments parsed)"

lemma elfProt_readable: "flags AND 4 \<noteq> 0 \<Longrightarrow> elfProt flags AND 1 \<noteq> 0"
  by (simp add: elfProt_def)

lemma image_holds:
  assumes pg: "pagesize_ok os" and ok: "loadable os fl parsed" and base: "BaseVAddr parsed = 0"
    and im: "list_all (\<lambda>ph. segment_image os fl (mapStart os b parsed ph) ph m) (LoadSegments parsed)"
    and data: "file_holds fl parsed v data"
  shows "holds m (b + v) data" and "unat v + length data \<le> unat (MemSize parsed)"
proof -
  obtain ph where ph: "ph \<in> set (LoadSegments parsed)" and d: "data_in fl v data ph"
    using data by (auto simp: file_holds_def list_ex_iff)
  have vs: "vspan_ok os fl parsed ph" and ms: "unat (MemSize parsed) < 2 ^ 62" using ok ph by (auto simp: loadable_def list_all_iff)
  have fz: "unat (ph_Filesz ph) \<le> unat (ph_Memsz ph)" and fl: "unat (ph_Off ph) + unat (ph_Filesz ph) \<le> length fl"
    and mz: "unat (ph_Memsz ph) < 2 ^ 62"
    and inm: "unat (pageDown os (ph_Vaddr ph)) + unat (memSpan os ph) \<le> unat (MemSize parsed)"
    using vs base by (simp_all add: vspan_ok_def word_le_nat_alt)
  note M = span[OF pg mz, of "ph_Vaddr ph", folded memSpan_def leading_def]
  define k where "k = unat v - unat (ph_Vaddr ph)"
  have le: "unat (ph_Vaddr ph) \<le> unat v" and k: "k + length data \<le> unat (ph_Filesz ph)"
    and bytes: "take (length data) (drop (unat (ph_Off ph) + k) fl) = data" and rd: "ph_Flags ph AND 4 \<noteq> 0"
    using d by (auto simp: data_in_def k_def word_le_nat_alt)
  have "v = ph_Vaddr ph + of_nat k" using le by (simp add: k_def of_nat_diff)
  then have v: "v = (pageDown os (ph_Vaddr ph) + of_nat (leading os ph)) + of_nat k"
    unfolding vspan_end(2)[OF pg vs base ms, symmetric] .
  let ?a = "mapStart os b parsed ph"
  have at: "b + v + of_nat i = ?a + of_nat (leading os ph + (k + i))" for i
    by (simp add: v mapStart_def base)
  have img: "segment_image os fl ?a ph m" using im ph by (simp add: list_all_iff)
  have "mbytes m (b + v + of_nat i) = data ! i" if "i < length data" for i
  proof -
    have "mbytes m (b + v + of_nat i) = fl ! (unat (ph_Off ph) + (k + i))"
      unfolding at using img[unfolded segment_image_def, THEN conjunct1, rule_format, of "k + i"] that k by simp
    also have "\<dots> = take (length data) (drop (unat (ph_Off ph) + k) fl) ! i" using that k fl by (simp add: add.assoc)
    finally show ?thesis by (simp add: bytes)
  qed
  then have "peek m (b + v) (length data) = data" by (intro nth_equalityI) (simp_all add: peek_def)
  moreover have "readable m (b + v + of_nat i)" if "i < length data" for i
  proof -
    have "leading os ph + (k + i) < unat (memSpan os ph)" using that k fz M(3) by simp
    then have "in_region ?a (unat (memSpan os ph)) (b + v + of_nat i)"
      unfolding at using unat_bound64[of "memSpan os ph"] by (intro in_region_offset) simp_all
    then have "mprot m (b + v + of_nat i) = Some (elfProt (ph_Flags ph))"
      using img by (simp add: segment_image_def region_prot_def)
    then show ?thesis using elfProt_readable[OF rd] by (simp add: readable_def)
  qed
  ultimately show "holds m (b + v) data" by (simp add: holds_def all_readable_iff)
  have "unat v = unat (ph_Vaddr ph) + k" using le by (simp add: k_def)
  moreover have "unat (ph_Vaddr ph) = unat (pageDown os (ph_Vaddr ph)) + leading os ph"
    unfolding unat_pageDown[OF pg] leading_def by simp
  ultimately show "unat v + length data \<le> unat (MemSize parsed)" using inm M(3) k fz by simp
qed

text \<open>The name at an offset of a string table.\<close>

definition nameAt :: "bytes \<Rightarrow> u32 \<Rightarrow> string" where
  "nameAt strs off =
     (let s = drop (unat off) strs in if 0 \<in> set s then map chr (takeWhile nonzero s) else [])"

lemma ReadCStringMem_table:
  assumes "holds m a strs" and "strs \<noteq> []" and "length strs < 2 ^ 62"
  shows "ReadCStringMem m a (ucast off) (of_nat (length strs)) = Ok (nameAt strs off)"
proof -
  let ?n = "of_nat (length strs) :: u64"
  have n: "unat ?n = length strs" using assms(3) by (simp add: unat_of_nat64)
  have off: "unat (ucast off :: u64) = unat off"
    using unat_bound[of off] by (simp add: unsigned_ucast_eq take_bit_nat_eq_self)
  show ?thesis
  proof (cases "unat off < length strs")
    case True
    then have lt: "(ucast off :: u64) < ?n" by (simp add: word_less_nat_alt n off)
    have h: "holds m (a + ucast off) (drop (unat off) strs)"
      using holds_drop[OF assms(1), of "unat off"] True by simp
    then show ?thesis
      using ReadCStringMem_bounded[OF lt, of m a] by (simp add: holds_def n off nameAt_def Let_def)
  next
    case False
    then have "0 < ?n \<and> ?n \<le> ucast off" using assms(2) n off by (simp add: word_less_nat_alt word_le_nat_alt)
    with False show ?thesis by (simp add: ReadCStringMem_def nameAt_def)
  qed
qed


section \<open>The symbol and version sections\<close>

text \<open>
  What a linker puts into a library: its symbols, their names, the version of each symbol, and the versions the
  library needs and defines. Sections that are absent are \<open>None\<close> or empty.
\<close>

record dynsyms =
  ds_syms :: "elf64sym list"
  ds_strs :: bytes
  ds_versym :: "u16 list option"
  ds_needs :: "verneed list"
  ds_defs :: "verdef list"

definition section_at :: "bytes \<Rightarrow> parsed_object \<Rightarrow> u64 \<Rightarrow> bytes \<Rightarrow> bool" where
  "section_at fl parsed tag data \<longleftrightarrow>
     (case DynEntries parsed tag of None \<Rightarrow> False | Some v \<Rightarrow> file_holds fl parsed v data)"

definition counted_section :: "bytes \<Rightarrow> parsed_object \<Rightarrow> u64 \<Rightarrow> u64 \<Rightarrow> nat \<Rightarrow> bytes \<Rightarrow> bool" where
  "counted_section fl parsed tag countTag n data \<longleftrightarrow>
     (if n = 0 then DynEntries parsed tag = None
      else section_at fl parsed tag data \<and> map_option unat (DynEntries parsed countTag) = Some n)"

text \<open>The string table follows the symbols, from which the loader takes their number.\<close>

definition has_dynsyms :: "bytes \<Rightarrow> parsed_object \<Rightarrow> dynsyms \<Rightarrow> bool" where
  "has_dynsyms fl parsed x \<longleftrightarrow>
     ds_syms x \<noteq> [] \<and> ds_strs x \<noteq> [] \<and> length (ds_syms x) < 2 ^ 32 \<and>
     DynEntries parsed DT_SYMENT = Some 24 \<and> DynEntries parsed DT_STRSZ = Some (of_nat (length (ds_strs x))) \<and>
     section_at fl parsed DT_SYMTAB (concat (map encSym (ds_syms x))) \<and> section_at fl parsed DT_STRTAB (ds_strs x) \<and>
     DynEntries parsed DT_STRTAB = map_option (\<lambda>v. v + 24 * of_nat (length (ds_syms x))) (DynEntries parsed DT_SYMTAB) \<and>
     (case ds_versym x of
        None \<Rightarrow> DynEntries parsed DT_VERSYM = None
      | Some vs \<Rightarrow> length vs = length (ds_syms x) \<and>
          section_at fl parsed DT_VERSYM (concat (map (\<lambda>v. le_enc 2 (unat v)) vs))) \<and>
     counted_section fl parsed DT_VERNEED DT_VERNEEDNUM (length (ds_needs x)) (encVerneeds (ds_needs x)) \<and>
     list_all (\<lambda>y. length (vn_auxs y) < 2 ^ 16) (ds_needs x) \<and>
     counted_section fl parsed DT_VERDEF DT_VERDEFNUM (length (ds_defs x)) (encVerdefs (ds_defs x))"

text \<open>The raw version of a symbol, and the versions by their indices.\<close>

definition raws :: "dynsyms \<Rightarrow> u16 list" where
  "raws x = (case ds_versym x of None \<Rightarrow> [] | Some vs \<Rightarrow> vs)"

definition versionsOf :: "parsed_object \<Rightarrow> u64 \<Rightarrow> dynsyms \<Rightarrow> version_table" where
  "versionsOf parsed b x =
     \<lparr>vt_Requirements = map_of (rev (map (requirement_of (nameAt (ds_strs x))) (concat (map vn_auxs (ds_needs x))))),
      vt_Definitions = map_of (rev (map (definition_of (nameAt (ds_strs x))) (ds_defs x))),
      vt_SymbolVersions = map_option (\<lambda>v. (b + v, of_nat (length (ds_syms x)))) (DynEntries parsed DT_VERSYM)\<rparr>"

text \<open>Sections in the mapped image at \<open>b\<close>.\<close>

definition image_at :: "os \<Rightarrow> bytes \<Rightarrow> parsed_object \<Rightarrow> u64 \<Rightarrow> memory \<Rightarrow> bool" where
  "image_at os fl parsed b m \<longleftrightarrow>
     pagesize_ok os \<and> loadable os fl parsed \<and> BaseVAddr parsed = 0 \<and> b \<noteq> 0 \<and>
     unat b + unat (MemSize parsed) < 2 ^ 63 \<and>
     list_all (\<lambda>ph. segment_image os fl (mapStart os b parsed ph) ph m) (LoadSegments parsed)"

lemma section_in_image:
  assumes "image_at os fl parsed b m" and "section_at fl parsed tag data"
  obtains v where "DynEntries parsed tag = Some v" "holds m (b + v) data" "b + v \<noteq> 0"
    "unat (b + v) = unat b + unat v" "unat (b + v) + length data < 2 ^ 63" "length data < 2 ^ 62"
proof -
  obtain v where v: "DynEntries parsed tag = Some v" "file_holds fl parsed v data"
    using assms(2) by (auto simp: section_at_def split: option.splits)
  have im: "pagesize_ok os" "loadable os fl parsed" "BaseVAddr parsed = 0"
    "list_all (\<lambda>ph. segment_image os fl (mapStart os b parsed ph) ph m) (LoadSegments parsed)"
    and b: "b \<noteq> 0" "unat b + unat (MemSize parsed) < 2 ^ 63"
    using assms(1) by (simp_all add: image_at_def)
  note h = image_holds[OF im v(2)]
  have ms: "unat (MemSize parsed) < 2 ^ 62" using im(2) by (simp add: loadable_def)
  have u: "unat (b + v) = unat b + unat v" using h(2) b(2) by (intro unat_add_no_wrap) simp
  have "0 < unat b" using b(1) by (simp add: unat_gt_0)
  then have "b + v \<noteq> 0" using u by (metis add_is_0 less_numeral_extra(3) unat_0)
  with that[OF v(1) h(1) _ u] h(2) b(2) ms u show thesis by simp
qed

lemma section_holds:
  assumes "image_at os fl parsed b m" and "section_at fl parsed tag data" and "DynEntries parsed tag = Some v"
  shows "holds m (b + v) data" and "b + v \<noteq> 0" and "unat (b + v) + length data < 2 ^ 63" and "length data < 2 ^ 62"
  using assms(3) by - (rule section_in_image[OF assms(1,2)], simp)+

lemma counted_in_image:
  assumes "image_at os fl parsed b m" and "counted_section fl parsed tag countTag n data" and "n \<noteq> 0"
  obtains v c where "DynEntries parsed tag = Some v" "holds m (b + v) data" "b + v \<noteq> 0"
    "DynEntries parsed countTag = Some c" "unat c = n"
proof -
  have "section_at fl parsed tag data" and c: "map_option unat (DynEntries parsed countTag) = Some n"
    using assms(2,3) by (simp_all add: counted_section_def)
  from section_in_image[OF assms(1) this(1)] obtain v where "DynEntries parsed tag = Some v" "holds m (b + v) data" "b + v \<noteq> 0" .
  with c that show thesis by auto
qed

lemma ParseVersionInfo_image:
  assumes im: "image_at os fl parsed b m" and ds: "has_dynsyms fl parsed x"
    and strs: "holds m strtab (ds_strs x)" "length (ds_strs x) < 2 ^ 62"
  shows "ParseVersionInfo m (DynEntries parsed) b strtab (of_nat (length (ds_strs x))) (of_nat (length (ds_syms x))) =
    Ok (versionsOf parsed b x)"
    and "versions_held m (Some (versionsOf parsed b x)) (raws x)"
proof -
  let ?d = "DynEntries parsed" and ?n = "length (ds_syms x)" and ?sz = "of_nat (length (ds_strs x)) :: u64"
  have ne: "ds_strs x \<noteq> []" and n: "0 < ?n" "?n < 2 ^ 32" using ds by (simp_all add: has_dynsyms_def)
  have un: "unat (of_nat ?n :: u64) = ?n" using n(2) by (simp add: unat_of_nat64)
  have pos: "0 < (of_nat ?n :: u64)" using n un by (simp add: word_less_nat_alt)
  have nm: "(ReadCStringMem m strtab (ucast off) ?sz :: (version_error, string) result) = Ok (nameAt (ds_strs x) off)" for off
    by (rule ReadCStringMem_table[OF strs(1) ne strs(2)])
  have versym: "(case ?d DT_VERSYM of None \<Rightarrow> True | Some v \<Rightarrow> b + v \<noteq> 0 \<and>
      unsafeSlice (b + v) (of_nat ?n) 2 = (Ok (b + v, of_nat ?n) :: (version_error, u64 \<times> u64) result)) \<and>
    versions_held m (Some (versionsOf parsed b x)) (raws x)"
  proof (cases "ds_versym x")
    case None
    with ds have "?d DT_VERSYM = None" by (simp add: has_dynsyms_def)
    then show ?thesis by (simp add: versions_held_def versionsOf_def)
  next
    case (Some vs)
    let ?bytes = "concat (map (\<lambda>v. le_enc 2 (unat v)) vs)"
    have vs: "length vs = ?n" and sec: "section_at fl parsed DT_VERSYM ?bytes"
      using ds Some by (simp_all add: has_dynsyms_def)
    have len: "length ?bytes = 2 * ?n" using vs by (simp add: length_concat comp_def sum_list_triv)
    from section_in_image[OF im sec] obtain v where v: "?d DT_VERSYM = Some v" "holds m (b + v) ?bytes" "b + v \<noteq> 0"
      "unat (b + v) + length ?bytes < 2 ^ 63" by blast
    have "unsafeSlice (b + v) (of_nat ?n) 2 = (Ok (b + v, of_nat ?n) :: (version_error, u64 \<times> u64) result)"
      using v(3,4) n(2) unfolding len by (simp add: unsafeSlice_def un)
    then show ?thesis using v(1-3) by (simp add: versions_held_def versionsOf_def raws_def Some un vs)
  qed
  then show "versions_held m (Some (versionsOf parsed b x)) (raws x)" by simp
  let ?reqs = "map_of (rev (map (requirement_of (nameAt (ds_strs x))) (concat (map vn_auxs (ds_needs x)))))"
    and ?defs = "map_of (rev (map (definition_of (nameAt (ds_strs x))) (ds_defs x)))"
  have need: "?d DT_VERNEED = None \<and> ds_needs x = [] \<or>
    (\<exists>v c. ?d DT_VERNEED = Some v \<and> ?d DT_VERNEEDNUM = Some c \<and> b + v \<noteq> 0 \<and> 0 < c \<and>
      (\<forall>vt. parseVerneed (unat c) m (b + v) strtab ?sz vt = Ok (vt\<lparr>vt_Requirements := vt_Requirements vt ++ ?reqs\<rparr>)))"
  proof (cases "ds_needs x = []")
    case False
    then obtain v c where v: "?d DT_VERNEED = Some v" "holds m (b + v) (encVerneeds (ds_needs x))" "b + v \<noteq> 0"
      and c: "?d DT_VERNEEDNUM = Some c" "unat c = length (ds_needs x)"
      using counted_in_image[OF im, of DT_VERNEED DT_VERNEEDNUM "length (ds_needs x)"] ds by (auto simp: has_dynsyms_def)
    have "length (vn_auxs y) < 2 ^ 16" if "y \<in> set (ds_needs x)" for y
      using ds that by (simp add: has_dynsyms_def list_all_iff)
    note parseVerneed_enc[OF v(2) eq_refl[OF c(2)[symmetric]] this nm False]
    moreover have "0 < c" using c(2) False by (simp add: word_less_nat_alt)
    ultimately show ?thesis using v c by simp
  qed (use ds in \<open>simp add: has_dynsyms_def counted_section_def\<close>)
  have defs: "?d DT_VERDEF = None \<and> ds_defs x = [] \<or>
    (\<exists>v c. ?d DT_VERDEF = Some v \<and> ?d DT_VERDEFNUM = Some c \<and> b + v \<noteq> 0 \<and> 0 < c \<and>
      (\<forall>vt. parseVerdef (unat c) m (b + v) strtab ?sz vt = Ok (vt\<lparr>vt_Definitions := vt_Definitions vt ++ ?defs\<rparr>)))"
  proof (cases "ds_defs x = []")
    case False
    then obtain v c where v: "?d DT_VERDEF = Some v" "holds m (b + v) (encVerdefs (ds_defs x))" "b + v \<noteq> 0"
      and c: "?d DT_VERDEFNUM = Some c" "unat c = length (ds_defs x)"
      using counted_in_image[OF im, of DT_VERDEF DT_VERDEFNUM "length (ds_defs x)"] ds by (auto simp: has_dynsyms_def)
    note parseVerdef_enc[OF v(2) eq_refl[OF c(2)[symmetric]] nm False]
    moreover have "0 < c" using c(2) False by (simp add: word_less_nat_alt)
    ultimately show ?thesis using v c by simp
  qed (use ds in \<open>simp add: has_dynsyms_def counted_section_def\<close>)
  let ?vt = "NewVersionTable\<lparr>vt_SymbolVersions := map_option (\<lambda>v. (b + v, of_nat ?n)) (?d DT_VERSYM)\<rparr>"
    and ?addr = "\<lambda>tag. case ?d tag of Some v \<Rightarrow> b + v | None \<Rightarrow> 0" and ?count = "\<lambda>tag. case ?d tag of Some v \<Rightarrow> v | None \<Rightarrow> 0"
  have 1: "(if ?addr DT_VERSYM \<noteq> 0 \<and> (of_nat ?n :: u64) > 0
      then bindR (unsafeSlice (?addr DT_VERSYM) (of_nat ?n) 2) (\<lambda>s. Ok (NewVersionTable\<lparr>vt_SymbolVersions := Some s\<rparr>))
      else Ok NewVersionTable) = (Ok ?vt :: (version_error, version_table) result)"
    using versym pos by (cases "?d DT_VERSYM") (simp_all add: NewVersionTable_def)
  have 2: "(if ?addr DT_VERNEED \<noteq> 0 \<and> ?count DT_VERNEEDNUM > 0
      then mapErr ParseVerneedErr (parseVerneed (unat (?count DT_VERNEEDNUM)) m (?addr DT_VERNEED) strtab ?sz vt) else Ok vt) =
      Ok (vt\<lparr>vt_Requirements := vt_Requirements vt ++ ?reqs\<rparr>)" for vt
    using need by (elim disjE exE conjE) simp_all
  have 3: "(if ?addr DT_VERDEF \<noteq> 0 \<and> ?count DT_VERDEFNUM > 0
      then mapErr ParseVerdefErr (parseVerdef (unat (?count DT_VERDEFNUM)) m (?addr DT_VERDEF) strtab ?sz vt) else Ok vt) =
      Ok (vt\<lparr>vt_Definitions := vt_Definitions vt ++ ?defs\<rparr>)" for vt
    using defs by (elim disjE exE conjE) simp_all
  have "ParseVersionInfo m ?d b strtab ?sz (of_nat ?n) =
      Ok (?vt\<lparr>vt_Requirements := Map.empty ++ ?reqs, vt_Definitions := Map.empty ++ ?defs\<rparr>)"
    unfolding ParseVersionInfo_def getDynAddrAndCount_def ParseVersionTables_def Let_def prod.case 1 2 3 bindR.simps
    by (simp add: NewVersionTable_def)
  then show "ParseVersionInfo m ?d b strtab ?sz (of_nat ?n) = Ok (versionsOf parsed b x)"
    by (simp add: versionsOf_def NewVersionTable_def)
qed

section \<open>The index of a loaded object\<close>

text \<open>The fields of the symbol table, which the other tags leave alone.\<close>

definition symbolFields :: "loaded_object \<Rightarrow> u64 \<times> u64 \<times> u64 \<times> symtable" where
  "symbolFields obj = (SymtabAddr obj, StrtabAddr obj, StrtabSize obj, Symbols obj)"

lemma other_tags_keep:
  "symbolFields (extractRelocationAddresses d f o') = symbolFields o'"
  "symbolFields (populateInitFiniTags d f o') = symbolFields o'"
proof -
  have k: "symbolFields (ifTag d t g o1) = symbolFields o'"
    if "symbolFields o1 = symbolFields o'" "\<And>v o2. symbolFields (g v o2) = symbolFields o2" for t g o1
    using that by (simp add: ifTag_def split: option.split)
  show "symbolFields (extractRelocationAddresses d f o') = symbolFields o'"
    and "symbolFields (populateInitFiniTags d f o') = symbolFields o'"
    unfolding extractRelocationAddresses_def populateInitFiniTags_def populateInitTags_def populateFiniTags_def Let_def
    by (intro k; simp add: symbolFields_def)+
qed

lemma populateDynamicTags_symbols:
  assumes "populateDynamicTags m d f o' = Ok obj"
    and "d DT_SYMTAB = Some sv" and "d DT_STRTAB = Some sr" and "d DT_STRSZ = Some sz"
  shows "symbolFields obj = (f sv, f sr, sz, Symbols o')"
proof -
  let ?obj = "populateInitFiniTags d f (extractRelocationAddresses d f (populateSymbolTags d f o'))"
  have "obj = ?obj \<or> (\<exists>s. obj = ?obj\<lparr>Soname := s\<rparr>)"
    using assms(1) by (auto simp: populateDynamicTags_def populateRelocationTags_def populateSoname_def Let_def
        split: option.splits if_splits)
  then have "symbolFields obj = symbolFields ?obj" by (auto simp: symbolFields_def)
  also have "\<dots> = (f sv, f sr, sz, Symbols o')"
    unfolding other_tags_keep using assms(2-4)
    by (simp add: symbolFields_def populateSymbolTags_def Let_def ifTag_def split: option.split)
  finally show ?thesis .
qed

text \<open>The index the sections stand for.\<close>

definition indexOf :: "parsed_object \<Rightarrow> u64 \<Rightarrow> dynsyms \<Rightarrow> symtable" where
  "indexOf parsed b x =
     loaded b (Some (versionsOf parsed b x)) (raws x) (nameAt (ds_strs x)) (ds_syms x) (length (ds_syms x))"

lemma initializeSymbolTable_image:
  assumes im: "image_at os fl parsed b m" and ds: "has_dynsyms fl parsed x"
    and tags: "DynEntries parsed DT_SYMTAB = Some sv" "DynEntries parsed DT_STRTAB = Some sr"
    and fields: "symbolFields o' = (b + sv, b + sr, of_nat (length (ds_strs x)), NewTable b)"
  shows "initializeSymbolTable m (DynEntries parsed) b o' =
    Ok (o'\<lparr>SymtabSize := 24 * of_nat (length (ds_syms x)), Symbols := indexOf parsed b x\<rparr>)"
proof -
  let ?n = "length (ds_syms x)" and ?sz = "of_nat (length (ds_strs x)) :: u64"
  have ne: "ds_syms x \<noteq> []" "ds_strs x \<noteq> []" and n: "?n < 2 ^ 32" and sr: "sr = sv + 24 * of_nat ?n"
    and ent: "DynEntries parsed DT_SYMENT = Some 24" and strsz: "DynEntries parsed DT_STRSZ = Some ?sz"
    and secs: "section_at fl parsed DT_SYMTAB (concat (map encSym (ds_syms x)))" "section_at fl parsed DT_STRTAB (ds_strs x)"
    using ds tags by (simp_all add: has_dynsyms_def)
  note o' = fields[unfolded symbolFields_def prod.inject]
  note syms = section_holds[OF im secs(1) tags(1)] and strs = section_holds[OF im secs(2) tags(2)]
  note vers = ParseVersionInfo_image[OF im ds strs(1,4)]
  have un: "unat (24 * of_nat ?n :: u64) = 24 * ?n"
    using n by (simp add: unat_mult_lem[THEN iffD1] unat_of_nat64)
  have usv: "unat (b + sv) + 24 * ?n < 2 ^ 63"
    using syms(3) by (simp add: length_concat comp_def sum_list_triv)
  have e: "b + sr = (b + sv) + 24 * of_nat ?n" by (simp add: sr)
  have "unat ((b + sv) + 24 * of_nat ?n) = unat (b + sv) + 24 * ?n"
    using usv un unat_add_no_wrap[of "b + sv" "24 * of_nat ?n"] by simp
  then have gt: "b + sr > b + sv" and diff: "(b + sr) - (b + sv) = 24 * of_nat ?n"
    using ne(1) by (simp_all only: e word_less_nat_alt) simp_all
  have size: "computeSymbolTableSize (DynEntries parsed) (b + sv) (b + sr) = 24 * of_nat ?n"
    using ent strsz syms(2) strs(2) gt diff by (simp add: computeSymbolTableSize_def)
  have "unat (24 * of_nat ?n div 24 :: u64) = unat (of_nat ?n :: u64)"
    using n by (simp add: unat_div un unat_of_nat64)
  then have count: "(24 * of_nat ?n div 24 :: u64) = of_nat ?n" by (simp only: word_unat_eq_iff)
  have "unat (of_nat ?n :: u64) \<noteq> 0" using ne(1) n by (simp add: unat_of_nat64)
  then have pos: "(of_nat ?n :: u64) \<noteq> 0" by (metis unat_0)
  let ?vo = "Some (versionsOf parsed b x)"
  have load: "(LoadFromDynamic m (SetVersionTable (NewTable b) ?vo) (b + sv) (b + sr) (24 * of_nat ?n) ?sz :: (symbol_error, symtable) result) =
      Ok (indexOf parsed b x)"
    unfolding indexOf_def
    by (rule LoadFromDynamic_run[OF syms(2) ne(1) n syms(1) vers(2)]) (rule ReadCStringMem_table[OF strs(1) ne(2) strs(4)])
  show ?thesis
    by (simp add: initializeSymbolTable_def Let_def o' size count loadVersionInfo_def pos strs(2) syms(2) vers(1) load)
qed

text \<open>Relocating adds entries of the offset table to the object and leaves its index, its place and its module alone.\<close>

definition same_index :: "loaded_object \<Rightarrow> loaded_object \<Rightarrow> bool" where
  "same_index a b \<longleftrightarrow> Symbols a = Symbols b \<and> Base a = Base b \<and> Parsed a = Parsed b \<and> TLSModule a = TLSModule b"

lemma same_index_refl [simp]: "same_index a a"
  by (simp add: same_index_def)

lemma same_index_trans: "same_index a b \<Longrightarrow> same_index b c \<Longrightarrow> same_index a c"
  by (simp add: same_index_def)

lemma allocateGOTEntryPair_index:
  assumes "allocateGOTEntryPair os obj i w = (Ok (e, obj'), w')"
  shows "same_index obj' obj"
proof (cases "GOTEntries obj i")
  case None
  then obtain o1 w1 o2 w2 where 1: "firstGOTPage os obj w = (Ok o1, w1)" and 2: "growGOT os o1 w1 = (Ok o2, w2)"
    and 3: "obj' = o2\<lparr>GOTEntries := (GOTEntries o2)(i \<mapsto> GOTSize o2), GOTSize := GOTSize o2 + 16\<rparr>"
    using assms by (auto simp: allocateGOTEntryPair_def Let_def st_Ok liftS_def split: if_splits)
  have "same_index o1 obj" using 1 by (auto simp: firstGOTPage_def st_Ok same_index_def split: if_splits)
  moreover have "same_index o2 o1" using 2 by (auto simp: growGOT_def Let_def st_Ok same_index_def split: if_splits)
  ultimately show ?thesis by (simp add: 3 same_index_def)
qed (use assms in \<open>simp add: allocateGOTEntryPair_def retS_def\<close>)

lemma relocHandlers_index:
  assumes "relocHandlers os nt cd t = Some handler" and "handler c w = (Ok obj', w')"
  shows "same_index obj' (rc_obj c)"
proof -
  have gd: "same_index obj' (rc_obj c)" if "applyTlsgd os (rc_obj c) (rc_r c) w = (Ok obj', w')"
    using that by (auto simp: applyTlsgd_def allocateTLSGotEntry_def Let_def st_Ok split: if_splits option.splits
        dest!: allocateGOTEntryPair_index)
  have ld: "same_index obj' (rc_obj c)" if "applyTlsld os (rc_obj c) (rc_r c) w = (Ok obj', w')"
    using that by (auto simp: applyTlsld_def allocateTLSGotEntry_def Let_def st_Ok split: if_splits option.splits
        dest!: allocateGOTEntryPair_index)
  have plain: "same_index obj' (rc_obj c)" if "plain f c w = (Ok obj', w')" for f
    using that by (auto simp: plain_def st_Ok)
  show ?thesis
    using assms unfolding relocHandlers_def map_of.simps fst_conv snd_conv
    by (auto split: if_splits dest: plain gd ld)
qed

lemma applyRelocation_index:
  "applyRelocation os nt cd rs r obj w = (Ok obj', w') \<Longrightarrow> same_index obj' obj"
  by (auto simp: applyRelocation_def st_Ok Let_def buildRelocContext_def split: option.splits dest!: relocHandlers_index)

lemma processRelocations_index:
  assumes "processRelocations os nt cd rs obj w = (Ok obj', w')"
  shows "same_index obj' obj"
proof -
  have loop: "same_index o2 o1"
    if "forS (\<lambda>i obj. bindS (readMem (\<lambda>m. loadRela m (a + of_nat i * 24))) (\<lambda>r. applyRelocation os nt cd rs r obj)) is o1 w1 =
      (Ok o2, w2)" for a "is" o1 o2 w1 w2
    using that
    by (induction "is" arbitrary: o1 w1) (auto simp: st_Ok bindS_eq_Ok retS_def dest!: applyRelocation_index intro: same_index_trans)
  have table: "same_index o2 o1" if "applyRelaTable os nt cd rs a sz o1 w1 = (Ok o2, w2)" for a sz o1 o2 w1 w2
    using that by (auto simp: applyRelaTable_def st_Ok Let_def split: if_splits dest: loop)
  obtain o1 w1 where "applyRelaTable os nt cd rs (RelaAddr obj) (RelaSize obj) obj w = (Ok o1, w1)"
    and "applyRelaTable os nt cd rs (JmpRelAddr o1) (JmpRelSize o1) o1 w1 = (Ok obj', w')"
    using assms by (auto simp: processRelocations_def st_Ok)
  then show ?thesis using same_index_trans[OF table table] by blast
qed

text \<open>The index that \<open>Load\<close> makes for the sections of the file.\<close>

lemma Load_index:
  assumes "os_ok os file" and "low_maps os" and "parseAndOpen newFile fs openFd path = Ok (parsed, fd)"
    and "loadable os (file fd) parsed" and "BaseVAddr parsed = 0" and "has_dynsyms (file fd) parsed x"
    and "Load os nt cd newFile fs openFd path rs w = (Ok obj, w')"
  shows "Symbols obj = indexOf parsed (Base obj) x"
proof -
  obtain obj1 w1 where c: "createAndMapObject os parsed fd w = (Ok obj1, w1)"
    and f: "finalizeObject os nt cd rs parsed obj1 w1 = (Ok obj, w')"
    using assms(3,7) by (auto simp: Load_def st_Ok orElse_eq_Ok)
  let ?b = "Base obj1"
  note C = createAndMapObject_cases[OF assms(1,2,4) c, unfolded result.case]
  have pg: "pagesize_ok os" using assms(1) by (simp add: os_ok_def)
  have im: "image_at os (file fd) parsed ?b (w_mem w1)"
    using C assms(4,5) pages_ge[OF pg, of "MemSize parsed"] by (simp add: image_at_def pg)
  obtain w2 where pop: "populateObject os parsed (mappedObject os parsed ?b) w2 = (Ok obj1, w1)" and m: "w_mem w2 = w_mem w1"
    using C by auto
  from assms(6) obtain sv sr where tags: "DynEntries parsed DT_SYMTAB = Some sv" "DynEntries parsed DT_STRTAB = Some sr"
    "DynEntries parsed DT_STRSZ = Some (of_nat (length (ds_strs x)))"
    by (auto simp: has_dynsyms_def section_at_def split: option.splits)
  from pop obtain o1 o2 where o1: "populateDynamicTags (w_mem w1) (DynEntries parsed) (\<lambda>v. ?b + v) (mappedObject os parsed ?b) = Ok o1"
    and o2: "initializeSymbolTable (w_mem w1) (DynEntries parsed) ?b o1 = Ok o2" and "setupTLS os parsed o2 w2 = (Ok obj1, w1)"
    by (auto simp: populateObject_def Let_def st_Ok readMem_run newObject_simps assms(5) m)
  have "symbolFields o1 = (?b + sv, ?b + sr, of_nat (length (ds_strs x)), NewTable ?b)"
    using populateDynamicTags_symbols[OF o1 tags] by (simp add: newObject_simps)
  from initializeSymbolTable_image[OF im assms(6) tags(1,2) this] o2 have "Symbols o2 = indexOf parsed ?b x" by auto
  moreover have "Symbols obj1 = Symbols o2"
    using \<open>setupTLS os parsed o2 w2 = (Ok obj1, w1)\<close> by (auto simp: setupTLS_def st_Ok split: option.splits)
  moreover have "same_index obj obj1" using f by (auto simp: finalizeObject_def st_Ok dest: processRelocations_index)
  ultimately show ?thesis by (simp add: same_index_def)
qed

section \<open>Which definition a name has\<close>

text \<open>
  Among the global and weak definitions of a name the last whose version is not marked as hidden, or else the
  first hidden one.
\<close>

definition exported :: "dynsyms \<Rightarrow> string \<Rightarrow> elf64sym option" where
  "exported x s =
     pick (map (\<lambda>i. (ds_syms x ! i, i < length (raws x) \<and> raws x ! i AND 0x8000 \<noteq> 0))
       (filter (\<lambda>i. eligible (ds_syms x ! i) \<and> s \<noteq> [] \<and> nameAt (ds_strs x) (st_name (ds_syms x ! i)) = s)
         [0..<length (ds_syms x)]))"

lemma pick_map: "pick (map (\<lambda>i. (f i, h i)) is) = map_option f (pick (map (\<lambda>i. (i, h i)) is))"
proof -
  have c: "Not \<circ> snd \<circ> (\<lambda>i. (g i, h i)) = Not \<circ> h" for g by (simp add: fun_eq_iff)
  show ?thesis
    by (cases "filter (Not \<circ> h) is"; cases "is") (auto simp: pick_def filter_map c last_map split: list.split)
qed

lemma indexOf_exported:
  assumes "has_dynsyms fl parsed x"
  shows "case exported x s of
      None \<Rightarrow> Lookup (indexOf parsed b x) s = None
    | Some e \<Rightarrow> (\<exists>y. Lookup (indexOf parsed b x) s = Some y \<and> sym_Value y = b + st_value e \<and> sym_Type y = ucast (st_info e AND 0xf))"
proof -
  let ?vo = "Some (versionsOf parsed b x)" and ?es = "ds_syms x" and ?nm = "nameAt (ds_strs x)"
  let ?sym = "\<lambda>i. symbolOf b ?vo (rawVersion ?vo (raws x) i) (?nm (st_name (?es ! i))) (?es ! i)"
    and ?hid = "\<lambda>i. i < length (raws x) \<and> raws x ! i AND 0x8000 \<noteq> 0"
    and ?is = "filter (\<lambda>i. eligible (?es ! i) \<and> s \<noteq> [] \<and> ?nm (st_name (?es ! i)) = s) [0..<length ?es]"
  have "ds_versym x = None \<Longrightarrow> DynEntries parsed DT_VERSYM = None" using assms by (simp add: has_dynsyms_def)
  moreover have "ds_versym x = Some vs \<Longrightarrow> DynEntries parsed DT_VERSYM \<noteq> None" for vs
    using assms by (cases "DynEntries parsed DT_VERSYM") (simp_all add: has_dynsyms_def section_at_def)
  ultimately have hid: "rawVersion ?vo (raws x) i AND 0x8000 \<noteq> 0 \<longleftrightarrow> ?hid i" for i
    by (cases "ds_versym x") (auto simp: rawVersion_def versionsOf_def raws_def)
  have "filter (\<lambda>c. sym_Name (fst c) = s) (candidates b ?vo (raws x) ?nm ?es (length ?es)) = map (\<lambda>i. (?sym i, ?hid i)) ?is"
    unfolding candidates_def hid filter_map comp_def fst_conv filter_filter
    by (intro arg_cong[where f = "map _"] filter_cong) (auto simp: symbolOf_def)
  then have "Lookup (indexOf parsed b x) s = map_option ?sym (pick (map (\<lambda>i. (i, ?hid i)) ?is))"
    by (simp only: indexOf_def loaded_def Lookup_def symtable.simps pick_map[of ?sym])
  moreover have "exported x s = map_option (\<lambda>i. ?es ! i) (pick (map (\<lambda>i. (i, ?hid i)) ?is))"
    unfolding exported_def pick_map[of "\<lambda>i. ?es ! i"] by simp
  ultimately show ?thesis by (cases "pick (map (\<lambda>i. (i, ?hid i)) ?is)") (simp_all add: symbolOf_def)
qed

end
