(* ===== verification/Loader_Balance.thy ===== *)
theory Loader_Balance
  imports Loader_Relro Loader_Symbols
begin

text \<open>
  The mappings a library leaves behind: what \<open>Load\<close> and \<open>Unload\<close> (\<open>loader/loader.go\<close>) together do to the address space.
\<close>

unbundle bit_operations_syntax

section \<open>The books of an object\<close>

text \<open>The pages that belong to an object: its image and the pages of its offset table.\<close>

definition owned :: "os \<Rightarrow> loaded_object \<Rightarrow> u64 \<Rightarrow> bool" where
  "owned os obj = in_regions os (map (\<lambda>p. (p, 4096)) (GOTPages obj) @ [(Base obj, MemSize (Parsed obj))])"

text \<open>
  With \<open>m\<close> the memory before: every mapping there was is as it was, and not the object's; and, where \<open>exact\<close>,
  whatever is mapped in addition is the object's.
\<close>

definition balanced :: "os \<Rightarrow> memory \<Rightarrow> bool \<Rightarrow> loaded_object \<Rightarrow> world \<Rightarrow> bool" where
  "balanced os m exact obj w \<longleftrightarrow>
     (GOTBase obj = 0 \<longrightarrow> GOTPages obj = []) \<and>
     (\<forall>x. mprot m x \<noteq> None \<longrightarrow> mprot (w_mem w) x = mprot m x \<and> \<not> owned os obj x) \<and>
     (exact \<longrightarrow> (\<forall>x. mprot (w_mem w) x \<noteq> None \<longrightarrow> mprot m x \<noteq> None \<or> owned os obj x))"

lemma balanced_cong:
  "mprot (w_mem w') = mprot (w_mem w) \<Longrightarrow> balanced os m ex obj w \<Longrightarrow> balanced os m ex obj w'"
  by (simp add: balanced_def)

text \<open>Native code and resolvers that leave the memory alone.\<close>

definition quiet_ifunc :: "native \<Rightarrow> bool" where
  "quiet_ifunc nt \<longleftrightarrow> (\<forall>f w. w_mem (snd (nt_ifunc nt f w)) = w_mem w)"

definition quiet_with_library :: "resolver \<Rightarrow> bool" where
  "quiet_with_library rs \<longleftrightarrow> (\<forall>name w. w_mem (snd (rs_ResolveWithLibrary rs name w)) = w_mem w)"

text \<open>A resolver that finds no library with thread-local storage.\<close>

definition no_tls_library :: "resolver \<Rightarrow> bool" where
  "no_tls_library rs \<longleftrightarrow>
     (\<forall>name w a l w'. rs_ResolveWithLibrary rs name w = (Ok (a, l), w') \<longrightarrow> pred_option (\<lambda>lib. TLSModule lib = None) l)"

section \<open>What keeps the mappings\<close>

lemma keeps_prot_store: "keeps (\<lambda>w. mprot (w_mem w) = P) (onMem (storeS (\<lambda>m. wr_bytes m a bs)))"
  by (simp add: keeps_def snd_onMem snd_storeS)

lemma keeps_prot_poke:
  "keeps (\<lambda>w. mprot (w_mem w) = P) (poke64 p v)" "keeps (\<lambda>w. mprot (w_mem w) = P) (poke32 p u)"
  unfolding poke64_def wr64_def poke32_def wr32_def by (rule keeps_prot_store)+

text \<open>Native code and a resolver as relocating needs them.\<close>

definition quiet_env :: "native \<Rightarrow> resolver option \<Rightarrow> bool" where
  "quiet_env nt rs \<longleftrightarrow> quiet_ifunc nt \<and> pred_option (\<lambda>r. quiet r \<and> quiet_with_library r) rs"

abbreviation (input) keeps_prot :: "(world, 'e, 'a) st \<Rightarrow> bool" where
  "keeps_prot c \<equiv> (\<forall>P. keeps (\<lambda>w. mprot (w_mem w) = P) c)"

lemma keeps_prot_I: "(\<And>P. keeps (\<lambda>w. mprot (w_mem w) = P) c) \<Longrightarrow> keeps (balanced os m ex obj) c"
  unfolding keeps_def by (metis balanced_cong)

lemma keeps_prot_native: "quiet_ifunc nt \<Longrightarrow> keeps (\<lambda>w. mprot (w_mem w) = P) (CallIfuncResolver nt f)"
  unfolding keeps_def CallIfuncResolver_def nativeS_def quiet_ifunc_def by (auto split: prod.splits) (metis snd_conv)+

lemma keeps_onMem: "keeps Q f \<Longrightarrow> keeps (\<lambda>w. Q (w_mem w)) (onMem f)"
  by (simp add: keeps_def snd_onMem)

lemma keeps_prot_copy: "keeps (\<lambda>w. mprot (w_mem w) = P) (onMem (copyBytes dst src n))"
  unfolding copyBytes_def by (intro keeps_onMem[where Q = "\<lambda>m. mprot m = P"] keeps_intros storeS_prot loadS_keeps)

lemma keeps_prot_resolve:
  assumes "quiet_env nt rs"
  shows "keeps (\<lambda>w. mprot (w_mem w) = P) (resolveSymForReloc obj i rs)"
    and "keeps (\<lambda>w. mprot (w_mem w) = P) (resolveTLSModuleAndOffset obj i rs)"
proof -
  have q: "keeps (\<lambda>w. mprot (w_mem w) = P) (rs_Resolve r name)" "keeps (\<lambda>w. mprot (w_mem w) = P) (rs_ResolveWithLibrary r name)"
    if "rs = Some r" for r name
    using assms that by (simp_all add: quiet_env_def quiet_def quiet_with_library_def keeps_def)
  have "keeps (\<lambda>w. mprot (w_mem w) = P) (tryExternalResolve rs name)" for name
    by (cases rs) (auto simp: tryExternalResolve_def intro!: keeps_intros q)
  then show "keeps (\<lambda>w. mprot (w_mem w) = P) (resolveSymForReloc obj i rs)"
    unfolding resolveSymForReloc_def
    by (auto intro!: keeps_intros simp del: split_paired_All split: option.split)
  show "keeps (\<lambda>w. mprot (w_mem w) = P) (resolveTLSModuleAndOffset obj i rs)"
  proof (cases rs)
    case None
    show ?thesis unfolding resolveTLSModuleAndOffset_def None option.case by (intro keeps_intros)
  next
    case (Some r)
    show ?thesis
      unfolding resolveTLSModuleAndOffset_def Some option.case
      by (auto intro!: keeps_intros q[OF Some] simp del: split_paired_All split: option.split)
  qed
qed

lemma keeps_AllocateBlock:
  assumes "mmap_ok os file" and "\<not> ex"
  shows "keeps (balanced os m ex obj) (onMem (AllocateBlock os md))"
proof (cases md)
  case None
  then show ?thesis by (simp add: keeps_def onMem_def AllocateBlock_def failS_def)
next
  case (Some b)
  have "balanced os m ex obj (w\<lparr>w_mem := m'\<rparr>)" if "balanced os m ex obj w" "AllocateBlock os (Some b) (w_mem w) = (r, m')" for w r m'
    using AllocateBlock_prot[OF assms(1) that(2)] that(1) assms(2) by (simp add: balanced_def)
  then show ?thesis by (auto simp: keeps_def onMem_def Some split: prod.split)
qed

lemma attempt_Some: "attempt c s = (Ok (Some x), t) \<longleftrightarrow> c s = (Ok x, t)"
  by (auto simp: attempt_def split: prod.splits result.splits)

lemma resolveTLS_none:
  assumes "TLSModule obj = None" and "pred_option no_tls_library rs"
    and "resolveTLSModuleAndOffset obj i rs w = (Ok (md, off), w')"
  shows "md = None"
proof -
  have sel: "fst (selectTLSModule obj p a) = None" if "pred_option (\<lambda>lib. TLSModule lib = None) p" for p a
    using that by (cases p) (simp_all add: selectTLSModule_def assms(1))
  have found: "md = None" if "rs = Some r" "rs_ResolveWithLibrary r name w1 = (Ok (a, l), w2)" "selectTLSModule obj l a = (md, off)"
    for r name w1 a l w2 md off
    using sel[of l a] that assms(2) unfolding no_tls_library_def by auto blast
  show ?thesis
    using assms(1,3)
    by (auto simp: resolveTLSModuleAndOffset_def st_Ok attempt_Some liftS_def split: if_splits option.splits intro: found)
qed

section \<open>The handlers\<close>

lemma keeps_handlers:
  assumes env: "quiet_env nt rs" and mm: "mmap_ok os file"
    and ex: "ex \<Longrightarrow> TLSModule obj = None \<and> pred_option no_tls_library rs"
  shows "keeps (balanced os m ex obj) (applyRelative obj p a)"
    and "keeps (balanced os m ex obj) (apply64 obj i p a rs)"
    and "keeps (balanced os m ex obj) (applyGlobDat obj i p rs)"
    and "keeps (balanced os m ex obj) (applyJumpSlot obj i p rs)"
    and "keeps (balanced os m ex obj) (applyCopy obj i p rs)"
    and "keeps (balanced os m ex obj) (apply32 obj i p a rs)"
    and "keeps (balanced os m ex obj) (apply32S obj i p a rs)"
    and "keeps (balanced os m ex obj) (applyPC32 obj i p a q rs)"
    and "keeps (balanced os m ex obj) (applyIRelative nt obj p a)"
    and "keeps (balanced os m ex obj) (applyDTPMod64 obj r p)"
    and "keeps (balanced os m ex obj) (applyDTPOff64 obj i r p a rs)"
    and "keeps (balanced os m ex obj) (applyDTPOff32 obj i r p a rs)"
    and "keeps (balanced os m ex obj) (applyTPOff64 os obj i r p a rs)"
    and "keeps (balanced os m ex obj) (applyTPOff32 os obj i r p a rs)"
    and "keeps (balanced os m ex obj) (applyGottpoff os obj r i p a rs)"
proof -
  have nt: "quiet_ifunc nt" using env by (simp add: quiet_env_def)
  note prot = keeps_prot_poke keeps_prot_resolve[OF env] keeps_prot_native[OF nt] keeps_prot_copy
  show "keeps (balanced os m ex obj) (applyRelative obj p a)" "keeps (balanced os m ex obj) (apply64 obj i p a rs)"
    "keeps (balanced os m ex obj) (applyGlobDat obj i p rs)" "keeps (balanced os m ex obj) (applyJumpSlot obj i p rs)"
    "keeps (balanced os m ex obj) (applyCopy obj i p rs)" "keeps (balanced os m ex obj) (apply32 obj i p a rs)"
    "keeps (balanced os m ex obj) (apply32S obj i p a rs)" "keeps (balanced os m ex obj) (applyPC32 obj i p a q rs)"
    "keeps (balanced os m ex obj) (applyIRelative nt obj p a)" "keeps (balanced os m ex obj) (applyDTPMod64 obj r p)"
    "keeps (balanced os m ex obj) (applyDTPOff64 obj i r p a rs)" "keeps (balanced os m ex obj) (applyDTPOff32 obj i r p a rs)"
    unfolding applyRelative_def apply64_def applyGlobDat_def applyJumpSlot_def applySymbolAddress_def applyCopy_def apply32_def
      apply32S_def applyPC32_def applyIRelative_def applyDTPMod64_def applyDTPOff64_def applyDTPOff32_def
      resolveTLSSymbolValue_def resolveTLSSymbolLocal_def Let_def
    by (intro keeps_prot_I keeps_intros prot; simp)+
  have poke: "keeps (balanced os m ex obj) (poke32 p v)" "keeps (balanced os m ex obj) (poke64 p u)" for v u
    by (intro keeps_prot_I prot)+
  have res: "keeps (balanced os m ex obj) (resolveSymForReloc obj i rs)"
    "keeps (balanced os m ex obj) (resolveTLSModuleAndOffset obj i rs)"
    by (intro keeps_prot_I prot)+
  note balance = keeps_intros poke res keeps_AllocateBlock[OF mm]
  show "keeps (balanced os m ex obj) (applyTPOff32 os obj i r p a rs)" "keeps (balanced os m ex obj) (applyGottpoff os obj r i p a rs)"
  proof -
    have "keeps (balanced os m ex obj) (applyTPOff32 os obj i r p a rs) \<and>
        keeps (balanced os m ex obj) (applyGottpoff os obj r i p a rs)"
    proof (cases ex)
      case True
      then show ?thesis using ex by (simp add: applyTPOff32_def applyGottpoff_def Let_def keeps_fail)
    next
      case False
      then show ?thesis
        unfolding applyTPOff32_def applyGottpoff_def Let_def by (intro conjI balance)
    qed
    then show "keeps (balanced os m ex obj) (applyTPOff32 os obj i r p a rs)"
      and "keeps (balanced os m ex obj) (applyGottpoff os obj r i p a rs)" by simp_all
  qed
  show "keeps (balanced os m ex obj) (applyTPOff64 os obj i r p a rs)"
  proof (cases ex)
    case True
    show ?thesis
      unfolding keeps_def
    proof (intro allI impI)
      fix w
      assume bal: "balanced os m ex obj w"
      obtain x w1 where x: "resolveTLSModuleAndOffset obj i rs w = (x, w1)" by fastforce
      have b1: "balanced os m ex obj w1" by (rule keepsD[OF res(2) bal x])
      show "balanced os m ex obj (snd (applyTPOff64 os obj i r p a rs w))"
      proof (cases x)
        case (Ok mo)
        obtain md off where mo: "mo = (md, off)" by fastforce
        have "md = None" using resolveTLS_none[of obj rs i w md off w1] ex True x Ok mo by simp
        with x Ok mo b1 poke(2)[of 0] show ?thesis by (simp add: applyTPOff64_def bindS_def keeps_def)
      qed (use x b1 in \<open>simp_all add: applyTPOff64_def bindS_def\<close>)
    qed
  next
    case False
    then have no: "ex = False" by simp
    show ?thesis
      unfolding applyTPOff64_def writeTPOffset_def Let_def
      by (auto simp: no intro!: balance[unfolded no] simp del: split_paired_All)
  qed
qed

section \<open>Pages of the offset table\<close>

lemma MapAnon_adds:
  assumes "mmap_ok os file" and "MapAnon os 4096 (ProtRead OR ProtWrite) m = (Ok b, m')"
  shows "b \<noteq> 0" and "mprot m x \<noteq> None \<Longrightarrow> mprot m' x = mprot m x \<and> \<not> in_region b (pages os 4096) x"
    and "mprot m' x \<noteq> None \<Longrightarrow> mprot m x \<noteq> None \<or> in_region b (pages os 4096) x"
proof -
  have map: "Map os 0 4096 (1 OR 2) (2 OR 0x20) (- 1) 0 m = (Ok b, m')" using assms(2) by (simp add: MapAnon_def)
  have R: "same_outside b (pages os 4096) m m'" "b \<noteq> 0" "region_prot b (pages os 4096) None m"
    using assms(1) map by (cases rule: Map_cases; simp)+
  show "b \<noteq> 0" by (rule R(2))
  show "mprot m x \<noteq> None \<Longrightarrow> mprot m' x = mprot m x \<and> \<not> in_region b (pages os 4096) x"
    using R(1,3) by (auto simp: same_outside_def region_prot_def)
  show "mprot m' x \<noteq> None \<Longrightarrow> mprot m x \<noteq> None \<or> in_region b (pages os 4096) x"
    using R(1) by (auto simp: same_outside_def)
qed

lemma owned_page: "owned os (obj\<lparr>GOTPages := GOTPages obj @ [b]\<rparr>) x \<longleftrightarrow> owned os obj x \<or> in_region b (pages os 4096) x"
  by (auto simp: owned_def in_regions_def)

lemma owned_fields:
  "GOTPages o' = GOTPages obj \<Longrightarrow> Base o' = Base obj \<Longrightarrow> Parsed o' = Parsed obj \<Longrightarrow> owned os o' = owned os obj"
  by (simp add: owned_def)

lemma balanced_page:
  assumes "mmap_ok os file" and "balanced os m ex obj w"
    and "MapAnon os 4096 (ProtRead OR ProtWrite) (w_mem w) = (Ok b, w_mem w')"
    and "GOTPages o' = GOTPages obj @ [b]" "Base o' = Base obj" "Parsed o' = Parsed obj" and "GOTBase o' \<noteq> 0"
  shows "balanced os m ex o' w'"
proof -
  have o: "owned os o' = owned os (obj\<lparr>GOTPages := GOTPages obj @ [b]\<rparr>)" using assms(4-6) by (simp add: owned_def)
  show ?thesis
    using assms(2,7) MapAnon_adds(2,3)[OF assms(1,3)] unfolding balanced_def o owned_page by metis
qed

lemma allocateGOTEntryPair_balanced:
  assumes mm: "mmap_ok os file" and bal: "balanced os m ex obj w" and run: "allocateGOTEntryPair os obj i w = (Ok (e, obj'), w')"
  shows "balanced os m ex obj' w'"
proof (cases "GOTEntries obj i")
  case None
  from run None obtain o1 w1 o2 where 1: "firstGOTPage os obj w = (Ok o1, w1)" and 2: "growGOT os o1 w1 = (Ok o2, w')"
    and 3: "obj' = o2\<lparr>GOTEntries := (GOTEntries o2)(i \<mapsto> GOTSize o2), GOTSize := GOTSize o2 + 16\<rparr>"
    by (rule allocateGOTEntryPair_steps)
  have b1: "balanced os m ex o1 w1 \<and> GOTBase o1 \<noteq> 0"
  proof (cases "GOTBase obj = 0")
    case True
    with 1 obtain b where b: "mapErrS GOTSpaceFailed (onMem (MapAnon os 4096 (ProtRead OR ProtWrite))) w = (Ok b, w1)"
      and o1: "o1 = obj\<lparr>GOTBase := b, GOTEntries := Map.empty, GOTPages := [b]\<rparr>"
      by (auto simp: firstGOTPage_def st_Ok)
    have "GOTPages obj = []" using bal True by (simp add: balanced_def)
    with balanced_page[OF mm bal onMem_MapAnon[OF b], of o1] MapAnon_adds(1)[OF mm onMem_MapAnon[OF b]] show ?thesis
      by (simp add: o1)
  next
    case False
    with 1 bal show ?thesis by (simp add: firstGOTPage_def retS_def)
  qed
  have "balanced os m ex o2 w'"
  proof (cases "GOTSize o1 + 16 > of_nat (length (GOTPages o1)) * 4096")
    case True
    with 2 obtain b where b: "mapErrS GOTPageFailed (onMem (MapAnon os 4096 (ProtRead OR ProtWrite))) w1 = (Ok b, w')"
      and o2: "o2 = o1\<lparr>GOTPages := GOTPages o1 @ [b]\<rparr>"
      by (auto simp: growGOT_def Let_def st_Ok)
    from balanced_page[OF mm _ onMem_MapAnon[OF b], of m ex o1 o2] b1 show ?thesis by (simp add: o2)
  next
    case False
    with 2 b1 show ?thesis by (simp add: growGOT_def Let_def retS_def)
  qed
  then show ?thesis by (simp add: 3 balanced_def owned_def)
qed (use run bal in \<open>simp add: allocateGOTEntryPair_def retS_def\<close>)

section \<open>Relocating\<close>

lemma poke_balanced:
  shows "poke64 p v w = (q, w') \<Longrightarrow> balanced os m ex obj w \<Longrightarrow> balanced os m ex obj w'"
    and "writePCRelativeOffset o' off e w = (q2, w') \<Longrightarrow> balanced os m ex obj w \<Longrightarrow> balanced os m ex obj w'"
proof -
  show "balanced os m ex obj w'" if "poke64 p v w = (q, w')" "balanced os m ex obj w"
    by (rule keepsD[OF keeps_prot_I[OF keeps_prot_poke(1)] that(2,1)])
  show "balanced os m ex obj w'" if "writePCRelativeOffset o' off e w = (q2, w')" "balanced os m ex obj w"
    by (rule keepsD[OF keeps_prot_I[OF keeps_prot_poke(2)] that(2) that(1)[unfolded writePCRelativeOffset_def Let_def]])
qed

lemma allocateTLSGotEntry_balanced:
  assumes mm: "mmap_ok os file" and bal: "balanced os m ex obj w" and run: "allocateTLSGotEntry os obj i n off w = (Ok (e, obj'), w')"
  shows "balanced os m ex obj' w'"
proof -
  obtain w1 md where "allocateGOTEntryPair os obj i w = (Ok (e, obj'), w1)" and p: "poke64 e (GetModuleID md) w1 = (Ok (), w')"
    using run by (auto simp: allocateTLSGotEntry_def st_Ok liftS_def split: option.splits)
  from poke_balanced(1)[OF p allocateGOTEntryPair_balanced[OF mm bal this(1)]] show ?thesis .
qed

lemma tls_handlers_balanced:
  assumes mm: "mmap_ok os file" and bal: "balanced os m ex obj w"
  shows "applyTlsgd os obj r w = (Ok obj', w') \<Longrightarrow> balanced os m ex obj' w'"
    and "applyTlsld os obj r w = (Ok obj', w') \<Longrightarrow> balanced os m ex obj' w'"
  by (auto simp: applyTlsgd_def applyTlsld_def Let_def st_Ok readMem_run split: if_splits
      dest!: allocateTLSGotEntry_balanced[OF mm bal] intro: poke_balanced)

lemma relocHandlers_balanced:
  assumes env: "quiet_env nt (rc_resolver c)" and mm: "mmap_ok os file"
    and ex: "ex \<Longrightarrow> TLSModule (rc_obj c) = None \<and> pred_option no_tls_library (rc_resolver c)"
    and hd: "relocHandlers os nt cd t = Some handler" and bal: "balanced os m ex (rc_obj c) w" and run: "handler c w = (Ok obj', w')"
  shows "balanced os m ex obj' w'"
proof -
  note keepers = keeps_handlers[OF env mm ex]
  have plain: "balanced os m ex obj' w'" if "plain f c w = (Ok obj', w')" "keeps (balanced os m ex (rc_obj c)) (f c)" for f
    using that(1) keepsD[OF that(2) bal] by (auto simp: plain_def st_Ok)
  show ?thesis
    using hd run unfolding relocHandlers_def map_of.simps fst_conv snd_conv
    by (auto split: if_splits dest!: plain simp: keepers keeps_ret tls_handlers_balanced[OF mm bal])
qed

text \<open>The condition of \<open>exact\<close>: neither the object nor a library the resolver finds has thread-local storage.\<close>

definition without_tls :: "resolver option \<Rightarrow> loaded_object \<Rightarrow> bool" where
  "without_tls rs obj \<longleftrightarrow> TLSModule obj = None \<and> pred_option no_tls_library rs"

lemma processRelocations_balanced:
  assumes env: "quiet_env nt rs" and mm: "mmap_ok os file" and ex: "ex \<Longrightarrow> without_tls rs obj"
    and bal: "balanced os m ex obj w" and run: "processRelocations os nt cd rs obj w = (Ok obj', w')"
  shows "balanced os m ex obj' w'"
proof -
  let ?inv = "\<lambda>o1 w1. balanced os m ex o1 w1 \<and> (ex \<longrightarrow> without_tls rs o1)"
  have one: "?inv o2 w2" if "?inv o1 w1" "applyRelocation os nt cd rs r o1 w1 = (Ok o2, w2)" for r o1 o2 w1 w2
  proof
    have "rc_resolver (buildRelocContext o1 r rs) = rs" "rc_obj (buildRelocContext o1 r rs) = o1"
      by (simp_all add: buildRelocContext_def)
    note ctx = this and run1 = that(2)
    obtain handler where h: "relocHandlers os nt cd (relaType (rl_Info r)) = Some handler"
      and hr: "handler (buildRelocContext o1 r rs) w1 = (Ok o2, w2)"
      using run1 by (auto simp: applyRelocation_def st_Ok Let_def split: option.splits)
    show "balanced os m ex o2 w2"
      by (rule relocHandlers_balanced[OF _ mm _ h _ hr]) (use that(1) env in \<open>auto simp: ctx without_tls_def\<close>)
    show "ex \<longrightarrow> without_tls rs o2"
      using that(1) applyRelocation_index[OF that(2)] by (simp add: same_index_def without_tls_def)
  qed
  have loop: "?inv o2 w2"
    if "?inv o1 w1" "forS (\<lambda>i obj. bindS (readMem (\<lambda>m. loadRela m (a + of_nat i * 24))) (\<lambda>r. applyRelocation os nt cd rs r obj)) is o1 w1 =
      (Ok o2, w2)" for a "is" o1 o2 w1 w2
    using that
  proof (induction "is" arbitrary: o1 w1)
    case (Cons i "is")
    from Cons.prems(2) obtain r t1 o3 w3 where rd: "readMem (\<lambda>m. loadRela m (a + of_nat i * 24)) w1 = (Ok r, t1)"
      and ap: "applyRelocation os nt cd rs r o1 t1 = (Ok o3, w3)"
      and rest: "forS (\<lambda>i obj. bindS (readMem (\<lambda>m. loadRela m (a + of_nat i * 24))) (\<lambda>r. applyRelocation os nt cd rs r obj)) is o3 w3 =
        (Ok o2, w2)"
      unfolding forS.simps bindS_eq_Ok by blast
    have "t1 = w1" using rd by (simp add: readMem_run)
    with ap have "applyRelocation os nt cd rs r o1 w1 = (Ok o3, w3)" by simp
    from Cons.IH[OF one[OF Cons.prems(1) this] rest] show ?case .
  qed (simp add: retS_def)
  have table: "?inv o2 w2" if "?inv o1 w1" "applyRelaTable os nt cd rs a sz o1 w1 = (Ok o2, w2)" for a sz o1 o2 w1 w2
  proof (cases "a = 0 \<or> sz = 0")
    case True
    with that show ?thesis by (auto simp: applyRelaTable_def retS_def)
  next
    case False
    from that(2) False have "forS (\<lambda>i obj. bindS (readMem (\<lambda>m. loadRela m (a + of_nat i * 24))) (\<lambda>r. applyRelocation os nt cd rs r obj))
        [0..<unat (sz div 24)] o1 w1 = (Ok o2, w2)"
      by (auto simp: applyRelaTable_def st_Ok Let_def liftS_def)
    from loop[OF that(1) this] show ?thesis .
  qed
  obtain o1 w1 where "applyRelaTable os nt cd rs (RelaAddr obj) (RelaSize obj) obj w = (Ok o1, w1)"
    and two: "applyRelaTable os nt cd rs (JmpRelAddr o1) (JmpRelSize o1) o1 w1 = (Ok obj', w')"
    using run by (auto simp: processRelocations_def st_Ok)
  have "?inv obj w" using bal ex by simp
  from table[OF table[OF this \<open>applyRelaTable os nt cd rs (RelaAddr obj) (RelaSize obj) obj w = (Ok o1, w1)\<close>] two]
  show ?thesis by simp
qed

section \<open>Loading and unloading\<close>

text \<open>The pages to protect lie in the image.\<close>

definition relro_inside :: "os \<Rightarrow> parsed_object \<Rightarrow> bool" where
  "relro_inside os parsed \<longleftrightarrow> pred_option (\<lambda>relro. BaseVAddr parsed \<le> ph_Vaddr relro \<and>
     unat (ph_Vaddr relro - BaseVAddr parsed) + pages os (relroSize os relro) \<le> pages os (MemSize parsed)) (GNURelroSeg parsed)"

lemma applyRELRO_balanced:
  assumes os: "mprotect_ok os" and inside: "relro_inside os (Parsed obj)" and small: "pages os (MemSize (Parsed obj)) \<le> 18446744073709551616"
    and bal: "balanced os m ex obj w" and run: "applyRELROProtection os obj (Parsed obj) w = (Ok (), w')"
  shows "balanced os m ex obj w'"
proof (cases "GNURelroSeg (Parsed obj)")
  case None
  with run bal show ?thesis by (simp add: applyRELROProtection_def retS_def)
next
  case (Some relro)
  let ?p = "Parsed obj"
  let ?a = "relroStart obj ?p relro" and ?n = "pages os (relroSize os relro)"
  have le: "BaseVAddr ?p \<le> ph_Vaddr relro" and fit: "unat (ph_Vaddr relro - BaseVAddr ?p) + ?n \<le> pages os (MemSize ?p)"
    using inside Some by (simp_all add: relro_inside_def)
  have own: "owned os obj x" if "in_region ?a ?n x" for x
  proof -
    have "?a = Base obj + of_nat (unat (ph_Vaddr relro - BaseVAddr ?p))" by simp
    from in_region_sub[OF that this fit small] show ?thesis by (simp add: owned_def in_regions_def)
  qed
  have "w_mem w' = w_mem w \<or> same_outside ?a ?n (w_mem w) (w_mem w')"
    using applyRELRO_run[OF os Some le run] by (auto split: prod.splits result.splits)
  then have out: "mprot (w_mem w') x = mprot (w_mem w) x" if "\<not> owned os obj x" for x
    using own that by (auto simp: same_outside_def)
  then show ?thesis using bal unfolding balanced_def by metis
qed

lemma createAndMapObject_balanced:
  assumes "os_ok os file" and "low_maps os" and "loadable os (file fd) parsed"
    and "createAndMapObject os parsed fd w = (Ok obj, w')"
  shows "balanced os (w_mem w) ex obj w' \<and> Parsed obj = parsed"
proof -
  note C = createAndMapObject_cases[OF assms, unfolded result.case]
  have "same_place obj (mappedObject os parsed (Base obj))" using C populateObject_place by blast
  then have o: "GOTBase obj = 0" "GOTPages obj = []" "Parsed obj = parsed" by (simp_all add: same_place_def newObject_def)
  have own: "owned os obj x \<longleftrightarrow> in_region (Base obj) (pages os (MemSize parsed)) x" for x by (simp add: owned_def in_regions_def o)
  show ?thesis
    using C o unfolding balanced_def own region_prot_def same_outside_def by metis
qed


lemma demo_Load_Unload:
  "\<exists>obj w1 w3. Load (demoOs demoBytes) demoNative amd64Codes (\<lambda>_. Some demoElf) demoFs [''a.so'' \<mapsto> 3] ''a.so'' None (initialWorld emptyMem) = (Ok obj, w1) \<and>
     TLSModule obj = None \<and> Unload (demoOs demoBytes) demoNative obj w1 = (Ok (), w3)"
proof -
  have pao: "parseAndOpen (\<lambda>_. Some demoElf) demoFs [''a.so'' \<mapsto> 3] ''a.so'' = Ok (demoParsed, 3)"
    by (simp add: parseAndOpen_def demo_Parse)
  have free: "freeAt \<lparr>mbytes = \<lambda>_. 0, mprot = \<lambda>_. None\<rparr> a n" for a n by (simp add: freeAt_def list_all_iff)
  show ?thesis
    by (simp add: Load_def pao createAndMapObject_def initialWorld_def onMem_def MapAnon_def Map_def demoMmap_def free
        orElse_def mapSegments_def demoParsed_def mapSegment_def Let_def pageDown_def pageUp_def demoLoad_def
        elfProt_def computeMapProt_def mapFileRegion_def mapBSSRegion_def st_defs
        MapFixed_def newObject_def pages4096_def
        populateObject_def readMem_def loadS_def populateDynamicTags_def populateRelocationTags_def
        populateSymbolTags_def extractRelocationAddresses_def ifTag_def validateRelocationTables_def populateInitFiniTags_def
        populateInitTags_def populateFiniTags_def populateSoname_def initializeSymbolTable_def computeSymbolTableSize_def
        loadVersionInfo_def setupTLS_def emptyMem_def finalizeObject_def processRelocations_def applyRelaTable_def
        applyRELROProtection_def runConstructors_def runInitArray_def
        Unload_def runFiniCallbacks_def runFiniArray_def runFiniFunction_def unmapGOTPages_def Unmap_def)
qed


end
