(* ===== verification/Reloc_Types.thy ===== *)
theory Reloc_Types
  imports Reloc_Safety
begin

text \<open>
  The relocation types of both architectures against the dispatch of \<open>loader/loader.go\<close>: which constants of
  \<open>reloc_amd64.go\<close> and \<open>reloc_arm64.go\<close> get a handler, and what the AArch64 stand-ins write.
\<close>

unbundle bit_operations_syntax

section \<open>What is dispatched\<close>

text \<open>The tables of one architecture: its constants, its codes and the constants its codes are.\<close>

definition architectures :: "((string \<times> u32) list \<times> reloc_codes \<times> string list) list" where
  "architectures = [(amd64Types, amd64Codes, amd64Handled), (arm64Types, arm64Codes, arm64Handled)]"

definition codeList :: "reloc_codes \<Rightarrow> u32 list" where
  "codeList cd = [relocNone cd, relocRelative cd, reloc64 cd, relocGlobDat cd, relocJumpSlot cd, relocCopy cd, reloc32 cd,
     reloc32S cd, relocPC32 cd, relocPLT32 cd, relocDTPMod64 cd, relocDTPOff64 cd, relocTPOff64 cd, relocDTPOff32 cd,
     relocTPOff32 cd, relocGOTTPOff cd, relocTLSGD cd, relocTLSLD cd, relocIRelative cd]"

lemma relocHandlers_dom: "relocHandlers os nt cd t \<noteq> None \<longleftrightarrow> t \<in> set (codeList cd)"
proof -
  have "map_of kvs t = None \<longleftrightarrow> t \<notin> set (map fst kvs)" for kvs :: "(u32 \<times> reloc_handler) list"
    by (auto simp: map_of_eq_None_iff)
  then show ?thesis unfolding relocHandlers_def codeList_def by simp
qed

lemma handled_codes:
  "list_all (\<lambda>(types, cd, handled). set (codeList cd) = typeCode types ` set handled \<and> distinct (map snd types)) architectures"
proof -
  have "set (codeList amd64Codes) = typeCode amd64Types ` set amd64Handled"
    by (simp add: codeList_def amd64Codes_def amd64Handled_def)
  moreover have "set (codeList arm64Codes) = typeCode arm64Types ` set arm64Handled"
    by (simp add: codeList_def arm64Codes_def arm64Handled_def)
  moreover have "distinct (map snd amd64Types)" "distinct (map snd arm64Types)" by (simp_all add: amd64Types_def arm64Types_def)
  ultimately show ?thesis by (simp add: architectures_def)
qed



section \<open>The AArch64 stand-ins\<close>

text \<open>
  \<open>R_AARCH64_ABS16\<close> and \<open>R_AARCH64_PREL16\<close>, 16-bit types, stand in for the signed and the PLT relocations of x86-64,
  whose handlers store four bytes: the two bytes behind the field are overwritten.
\<close>

theorem arm64_halfwords_write_four_bytes:
  assumes "relaType (rl_Info r) \<in> {259, 262}" and "validateRelocationOffset obj r = Ok ()"
    and "resolveSymForReloc obj (relaSymIdx (rl_Info r)) rs w = (Ok S, w)" and "all_writable (w_mem w) (place obj r) 4"
  shows "applyRelocation os nt arm64Codes rs r obj w =
    (Ok obj, put (place obj r) (le_enc 4 (unat (if relaType (rl_Info r) = 259 then S + rl_Addend r
       else S + rl_Addend r - place obj r) mod 2 ^ 32)) w)"
proof -
  have h: "relocHandlers os nt arm64Codes 259 = Some (plain (\<lambda>c. apply32S (rc_obj c) (rc_symIdx c) (rc_offset c) (rc_addend c) (rc_resolver c)))"
    "relocHandlers os nt arm64Codes 262 = Some (plain (\<lambda>c. applyPC32 (rc_obj c) (rc_symIdx c) (rc_offset c) (rc_addend c) (rc_offset c) (rc_resolver c)))"
    by (simp_all add: relocHandlers_def arm64Codes_values)
  from assms show ?thesis
    by (elim insertE emptyE)
       (auto simp: h applyRelocation_def bindS_def liftS_def retS_def Let_def plain_def buildRelocContext_def place_def[symmetric]
         apply32S_def applyPC32_def poke32_Ok unat_low32)
qed

theorem arm64_halfwords_write_four_bytes_witness:
  "applyRelocation (demoOs []) demoNative arm64Codes None \<lparr>rl_Offset = 0x10, rl_Info = 259, rl_Addend = 0x12345\<rparr>
     (newObject demoTwo 0x2000) (initialWorld openMem) =
   (Ok (newObject demoTwo 0x2000), put 0x2010 (le_enc 4 0x12345) (initialWorld openMem))"
proof -
  let ?r = "\<lparr>rl_Offset = 0x10, rl_Info = 259, rl_Addend = 0x12345\<rparr>" and ?obj = "newObject demoTwo 0x2000"
  have "all_writable openMem a n" for a n by (simp add: all_writable_iff writable_def openMem_def)
  then show ?thesis
    using arm64_halfwords_write_four_bytes[of ?r ?obj None "initialWorld openMem" 0 "demoOs []" demoNative]
    by (simp add: relaType_def validateRelocationOffset_def newObject_def demoTwo_def relaSymIdx_def resolveSymForReloc_def
        retS_def initialWorld_def place_def)
qed

end
