(* ===== verification/Tls_Access.thy ===== *)
theory Tls_Access
  imports Reloc_Safety
begin

text \<open>
  Thread-local variables from the relocation to the access: what the pair of entries a relocation table leaves makes
  \<open>__tls_get_addr\<close> answer, and what the static model (\<open>TPOFF64\<close>) writes instead.
\<close>

unbundle bit_operations_syntax

section \<open>The dynamic model\<close>

text \<open>A module the manager has given out.\<close>

definition registered :: "world \<Rightarrow> tls_module \<Rightarrow> bool" where
  "registered w md \<longleftrightarrow>
     0 < unat (mod_ID md) \<and> unat (mod_ID md) \<le> length (w_modules w) \<and> w_modules w ! (unat (mod_ID md) - 1) = md"

lemma RegisterModule_registered:
  assumes "registry_ok w" and "RegisterModule sz align fileSize initData w = (Ok md, w')"
  shows "registered w' md"
proof -
  have n: "length (w_modules w) < 65536" "w_nextID w = of_nat (length (w_modules w) + 1)"
    using assms(1) by (simp_all add: registry_ok_def)
  then have "unat (w_nextID w) = length (w_modules w) + 1" by (simp add: unat_of_nat64 del: of_nat_Suc of_nat_add)
  with assms(2) show ?thesis by (auto simp: RegisterModule_def registered_def Let_def nth_append split: if_splits)
qed

lemma template_ok_mprot: "mprot m' = mprot m \<Longrightarrow> template_ok md m' = template_ok md m"
  by (simp add: template_ok_def all_readable_iff readable_def)

lemma target_word:
  assumes "Some (peek m (place obj r) (width r)) = entryBytes obj Sf r" and "entryBytes obj Sf r = Some (le_enc 8 (unat v))"
    and "width r = 8" and "all_readable m (place obj r) 8"
  shows "word_at m (place obj r) v"
proof -
  have "holds m (place obj r) (le_enc 8 (unat v))" using assms by (simp add: holds_def)
  then show ?thesis by (rule holds_rd64)
qed


section \<open>The static model\<close>

lemma writable_not_new: "region_prot b n None m \<Longrightarrow> writable m x \<Longrightarrow> \<not> in_region b n x"
  by (auto simp: region_prot_def writable_def)

text \<open>
  C33: Static thread-local variables. A \<open>TPOFF64\<close> entry allocates a block for the module and writes the symbol's
  offset plus the addend minus the size of the module, as if the module were the only one below the thread pointer: the
  value does not depend on where the block is, and no thread's table gets the block. So references of the static and of the dynamic model
  to one variable lead to different places, and modules of one size share their offsets.
\<close>

theorem static_tls_offset:
  assumes "os_ok os file" and "resolveTLSModuleAndOffset obj i rs w = (Ok (Some md, off), w)" and "template_ok md (w_mem w)"
    and "all_writable (w_mem w) p 8"
  shows "case mapBlock os md (w_mem w) of
      (Ok b, m) \<Rightarrow> \<exists>w'. applyTPOff64 os obj i r p a rs w = (Ok (), w') \<and>
        peek (w_mem w') p 8 = le_enc 8 (unat (off + a - mod_Size md)) \<and> w_blocks w' = w_blocks w \<and>
        region_prot b (pages os (alignedSize md)) (Some 3) (w_mem w') \<and>
        (\<forall>x. in_region b (pages os (alignedSize md)) x \<longrightarrow> \<not> in_region p 8 x)
    | (Err e, m) \<Rightarrow> applyTPOff64 os obj i r p a rs w = (Err (TLSBlockFailed ''relocTPOff64'' (BlockMmap e)), w)
    | _ \<Rightarrow> False"
proof -
  let ?P = "pages os (alignedSize md)"
  obtain q m1 where map: "mapBlock os md (w_mem w) = (q, m1)" by fastforce
  have start: "applyTPOff64 os obj i r p a rs w = writeTPOffset os p (Some md) off a w"
    using assms(2) by (simp add: applyTPOff64_def bindS_def)
  note alloc = AllocateBlock_fresh[OF assms(1,3), unfolded map prod.case]
  show ?thesis
  proof (cases q)
    case (Ok b)
    with alloc obtain m' where call: "AllocateBlock os (Some md) (w_mem w) = (Ok \<lparr>blk_Addr = b, blk_Module = md\<rparr>, m')"
      and fresh: "fresh_block os md (w_mem w) b m'" by auto
    have so: "same_outside b ?P (w_mem w) m'" and new: "region_prot b ?P None (w_mem w)" and rp: "region_prot b ?P (Some 3) m'"
      using fresh by (simp_all add: fresh_block_def)
    have out: "\<not> in_region b ?P (p + of_nat k)" if "k < 8" for k
      using assms(4) that writable_not_new[OF new] by (simp add: all_writable_iff)
    then have wr: "all_writable m' p 8"
      using assms(4) so by (auto simp: all_writable_iff writable_def same_outside_def)
    let ?w' = "put p (le_enc 8 (unat (off + a - mod_Size md))) (w\<lparr>w_mem := m'\<rparr>)"
    have v: "off - mod_Size md + a = off + a - mod_Size md" by simp
    have "writeTPOffset os p (Some md) off a w = (Ok (), ?w')"
      using wr by (simp add: writeTPOffset_def bindS_def mapErrS_def onMem_def call GetThreadPointerOffset_def poke64_Ok Let_def v)
    moreover have "peek (w_mem ?w') p 8 = le_enc 8 (unat (off + a - mod_Size md))" by (intro peek_put) simp_all
    moreover have "region_prot b ?P (Some 3) (w_mem ?w')" using rp by (simp add: region_prot_def put_def)
    moreover have "\<not> in_region p 8 x" if "in_region b ?P x" for x
    proof
      assume "in_region p 8 x"
      then obtain k where "k < 8" "x = p + of_nat k" by (auto simp: in_region_def intro: that[of "unat (x - p)"])
      with out that show False by blast
    qed
    ultimately show ?thesis using start map Ok by (auto simp: put_def)
  next
    case (Err e)
    with alloc have "AllocateBlock os (Some md) (w_mem w) = (Err (BlockMmap e), w_mem w)" by simp
    then show ?thesis using start map Err by (simp add: writeTPOffset_def bindS_def mapErrS_def onMem_def)
  qed (use alloc in simp_all)
qed

section \<open>An object with thread-local data\<close>

text \<open>A module of sixteen zero bytes, and an object whose table has the two entries for offset 4.\<close>

definition zeroModule :: tls_module where
  "zeroModule = \<lparr>mod_ID = 1, mod_Size = 16, mod_Align = 8, mod_FileSize = 0, mod_InitData = 0\<rparr>"

definition tlsObject :: loaded_object where
  "tlsObject = (newObject demoTwo 0x2000)\<lparr>TLSModule := Some zeroModule\<rparr>"

definition tlsRela :: "rela_entry list" where
  "tlsRela = [\<lparr>rl_Offset = 0x100, rl_Info = 16, rl_Addend = 0\<rparr>, \<lparr>rl_Offset = 0x108, rl_Info = 17, rl_Addend = 4\<rparr>]"

definition tlsRelaMem :: memory where
  "tlsRelaMem = \<lparr>mbytes = store (\<lambda>_. 0) 0x1000 (concat (map encRela tlsRela)),
                 mprot = (\<lambda>x. if in_region 0x1000 0x2000 x then Some 3 else None)\<rparr>"

definition tlsWorld :: world where
  "tlsWorld = \<lparr>w_mem = tlsRelaMem, w_modules = [zeroModule], w_nextID = 2, w_blocks = Map.empty\<rparr>"

lemma tlsWorld_ok: "registry_ok tlsWorld" "registered tlsWorld zeroModule" "template_ok zeroModule (w_mem tlsWorld)"
  by (simp_all add: registry_ok_def registered_def template_ok_def tlsWorld_def zeroModule_def word_le_nat_alt upt_conv_Cons)

lemma tlsRela_ok: "table_ok tlsRelaMem tlsObject 0x1000 tlsRela"
proof -
  have len: "length (concat (map encRela tlsRela)) = 48" by (simp add: tlsRela_def)
  have "holds (tlsRelaMem\<lparr>mbytes := store (\<lambda>_. 0) 0x1000 (concat (map encRela tlsRela))\<rparr>) 0x1000 (concat (map encRela tlsRela))"
    by (intro holds_store) (auto simp: len all_readable_iff readable_def tlsRelaMem_def in_region_def unat_of_nat64)
  then have "holds tlsRelaMem 0x1000 (concat (map encRela tlsRela))" by (simp add: tlsRelaMem_def)
  moreover have "all_writable tlsRelaMem 0x2100 8" "all_writable tlsRelaMem 0x2108 8"
    by (simp_all add: all_writable_def writable_def tlsRelaMem_def in_region_def upt_conv_Cons)
  ultimately show ?thesis
    by (simp add: table_ok_def) (simp add: tlsRela_def place_def width_def relaType_def validateRelocationOffset_def newObject_def
        demoTwo_def apart_def tableType_def tlsObject_def)
qed

lemma demo_map_zero:
  assumes "mprot m = mprot tlsRelaMem"
  shows "\<exists>m'. mapBlock (demoOs []) zeroModule m = (Ok 0x100000, m')"
proof -
  have n: "pages4096 (alignedSize zeroModule) = 4096" "alignedSize zeroModule \<noteq> 0"
    by (simp_all add: alignedSize_def zeroModule_def pages4096_def)
  have "freeAt m 0x100000 4096"
    by (auto simp: freeAt_def list_all_iff assms tlsRelaMem_def in_region_interval unat_add_no_wrap unat_of_nat64)
  then show ?thesis by (simp add: Map_def mapErrS_def demoMmap_def n Let_def)
qed


theorem static_tls_offset_witness:
  "\<exists>w'. applyTPOff64 (demoOs []) tlsObject 0 (tlsRela ! 0) 0x2100 4 None tlsWorld = (Ok (), w') \<and>
     peek (w_mem w') 0x2100 8 = le_enc 8 (unat (- 12 :: u64)) \<and> w_blocks w' = Map.empty"
proof -
  have m: "w_mem tlsWorld = tlsRelaMem" by (simp add: tlsWorld_def)
  have res: "resolveTLSModuleAndOffset tlsObject 0 None tlsWorld = (Ok (Some zeroModule, 0), tlsWorld)"
    by (simp add: resolveTLSModuleAndOffset_def retS_def tlsObject_def)
  have wr: "all_writable (w_mem tlsWorld) 0x2100 8"
    by (simp add: m all_writable_def writable_def tlsRelaMem_def in_region_def upt_conv_Cons)
  obtain m' where map: "mapBlock (demoOs []) zeroModule (w_mem tlsWorld) = (Ok 0x100000, m')"
    using demo_map_zero[of "w_mem tlsWorld"] by (auto simp: m)
  have "0 + 4 - mod_Size zeroModule = (- 12 :: u64)" by (simp add: zeroModule_def)
  with static_tls_offset[OF demoOs_ok[of "[]"] res tlsWorld_ok(3) wr, where r = "tlsRela ! 0" and a = 4, unfolded map prod.case result.case]
  show ?thesis by (auto simp: tlsWorld_def)
qed

end
