(* ===== verification/Dl_Cache.thy ===== *)
theory Dl_Cache
  imports Prelude
begin

text \<open>
  \<open>dl/ldcache.go\<close>: the reader of \<open>/etc/ld.so.cache\<close>. The structures are the Go structures of the file, read
  by \<open>binary.Read\<close>, which packs fields: the header takes 80 bytes of the file, while \<open>unsafe.Sizeof\<close>, with
  Go's alignment, is 88. The reserved fields are not kept. The cache is loaded once; \<open>cache_state\<close> is
  \<open>cacheLoadOnce\<close> with \<open>globalCache\<close>.
\<close>

unbundle bit_operations_syntax

record cacheHeader =
  Magic :: bytes
  NumLibs :: u32
  StringsLen :: u32
  Extension :: u64

record cacheEntry =
  ce_Flags :: u32
  KeyOffset :: u32
  ValueOffset :: u32
  OSVersion :: u32
  HWCap :: u64

type_synonym ldCache = "string \<rightharpoonup> string"

datatype cache_error =
    CacheReadFile string
  | CacheTooSmall
  | CacheInvalidMagic
  | CacheHeaderRead
  | CacheTruncated nat nat
  | UnexpectedEOF
  | CacheEntryRead nat cache_error
  | OffsetOutOfBounds nat nat
  | NoTerminator nat

abbreviation (input) sizeofHeader :: nat where "sizeofHeader \<equiv> 88"
abbreviation (input) sizeofEntry :: nat where "sizeofEntry \<equiv> 24"

definition cacheHeaderMagic :: bytes where
  "cacheHeaderMagic = map ord ''glibc-ld.so.cache1.1''"

definition defaultCachePath :: string where
  "defaultCachePath = ''/etc/ld.so.cache''"

section \<open>Reading\<close>

text \<open>Field \<open>n\<close> bytes wide at position \<open>i\<close>.\<close>

definition field :: "bytes \<Rightarrow> nat \<Rightarrow> nat \<Rightarrow> 'w::len word" where
  "field d i n = le_word (take n (drop i d))"

definition hasPrefix :: "bytes \<Rightarrow> bytes \<Rightarrow> bool" where
  "hasPrefix d p \<longleftrightarrow> take (length p) d = p"

definition validateCacheData :: "bytes \<Rightarrow> (cache_error, unit) result" where
  "validateCacheData d =
     (if length d < sizeofHeader then Err CacheTooSmall
      else if \<not> hasPrefix d cacheHeaderMagic then Err CacheInvalidMagic
      else Ok ())"

definition parseCacheHeader :: "bytes \<Rightarrow> (cache_error, cacheHeader) result" where
  "parseCacheHeader d =
     (if length d < 80 then Err CacheHeaderRead
      else Ok \<lparr>Magic = take 20 d, NumLibs = field d 20 4, StringsLen = field d 24 4, Extension = field d 60 8\<rparr>)"

definition validateCacheSize :: "bytes \<Rightarrow> cacheHeader \<Rightarrow> (cache_error, bytes) result" where
  "validateCacheSize d header =
     (let entriesSize = unat (NumLibs header) * sizeofEntry;
          stringsOffset = sizeofHeader + entriesSize
      in if stringsOffset > length d then Err (CacheTruncated stringsOffset (length d))
         else Ok (drop stringsOffset d))"

definition shouldIncludeEntry :: "cacheEntry \<Rightarrow> bool" where
  "shouldIncludeEntry e =
     (if ce_Flags e AND 0x00ff \<noteq> 0x0003 then False
      else let arch = ce_Flags e AND 0xff00 in arch = 0 \<or> arch = 0x0300)"

text \<open>\<open>bytes.IndexByte\<close>; \<open>None\<close> is -1.\<close>

definition IndexByte :: "bytes \<Rightarrow> u8 \<Rightarrow> nat option" where
  "IndexByte d c = (let n = length (takeWhile (\<lambda>b. b \<noteq> c) d) in if n < length d then Some n else None)"

definition extractString :: "bytes \<Rightarrow> u32 \<Rightarrow> (cache_error, string) result" where
  "extractString d offset =
     (if unat offset \<ge> length d then Err (OffsetOutOfBounds (unat offset) (length d))
      else case IndexByte (drop (unat offset) d) 0 of
             None \<Rightarrow> Err (NoTerminator (unat offset))
           | Some n \<Rightarrow> Ok (map chr (take n (drop (unat offset) d))))"

text \<open>\<open>binary.Read\<close> of an entry from a reader, which is the rest of the data it holds.\<close>

definition readEntry :: "bytes \<Rightarrow> (cache_error, cacheEntry \<times> bytes) result" where
  "readEntry d =
     (if length d < sizeofEntry then Err UnexpectedEOF
      else Ok (\<lparr>ce_Flags = field d 0 4, KeyOffset = field d 4 4, ValueOffset = field d 8 4,
                OSVersion = field d 12 4, HWCap = field d 16 8\<rparr>, drop sizeofEntry d))"

definition readCacheEntry :: "bytes \<Rightarrow> bytes \<times> ldCache \<Rightarrow> (cache_error, bytes \<times> ldCache) result" where
  "readCacheEntry stringTable = (\<lambda>(reader, cache).
     bindR (readEntry reader) (\<lambda>(entry, reader).
       if \<not> shouldIncludeEntry entry then Ok (reader, cache)
       else case extractString stringTable (KeyOffset entry) of
              Ok soname \<Rightarrow>
                (case extractString stringTable (ValueOffset entry) of
                   Ok path \<Rightarrow> Ok (reader, cache(soname \<mapsto> path))
                 | _ \<Rightarrow> Ok (reader, cache))
            | _ \<Rightarrow> Ok (reader, cache)))"

definition parseCacheEntries :: "bytes \<Rightarrow> cacheHeader \<Rightarrow> (cache_error, ldCache) result" where
  "parseCacheEntries d header =
     bindR (validateCacheSize d header) (\<lambda>stringTable.
       let entriesSize = unat (NumLibs header) * sizeofEntry;
           entryData = take entriesSize (drop sizeofHeader d)
       in bindR (forR (\<lambda>i s. mapErr (CacheEntryRead i) (readCacheEntry stringTable s))
                   [0..<unat (NumLibs header)] (entryData, Map.empty))
            (\<lambda>(_, cache). Ok cache))"

definition parseCache :: "(string \<rightharpoonup> bytes) \<Rightarrow> string \<Rightarrow> (cache_error, ldCache) result" where
  "parseCache fs path =
     (case fs path of
        None \<Rightarrow> Err (CacheReadFile path)
      | Some d \<Rightarrow>
          bindR (validateCacheData d) (\<lambda>_.
          bindR (parseCacheHeader d) (\<lambda>header.
            if NumLibs header = 0 then Ok Map.empty else parseCacheEntries d header)))"

section \<open>The cache that is loaded once\<close>

record cache_state =
  cacheLoaded :: bool
  globalCache :: "ldCache option"

definition initialCache :: cache_state where
  "initialCache = \<lparr>cacheLoaded = False, globalCache = None\<rparr>"

definition loadCache :: "(string \<rightharpoonup> bytes) \<Rightarrow> cache_state \<Rightarrow> cache_state" where
  "loadCache fs cs =
     (if cacheLoaded cs then cs
      else \<lparr>cacheLoaded = True,
            globalCache = (case parseCache fs defaultCachePath of Ok c \<Rightarrow> Some c | _ \<Rightarrow> globalCache cs)\<rparr>)"

definition lookupInCache :: "(string \<rightharpoonup> bytes) \<Rightarrow> string \<Rightarrow> (cache_state, 'e, string) st" where
  "lookupInCache fs soname = (\<lambda>cs.
     let cs = loadCache fs cs
     in (Ok (case globalCache cs of
               None \<Rightarrow> []
             | Some c \<Rightarrow> (case c soname of None \<Rightarrow> [] | Some path \<Rightarrow> path)), cs))"

section \<open>A cache file in the layout the reader expects\<close>

definition encEntry :: "cacheEntry \<Rightarrow> bytes" where
  "encEntry e =
     le_enc 4 (unat (ce_Flags e)) @ le_enc 4 (unat (KeyOffset e)) @ le_enc 4 (unat (ValueOffset e)) @
     le_enc 4 (unat (OSVersion e)) @ le_enc 8 (unat (HWCap e))"

definition encHeader :: "nat \<Rightarrow> nat \<Rightarrow> bytes" where
  "encHeader n len = cacheHeaderMagic @ le_enc 4 n @ le_enc 4 len @ replicate 60 0"

definition cstr :: "string \<Rightarrow> bytes" where
  "cstr s = map ord s @ [0]"

definition cacheStrings :: "(string \<times> string) list \<Rightarrow> bytes" where
  "cacheStrings es = concat (map (\<lambda>(k, v). cstr k @ cstr v) es)"

primrec entriesFrom :: "nat \<Rightarrow> (string \<times> string) list \<Rightarrow> cacheEntry list" where
  "entriesFrom off [] = []"
| "entriesFrom off (e # es) =
     \<lparr>ce_Flags = 0x0303, KeyOffset = of_nat off, ValueOffset = of_nat (off + length (cstr (fst e))),
      OSVersion = 0, HWCap = 0\<rparr> # entriesFrom (off + length (cstr (fst e)) + length (cstr (snd e))) es"

definition writeCache :: "(string \<times> string) list \<Rightarrow> bytes" where
  "writeCache es =
     encHeader (length es) (length (cacheStrings es)) @ concat (map encEntry (entriesFrom 0 es)) @ cacheStrings es"

text \<open>What the loop does with one entry.\<close>

definition accept :: "bytes \<Rightarrow> cacheEntry \<Rightarrow> ldCache \<Rightarrow> ldCache" where
  "accept st e c =
     (if \<not> shouldIncludeEntry e then c
      else case (extractString st (KeyOffset e), extractString st (ValueOffset e)) of
             (Ok k, Ok v) \<Rightarrow> c(k \<mapsto> v)
           | _ \<Rightarrow> c)"

lemma field_at: "i = length a \<Longrightarrow> n = length b \<Longrightarrow> field (a @ b @ r) i n = le_word b"
  by (simp add: field_def)

lemma length_encEntry [simp]: "length (encEntry e) = 24"
  by (simp add: encEntry_def)

lemma le_word32 [simp]: "le_word (le_enc 4 (unat w)) = w" for w :: u32
  by (rule le_word_enc) simp

lemma le_word64 [simp]: "le_word (le_enc 8 (unat w)) = w" for w :: u64
  by (rule le_word_enc) simp

lemma readEntry_encEntry: "readEntry (encEntry e @ r) = Ok (e, r)"
proof -
  let ?f = "le_enc 4 (unat (ce_Flags e))" let ?k = "le_enc 4 (unat (KeyOffset e))"
  let ?v = "le_enc 4 (unat (ValueOffset e))" let ?o = "le_enc 4 (unat (OSVersion e))" let ?h = "le_enc 8 (unat (HWCap e))"
  have "field (encEntry e @ r) 0 4 = ce_Flags e"
    using field_at[where 'a = 32, of 0 "[]" 4 ?f "?k @ ?v @ ?o @ ?h @ r"] by (simp add: encEntry_def)
  moreover have "field (encEntry e @ r) 4 4 = KeyOffset e"
    using field_at[where 'a = 32, of 4 ?f 4 ?k "?v @ ?o @ ?h @ r"] by (simp add: encEntry_def)
  moreover have "field (encEntry e @ r) 8 4 = ValueOffset e"
    using field_at[where 'a = 32, of 8 "?f @ ?k" 4 ?v "?o @ ?h @ r"] by (simp add: encEntry_def)
  moreover have "field (encEntry e @ r) 12 4 = OSVersion e"
    using field_at[where 'a = 32, of 12 "?f @ ?k @ ?v" 4 ?o "?h @ r"] by (simp add: encEntry_def)
  moreover have "field (encEntry e @ r) 16 8 = HWCap e"
    using field_at[where 'a = 64, of 16 "?f @ ?k @ ?v @ ?o" 8 ?h r] by (simp add: encEntry_def)
  ultimately show ?thesis by (simp add: readEntry_def)
qed

lemma extractString_result: "(\<exists>s. extractString st off = Ok s) \<or> (\<exists>e. extractString st off = Err e)"
  by (auto simp: extractString_def split: option.splits)

lemma readCacheEntry_accept: "readCacheEntry st (encEntry e @ r, c) = Ok (r, accept st e c)"
  using extractString_result[of st "KeyOffset e"] extractString_result[of st "ValueOffset e"]
  by (auto simp: readCacheEntry_def readEntry_encEntry accept_def split: result.splits)

lemma entries_loop:
  "length ixs = length es \<Longrightarrow>
     forR (\<lambda>i s. mapErr (w i) (readCacheEntry st s)) ixs (concat (map encEntry es) @ r, c) = Ok (r, fold (accept st) es c)"
proof (induction es arbitrary: ixs c)
  case Nil
  then show ?case by simp
next
  case (Cons e es)
  then obtain i is' where "ixs = i # is'" and "length is' = length es" by (cases ixs) auto
  with Cons.IH show ?case by (simp add: readCacheEntry_accept)
qed

lemma length_entries [simp]: "length (concat (map encEntry es)) = 24 * length es"
  by (induction es) auto

lemma parseCache_entries:
  assumes "fs path = Some (encHeader (length es) len @ concat (map encEntry es) @ st)" and "length es < 2 ^ 32"
  shows "parseCache fs path = Ok (fold (accept st) es Map.empty)"
proof -
  define n where "n = length es"
  have nb: "n < 2 ^ 32" using assms(2) by (simp add: n_def)
  let ?d = "encHeader n len @ concat (map encEntry es) @ st"
  have lm: "length cacheHeaderMagic = 20" by (simp add: cacheHeaderMagic_def)
  have lh: "length (encHeader n len) = 88" by (simp add: encHeader_def lm)
  have "field ?d 20 4 = (le_word (le_enc 4 n) :: u32)"
    using field_at[of 20 cacheHeaderMagic 4 "le_enc 4 n"] lm by (simp add: encHeader_def)
  also have "\<dots> = of_nat n" using nb by (simp add: le_word_def le_nat_enc)
  finally have num: "field ?d 20 4 = (of_nat n :: u32)" .
  have un: "unat (of_nat n :: u32) = n" using nb by (simp add: unat_of_nat)
  obtain h where h: "parseCacheHeader ?d = Ok h" and nh: "NumLibs h = of_nat n"
    using num lh by (simp add: parseCacheHeader_def)
  have v: "validateCacheData ?d = Ok ()"
    using lh lm by (simp add: validateCacheData_def hasPrefix_def encHeader_def)
  have "parseCacheEntries ?d h = Ok (fold (accept st) es Map.empty)"
    using entries_loop[of "[0..<n]" es CacheEntryRead st "[]" Map.empty]
    by (simp add: parseCacheEntries_def validateCacheSize_def nh un lh n_def[symmetric] Let_def)
  moreover have "es = []" if "(of_nat n :: u32) = 0" using that un n_def by (metis length_0_conv unat_0)
  ultimately show ?thesis using assms(1) by (auto simp: parseCache_def v h nh n_def[symmetric])
qed

lemma extractString_at:
  assumes "off = length a" and "length a < 2 ^ 32" and "CHR 0x00 \<notin> set s"
  shows "extractString (a @ cstr s @ r) (of_nat off) = Ok s"
proof -
  have u: "unat (of_nat off :: u32) = length a" using assms(1,2) by (simp add: unat_of_nat)
  have n: "b \<noteq> 0" if "b \<in> set (map ord s)" for b using assms(3) that by auto
  have tw: "takeWhile (\<lambda>b. b \<noteq> 0) (map ord s @ 0 # r) = map ord s"
    using takeWhile_append2[of "map ord s" "\<lambda>b. b \<noteq> 0" "0 # r", OF n] by simp
  have "map (chr \<circ> ord) s = s" by (simp add: map_idI)
  then show ?thesis by (simp add: extractString_def u cstr_def IndexByte_def tw Let_def)
qed

lemma accept_strings:
  assumes "length a + length (cacheStrings es) < 2 ^ 32"
    and "\<And>k v. (k, v) \<in> set es \<Longrightarrow> CHR 0x00 \<notin> set k \<and> CHR 0x00 \<notin> set v"
  shows "fold (accept (a @ cacheStrings es)) (entriesFrom (length a) es) c = c ++ map_of (rev es)"
  using assms
proof (induction es arbitrary: a c)
  case Nil
  then show ?case by simp
next
  case (Cons e es)
  obtain k v where e: "e = (k, v)" by fastforce
  let ?st = "a @ cacheStrings (e # es)"
  let ?e = "hd (entriesFrom (length a) (e # es))"
  have st: "?st = a @ cstr k @ cstr v @ cacheStrings es" by (simp add: cacheStrings_def e)
  have nul: "CHR 0x00 \<notin> set k" "CHR 0x00 \<notin> set v" using Cons.prems(2)[of k v] e by auto
  have len: "length a + length (cstr k) + length (cstr v) + length (cacheStrings es) < 2 ^ 32"
    using Cons.prems(1) by (simp add: cacheStrings_def e)
  have "extractString ?st (KeyOffset ?e) = Ok k"
    using extractString_at[of "length a" a k "cstr v @ cacheStrings es"] len nul st by (simp add: e)
  moreover have "extractString ?st (ValueOffset ?e) = Ok v"
    using extractString_at[of "length a + length (cstr k)" "a @ cstr k" v "cacheStrings es"] len nul st by (simp add: e)
  moreover have "shouldIncludeEntry ?e" by (simp add: shouldIncludeEntry_def)
  ultimately have one: "accept ?st ?e c = c(k \<mapsto> v)" by (simp add: accept_def)
  have "fold (accept ((a @ cstr k @ cstr v) @ cacheStrings es)) (entriesFrom (length (a @ cstr k @ cstr v)) es) (c(k \<mapsto> v)) =
      c(k \<mapsto> v) ++ map_of (rev es)"
  proof (rule Cons.IH)
    show "length (a @ cstr k @ cstr v) + length (cacheStrings es) < 2 ^ 32" using len by simp
  qed (metis Cons.prems(2) list.set_intros(2))
  moreover have "accept ?st = accept ((a @ cstr k @ cstr v) @ cacheStrings es)" using st by simp
  ultimately show ?case using one by (simp add: e add.assoc map_add_rev_Cons del: map_of_append)
qed

text \<open>
  C27: A cache file in the layout the reader expects is read back: the file made from a list of sonames with
  their paths gives the map of these pairs, the last pair of a soname winning. The strings hold no zero byte
  and the string table stays below 4 GiB, the reach of the 32-bit offsets.
\<close>

theorem parseCache_roundtrip:
  assumes "fs path = Some (writeCache es)"
    and "length es < 2 ^ 32" and "length (cacheStrings es) < 2 ^ 32"
    and "\<And>k v. (k, v) \<in> set es \<Longrightarrow> CHR 0x00 \<notin> set k \<and> CHR 0x00 \<notin> set v"
  shows "parseCache fs path = Ok (map_of (rev es))"
proof -
  have l: "length (entriesFrom off es) = length es" for off by (induction es arbitrary: off) auto
  have "parseCache fs path = Ok (fold (accept (cacheStrings es)) (entriesFrom 0 es) Map.empty)"
    using parseCache_entries[of fs path "entriesFrom 0 es"] assms(1,2) by (simp add: writeCache_def l)
  also have "fold (accept (cacheStrings es)) (entriesFrom 0 es) Map.empty = map_of (rev es)"
    using accept_strings[of "[]" es Map.empty] assms(3,4) by simp
  finally show ?thesis .
qed

theorem parseCache_roundtrip_witness:
  "parseCache [''/c'' \<mapsto> writeCache [(''libm.so.6'', ''/lib/libm.so.6'')]] ''/c'' = Ok [''libm.so.6'' \<mapsto> ''/lib/libm.so.6'']"
  using parseCache_roundtrip[of "[''/c'' \<mapsto> writeCache [(''libm.so.6'', ''/lib/libm.so.6'')]]" "''/c''"
    "[(''libm.so.6'', ''/lib/libm.so.6'')]"]
  by (simp add: cacheStrings_def cstr_def)

section \<open>The bytes the reader passes over\<close>

text \<open>
  Nothing between byte 28 and byte 88 of the file has any influence. The structure the comment refers
  to, glibc's \<open>cache_file_new\<close>, ends at byte 48, where the entries begin: the first entry of a cache
  that glibc wrote, and the first 16 bytes of the second, are never looked at.
\<close>

theorem parseCache_passes_over:
  assumes "fs path = Some d" and "fs' path = Some d'"
    and "length d = length d'" and "take 28 d = take 28 d'" and "drop 88 d = drop 88 d'"
  shows "parseCache fs path = parseCache fs' path"
proof -
  have f: "field d 20 4 = (field d' 20 4 :: u32)"
  proof -
    have "take 4 (drop 20 x) = drop 20 (take 24 (take 28 x))" for x :: bytes by (simp add: take_drop)
    then show ?thesis unfolding field_def by (metis assms(4))
  qed
  have p: "hasPrefix d cacheHeaderMagic = hasPrefix d' cacheHeaderMagic"
  proof -
    have "take 20 x = take 20 (take 28 x)" for x :: bytes by simp
    then have "take 20 d = take 20 d'" by (metis assms(4))
    moreover have "length cacheHeaderMagic = 20" by (simp add: cacheHeaderMagic_def)
    ultimately show ?thesis unfolding hasPrefix_def by simp
  qed
  have s: "drop (88 + n) d = drop (88 + n) d'" for n
    using arg_cong[OF assms(5), of "drop n"] by (simp add: add.commute)
  show ?thesis
    by (simp add: parseCache_def assms(1,2) validateCacheData_def parseCacheHeader_def parseCacheEntries_def
        validateCacheSize_def p f s assms(3,5) Let_def)
qed

text \<open>A cache with one library as glibc lays it out, string offsets counted from the start of the file.\<close>

definition glibcCache :: "u32 \<Rightarrow> bytes" where
  "glibcCache key = cacheHeaderMagic @ le_enc 4 1 @ le_enc 4 25 @ replicate 20 0 @
     encEntry \<lparr>ce_Flags = 0x0303, KeyOffset = key, ValueOffset = 82, OSVersion = 0, HWCap = 0\<rparr> @
     cstr ''libm.so.6'' @ cstr ''/lib/libm.so.6''"

theorem parseCache_passes_over_witness:
  "parseCache [''/c'' \<mapsto> glibcCache 72] ''/c'' = parseCache [''/c'' \<mapsto> glibcCache 0] ''/c''"
proof (rule parseCache_passes_over)
  show "length (glibcCache 72) = length (glibcCache 0)" by (simp add: glibcCache_def)
  show "take 28 (glibcCache 72) = take 28 (glibcCache 0)" by (simp add: glibcCache_def cacheHeaderMagic_def)
  show "drop 88 (glibcCache 72) = drop 88 (glibcCache 0)" by (simp add: glibcCache_def cacheHeaderMagic_def)
qed simp_all

end
