(* ===== verification/Dl_Search.thy ===== *)
theory Dl_Search
  imports Dl_Cache
begin

text \<open>
  \<open>dl/search.go\<close>: where a library name is looked for. The file system is a record of parameters: what
  \<open>os.ReadFile\<close> and \<open>os.Stat\<close> find, and the variable \<open>LD_LIBRARY_PATH\<close>. \<open>strings.Split\<close>,
  \<open>filepath.Clean\<close> and \<open>filepath.Join\<close> are modelled as the standard library documents them. An empty path
  stands for "not found" between the functions, as in the code.
\<close>

record files =
  fl_read :: "string \<rightharpoonup> bytes"
  fl_stat :: "string \<Rightarrow> bool"
  fl_LD_LIBRARY_PATH :: string

datatype search_error = DirectPathMissing string | NotInSearchPaths string

section \<open>Paths\<close>

fun splitOn :: "char \<Rightarrow> string \<Rightarrow> string list" where
  "splitOn c [] = [[]]"
| "splitOn c (x # xs) =
     (if x = c then [] # splitOn c xs
      else case splitOn c xs of [] \<Rightarrow> [[x]] | p # ps \<Rightarrow> (x # p) # ps)"

fun joinWith :: "char \<Rightarrow> string list \<Rightarrow> string" where
  "joinWith c [] = []"
| "joinWith c [p] = p"
| "joinWith c (p # ps) = p @ c # joinWith c ps"

text \<open>One component of a path; the components kept so far are in reverse order.\<close>

definition cleanStep :: "bool \<Rightarrow> string \<Rightarrow> string list \<Rightarrow> string list" where
  "cleanStep rooted c out =
     (if c = [] \<or> c = ''.'' then out
      else if c = ''..'' then
        (case out of
           [] \<Rightarrow> if rooted then [] else [c]
         | p # ps \<Rightarrow> if p = ''..'' then c # out else ps)
      else c # out)"

definition Clean :: "string \<Rightarrow> string" where
  "Clean p =
     (let rooted = take 1 p = ''/'';
          s = joinWith CHR ''/'' (rev (fold (cleanStep rooted) (splitOn CHR ''/'' p) []))
      in if rooted then CHR ''/'' # s else if s = [] then ''.'' else s)"

definition pathJoin :: "string \<Rightarrow> string \<Rightarrow> string" where
  "pathJoin dir name =
     (let elems = filter (\<lambda>e. e \<noteq> []) [dir, name] in if elems = [] then [] else Clean (joinWith CHR ''/'' elems))"

section \<open>The search\<close>

definition defaultSearchPaths :: "string list" where
  "defaultSearchPaths =
     [''/lib/x86_64-linux-gnu'', ''/usr/lib/x86_64-linux-gnu'', ''/lib64'', ''/usr/lib64'', ''/lib'', ''/usr/lib'']"

definition splitPaths :: "string \<Rightarrow> string list" where
  "splitPaths paths = (if paths = [] then [] else filter (\<lambda>p. p \<noteq> []) (splitOn CHR '':'' paths))"

record search_path =
  sp_dirs :: "string list"
  sp_useCache :: bool

definition checkDirectPath :: "files \<Rightarrow> string \<Rightarrow> (search_error, string) result" where
  "checkDirectPath fl name =
     (if \<not> take 1 name = ''/'' \<and> CHR ''/'' \<notin> set name then Ok []
      else if fl_stat fl name then Ok name
      else Err (DirectPathMissing name))"

definition buildSearchPaths :: "files \<Rightarrow> string \<Rightarrow> string \<Rightarrow> search_path list" where
  "buildSearchPaths fl runpath rpath =
     [\<lparr>sp_dirs = splitPaths runpath, sp_useCache = False\<rparr>,
      \<lparr>sp_dirs = splitPaths (fl_LD_LIBRARY_PATH fl), sp_useCache = False\<rparr>,
      \<lparr>sp_dirs = [], sp_useCache = True\<rparr>,
      \<lparr>sp_dirs = splitPaths rpath, sp_useCache = False\<rparr>,
      \<lparr>sp_dirs = defaultSearchPaths, sp_useCache = False\<rparr>]"

definition searchInCacheIfExists :: "files \<Rightarrow> string \<Rightarrow> (cache_state, search_error, string) st" where
  "searchInCacheIfExists fl name =
     bindS (lookupInCache (fl_read fl) name) (\<lambda>cachedPath.
       if cachedPath = [] then retS []
       else if fl_stat fl cachedPath then retS cachedPath
       else retS [])"

primrec searchInDirs :: "files \<Rightarrow> string \<Rightarrow> string list \<Rightarrow> string" where
  "searchInDirs fl name [] = []"
| "searchInDirs fl name (dir # dirs) =
     (let candidate = pathJoin dir name
      in if fl_stat fl candidate then candidate else searchInDirs fl name dirs)"

definition searchInSearchPath :: "files \<Rightarrow> string \<Rightarrow> search_path \<Rightarrow> (cache_state, search_error, string) st" where
  "searchInSearchPath fl name sp =
     (if sp_useCache sp then searchInCacheIfExists fl name else retS (searchInDirs fl name (sp_dirs sp)))"

primrec searchInPaths :: "files \<Rightarrow> string \<Rightarrow> search_path list \<Rightarrow> (cache_state, search_error, string) st" where
  "searchInPaths fl name [] = retS []"
| "searchInPaths fl name (sp # sps) =
     bindS (searchInSearchPath fl name sp) (\<lambda>path.
       if path \<noteq> [] then retS path else searchInPaths fl name sps)"

definition findLibrary :: "files \<Rightarrow> string \<Rightarrow> string \<Rightarrow> string \<Rightarrow> (cache_state, search_error, string) st" where
  "findLibrary fl name runpath rpath =
     bindS (liftS (checkDirectPath fl name)) (\<lambda>path.
       if path \<noteq> [] then retS path
       else bindS (searchInPaths fl name (buildSearchPaths fl runpath rpath)) (\<lambda>path.
              if path \<noteq> [] then retS path else failS (NotInSearchPaths name)))"

section \<open>The candidates in order\<close>

text \<open>The cache as the process sees it, loaded or still to be loaded.\<close>

definition cacheEntries :: "(string \<rightharpoonup> bytes) \<Rightarrow> ldCache" where
  "cacheEntries fs = (case parseCache fs defaultCachePath of Ok c \<Rightarrow> c | _ \<Rightarrow> Map.empty)"

definition cache_ok :: "(string \<rightharpoonup> bytes) \<Rightarrow> cache_state \<Rightarrow> bool" where
  "cache_ok fs cs \<longleftrightarrow>
     (if cacheLoaded cs then (case globalCache cs of None \<Rightarrow> cacheEntries fs = Map.empty | Some c \<Rightarrow> c = cacheEntries fs)
      else globalCache cs = None)"

definition candidates :: "files \<Rightarrow> string \<Rightarrow> string \<Rightarrow> string \<Rightarrow> string list" where
  "candidates fl name runpath rpath =
     map (\<lambda>dir. pathJoin dir name) (splitPaths runpath @ splitPaths (fl_LD_LIBRARY_PATH fl)) @
     (case cacheEntries (fl_read fl) name of None \<Rightarrow> [] | Some p \<Rightarrow> if p = [] then [] else [p]) @
     map (\<lambda>dir. pathJoin dir name) (splitPaths rpath @ defaultSearchPaths)"

lemma loadCache_ok:
  assumes "cache_ok fs cs"
  shows "cache_ok fs (loadCache fs cs)"
    and "(case globalCache (loadCache fs cs) of None \<Rightarrow> None | Some c \<Rightarrow> c n) = cacheEntries fs n"
proof -
  show "cache_ok fs (loadCache fs cs)"
    using assms by (auto simp: cache_ok_def loadCache_def cacheEntries_def split: result.splits option.splits)
  show "(case globalCache (loadCache fs cs) of None \<Rightarrow> None | Some c \<Rightarrow> c n) = cacheEntries fs n"
    using assms by (auto simp: cache_ok_def loadCache_def cacheEntries_def split: result.splits option.splits if_splits)
qed

text \<open>A joined path is never empty.\<close>

lemma Clean_nonempty: "Clean p \<noteq> []"
  by (simp add: Clean_def Let_def)

lemma pathJoin_empty [simp]: "pathJoin dir name = [] \<longleftrightarrow> dir = [] \<and> name = []"
  by (simp add: pathJoin_def Clean_nonempty)

lemma not_joined [simp]: "[] = pathJoin dir name \<longleftrightarrow> dir = [] \<and> name = []"
  by (metis pathJoin_empty)

lemma splitPaths_nonempty: "dir \<in> set (splitPaths p) \<Longrightarrow> dir \<noteq> []"
  by (auto simp: splitPaths_def split: if_splits)

lemma searchInDirs_find:
  "searchInDirs fl name dirs = (case find (fl_stat fl) (map (\<lambda>dir. pathJoin dir name) dirs) of None \<Rightarrow> [] | Some p \<Rightarrow> p)"
  by (induction dirs) (auto simp: Let_def)

lemma lookupInCache_run:
  assumes "cache_ok fs cs"
  shows "lookupInCache fs name cs = (Ok (case cacheEntries fs name of None \<Rightarrow> [] | Some p \<Rightarrow> p), loadCache fs cs)"
  unfolding loadCache_ok(2)[OF assms, symmetric]
  by (simp add: lookupInCache_def Let_def split: option.splits)

text \<open>The candidates one search path stands for, none of them empty.\<close>

definition cached :: "files \<Rightarrow> string \<Rightarrow> string list" where
  "cached fl name = (case cacheEntries (fl_read fl) name of None \<Rightarrow> [] | Some p \<Rightarrow> if p = [] then [] else [p])"

definition spCandidates :: "files \<Rightarrow> string \<Rightarrow> search_path \<Rightarrow> string list" where
  "spCandidates fl name sp = (if sp_useCache sp then cached fl name else map (\<lambda>dir. pathJoin dir name) (sp_dirs sp))"

abbreviation firstFound :: "files \<Rightarrow> string list \<Rightarrow> string" where
  "firstFound fl ps \<equiv> (case find (fl_stat fl) ps of None \<Rightarrow> [] | Some p \<Rightarrow> p)"

lemma firstFound_append:
  "[] \<notin> set ps \<Longrightarrow> firstFound fl (ps @ qs) = (if firstFound fl ps \<noteq> [] then firstFound fl ps else firstFound fl qs)"
  by (induction ps) auto

lemma searchInSearchPath_run:
  assumes "cache_ok (fl_read fl) cs"
  shows "\<exists>cs'. searchInSearchPath fl name sp cs = (Ok (firstFound fl (spCandidates fl name sp)), cs') \<and> cache_ok (fl_read fl) cs'"
  using loadCache_ok(1)[OF assms] assms
  by (auto simp: searchInSearchPath_def searchInCacheIfExists_def searchInDirs_find spCandidates_def cached_def st_defs
      lookupInCache_run[OF assms] split: option.splits)

lemma spCandidates_nonempty: "[] \<notin> set (sp_dirs sp) \<Longrightarrow> [] \<notin> set (spCandidates fl name sp)"
  by (auto simp: spCandidates_def cached_def split: option.splits)

lemma searchInPaths_run:
  assumes "cache_ok (fl_read fl) cs" and "\<forall>sp \<in> set sps. [] \<notin> set (sp_dirs sp)"
  shows "\<exists>cs'. searchInPaths fl name sps cs = (Ok (firstFound fl (concat (map (spCandidates fl name) sps))), cs') \<and>
    cache_ok (fl_read fl) cs'"
  using assms
proof (induction sps arbitrary: cs)
  case Nil
  then show ?case by (simp add: retS_def)
next
  case (Cons sp sps)
  have ne: "[] \<notin> set (spCandidates fl name sp)" using Cons.prems(2) spCandidates_nonempty by simp
  obtain cs1 where one: "searchInSearchPath fl name sp cs = (Ok (firstFound fl (spCandidates fl name sp)), cs1 :: cache_state)"
    and "cache_ok (fl_read fl) cs1"
    using searchInSearchPath_run[OF Cons.prems(1)] by metis
  with Cons.IH[of cs1] Cons.prems(2) obtain cs2 where
    "searchInPaths fl name sps cs1 = (Ok (firstFound fl (concat (map (spCandidates fl name) sps))), cs2)"
    and "cache_ok (fl_read fl) cs2" by auto
  with one \<open>cache_ok (fl_read fl) cs1\<close> show ?case
    by (auto simp: bindS_def retS_def firstFound_append[OF ne])
qed

lemma findLibrary_run:
  assumes "cache_ok (fl_read fl) cs"
  shows "fst (findLibrary fl name runpath rpath cs) =
      (if CHR ''/'' \<in> set name then (if fl_stat fl name then Ok name else Err (DirectPathMissing name))
       else case find (fl_stat fl) (candidates fl name runpath rpath) of
              Some path \<Rightarrow> Ok path
            | None \<Rightarrow> Err (NotInSearchPaths name)) \<and>
    cache_ok (fl_read fl) (snd (findLibrary fl name runpath rpath cs))"
proof -
  have ne: "[] \<notin> set (splitPaths p)" for p using splitPaths_nonempty by blast
  have df: "[] \<notin> set defaultSearchPaths" by (simp add: defaultSearchPaths_def)
  have c: "concat (map (spCandidates fl name) (buildSearchPaths fl runpath rpath)) = candidates fl name runpath rpath"
    by (simp add: buildSearchPaths_def spCandidates_def candidates_def cached_def)
  have "[] \<notin> set (candidates fl name runpath rpath)"
    using ne df by (auto simp: candidates_def dest: splitPaths_nonempty split: option.splits)
  then have nz: "find (fl_stat fl) (candidates fl name runpath rpath) \<noteq> Some []"
    by (metis find_Some_iff nth_mem)
  have "\<forall>sp \<in> set (buildSearchPaths fl runpath rpath). [] \<notin> set (sp_dirs sp)"
    using ne df by (simp add: buildSearchPaths_def)
  from searchInPaths_run[OF assms this, of name, unfolded c] obtain cs1 where
    s: "searchInPaths fl name (buildSearchPaths fl runpath rpath) cs = (Ok (firstFound fl (candidates fl name runpath rpath)), cs1)"
    and ok: "cache_ok (fl_read fl) cs1"
    by blast
  have t: "take 1 name = ''/'' \<Longrightarrow> CHR ''/'' \<in> set name" by (cases name) auto
  have "fst (findLibrary fl name runpath rpath cs) =
      (if CHR ''/'' \<in> set name then (if fl_stat fl name then Ok name else Err (DirectPathMissing name))
       else case find (fl_stat fl) (candidates fl name runpath rpath) of
              Some path \<Rightarrow> Ok path
            | None \<Rightarrow> Err (NotInSearchPaths name))"
    using t nz by (auto simp: findLibrary_def checkDirectPath_def st_defs s split: option.splits)
  moreover have "cache_ok (fl_read fl) (snd (findLibrary fl name runpath rpath cs))"
    using t assms ok by (auto simp: findLibrary_def checkDirectPath_def st_defs s split: option.splits)
  ultimately show ?thesis by simp
qed

text \<open>
  C26: A name with a slash is itself the path, and must exist. Any other name is found at the first existing
  candidate of the documented order: the directories of \<open>DT_RUNPATH\<close>, those of \<open>LD_LIBRARY_PATH\<close>, the entry
  of the linker cache, the directories of \<open>DT_RPATH\<close>, the system directories; if none exists the error says
  so. The order does not depend on whether the cache has been loaded before.
\<close>

theorem findLibrary_order:
  assumes "cache_ok (fl_read fl) cs"
  shows "fst (findLibrary fl name runpath rpath cs) =
      (if CHR ''/'' \<in> set name then (if fl_stat fl name then Ok name else Err (DirectPathMissing name))
       else case find (fl_stat fl) (candidates fl name runpath rpath) of
              Some path \<Rightarrow> Ok path
            | None \<Rightarrow> Err (NotInSearchPaths name)) \<and>
    cache_ok (fl_read fl) (snd (findLibrary fl name runpath rpath cs))"
  using findLibrary_run[OF assms] .

definition demoFiles :: files where
  "demoFiles = \<lparr>fl_read = Map.empty, fl_stat = (\<lambda>p. p \<in> {''/opt/lib/libz.so'', ''/usr/lib/libz.so''}),
     fl_LD_LIBRARY_PATH = ''/opt/../opt/lib:''\<rparr>"

theorem findLibrary_order_witness:
  "fst (findLibrary demoFiles ''libz.so'' [] ''/usr/lib'' initialCache) = Ok ''/opt/lib/libz.so'' \<and>
   cache_ok Map.empty (snd (findLibrary demoFiles ''libz.so'' [] ''/usr/lib'' initialCache))"
proof -
  have "cache_ok (fl_read demoFiles) initialCache" by (simp add: cache_ok_def initialCache_def)
  from findLibrary_order[OF this, of "''libz.so''" "[]" "''/usr/lib''"] show ?thesis
    by (simp add: candidates_def splitPaths_def demoFiles_def pathJoin_def Clean_def cleanStep_def Let_def)
qed

end
