(* ===== verification/Dl_Open.thy ===== *)
theory Dl_Open
  imports Loader_Life Dl_Search
begin

text \<open>
  \<open>dl/dl.go\<close>: opening and closing libraries. A \<open>*Library\<close> is an index into the list of the libraries created
  so far, because the tables share the pointers and \<open>RefCount\<close> is changed through all of them. This theory
  follows one goroutine: a wait for another one's loading slot never ends here. \<open>visiting\<close> is the map of the
  call stack; an entry is deleted when the call that made it returns, so it is passed down.
\<close>

unbundle bit_operations_syntax

type_synonym flag = i64

abbreviation (input) RTLD_LOCAL :: flag where "RTLD_LOCAL \<equiv> 0"
abbreviation (input) RTLD_GLOBAL :: flag where "RTLD_GLOBAL \<equiv> 1"
abbreviation (input) RTLD_NOW :: flag where "RTLD_NOW \<equiv> 2"

abbreviation (input) STB_WEAK :: i64 where "STB_WEAK \<equiv> 2"
abbreviation (input) STT_GNU_IFUNC :: i64 where "STT_GNU_IFUNC \<equiv> 10"

record library =
  lib_obj :: loaded_object
  lib_global :: bool

record dl =
  dl_world :: world
  dl_cache :: cache_state
  dl_libs :: "library list"
  dl_loaded :: "string \<rightharpoonup> nat"
  dl_loading :: "string \<Rightarrow> bool"
  dl_globals :: "nat list"

definition initialDl :: "world \<Rightarrow> dl" where
  "initialDl w = \<lparr>dl_world = w, dl_cache = initialCache, dl_libs = [], dl_loaded = Map.empty,
     dl_loading = (\<lambda>_. False), dl_globals = []\<rparr>"

datatype dl_error =
    SearchFailed search_error
  | DlParse elf_error
  | DlLoad loader_error
  | SymbolMissing string
  | ClosedTooOften
  | DlUnload loader_error

text \<open>What the process runs on: the kernel, native code, the relocation codes of the architecture, \<open>debug/elf\<close>, files.\<close>

record host =
  hs_os :: os
  hs_native :: native
  hs_codes :: reloc_codes
  hs_newFile :: "bytes \<Rightarrow> elf_file option"
  hs_files :: files
  hs_openFd :: "string \<rightharpoonup> i64"
  hs_newCallback :: "(unit, u64) result"

definition onWorld :: "(world, 'e, 'a) st \<Rightarrow> (dl, 'e, 'a) st" where
  "onWorld f = (\<lambda>d. case f (dl_world d) of (r, w) \<Rightarrow> (r, d\<lparr>dl_world := w\<rparr>))"

definition onCache :: "(cache_state, 'e, 'a) st \<Rightarrow> (dl, 'e, 'a) st" where
  "onCache f = (\<lambda>d. case f (dl_cache d) of (r, c) \<Rightarrow> (r, d\<lparr>dl_cache := c\<rparr>))"

definition modifyS :: "('s \<Rightarrow> 's) \<Rightarrow> ('s, 'e, unit) st" where
  "modifyS f = (\<lambda>s. (Ok (), f s))"

section \<open>Symbols of the global libraries\<close>

definition resolveSymbolAddr :: "native \<Rightarrow> symbol \<Rightarrow> (world, 'e, u64) st" where
  "resolveSymbolAddr nt s =
     (if sym_Type s = STT_GNU_IFUNC then CallIfuncResolver nt (sym_Value s) else retS (sym_Value s))"

text \<open>The loop of one pass over the libraries: the first that has the name with the binding asked for.\<close>

primrec findGlobal :: "(symbol \<Rightarrow> bool) \<Rightarrow> string \<Rightarrow> loaded_object list \<Rightarrow> (loaded_object \<times> symbol) option" where
  "findGlobal p name [] = None"
| "findGlobal p name (obj # objs) =
     (case Lookup (Symbols obj) name of
        Some s \<Rightarrow> if p s then Some (obj, s) else findGlobal p name objs
      | None \<Rightarrow> findGlobal p name objs)"

definition searchGlobalsForSymbol :: "native \<Rightarrow> loaded_object list \<Rightarrow> string \<Rightarrow> (world, unit, u64) st" where
  "searchGlobalsForSymbol nt objs name =
     (case findGlobal (\<lambda>s. sym_Bind s \<noteq> STB_WEAK) name objs of
        Some (obj, s) \<Rightarrow> resolveSymbolAddr nt s
      | None \<Rightarrow>
          (case findGlobal (\<lambda>s. sym_Bind s = STB_WEAK) name objs of
             Some (obj, s) \<Rightarrow> resolveSymbolAddr nt s
           | None \<Rightarrow> failS ()))"

definition searchGlobalsWithLibrary ::
    "native \<Rightarrow> loaded_object list \<Rightarrow> string \<Rightarrow> (world, unit, u64 \<times> loaded_object option) st" where
  "searchGlobalsWithLibrary nt objs name =
     (case findGlobal (\<lambda>s. sym_Bind s \<noteq> STB_WEAK) name objs of
        Some (obj, s) \<Rightarrow> bindS (resolveSymbolAddr nt s) (\<lambda>a. retS (a, Some obj))
      | None \<Rightarrow>
          (case findGlobal (\<lambda>s. sym_Bind s = STB_WEAK) name objs of
             Some (obj, s) \<Rightarrow> bindS (resolveSymbolAddr nt s) (\<lambda>a. retS (a, Some obj))
           | None \<Rightarrow> failS ()))"

text \<open>
  The two methods of \<open>globalResolver\<close> on the global libraries. The address of the \<open>__tls_get_addr\<close> callback is
  made once and kept; every call gives the address the first one got.
\<close>

definition Resolve :: "host \<Rightarrow> loaded_object list \<Rightarrow> string \<Rightarrow> (world, unit, u64) st" where
  "Resolve h objs name =
     (if name = ''__tls_get_addr'' then liftS (fst (RegisterTLSGetAddr (hs_newCallback h) 0))
      else searchGlobalsForSymbol (hs_native h) objs name)"

definition ResolveWithLibrary :: "host \<Rightarrow> loaded_object list \<Rightarrow> string \<Rightarrow> (world, unit, u64 \<times> loaded_object option) st" where
  "ResolveWithLibrary h objs name =
     (if name = ''__tls_get_addr''
      then bindS (liftS (fst (RegisterTLSGetAddr (hs_newCallback h) 0))) (\<lambda>a. retS (a, None))
      else searchGlobalsWithLibrary (hs_native h) objs name)"

definition globalObjects :: "dl \<Rightarrow> loaded_object list" where
  "globalObjects d = map (\<lambda>i. lib_obj (dl_libs d ! i)) (dl_globals d)"

definition globalResolver :: "host \<Rightarrow> dl \<Rightarrow> resolver" where
  "globalResolver h d =
     \<lparr>rs_Resolve = Resolve h (globalObjects d), rs_ResolveWithLibrary = ResolveWithLibrary h (globalObjects d)\<rparr>"

section \<open>The tables\<close>

definition updateLib :: "nat \<Rightarrow> (library \<Rightarrow> library) \<Rightarrow> dl \<Rightarrow> dl" where
  "updateLib i f d = d\<lparr>dl_libs := (dl_libs d)[i := f (dl_libs d ! i)]\<rparr>"

definition addRef :: "i64 \<Rightarrow> library \<Rightarrow> library" where
  "addRef n l = l\<lparr>lib_obj := (lib_obj l)\<lparr>RefCount := RefCount (lib_obj l) + n\<rparr>\<rparr>"

definition incrementRefIfLoaded :: "string \<Rightarrow> (dl, dl_error, nat option) st" where
  "incrementRefIfLoaded path = (\<lambda>d.
     case dl_loaded d path of
       Some i \<Rightarrow> (Ok (Some i), updateLib i (addRef 1) d)
     | None \<Rightarrow> (Ok None, d))"

definition checkLoadingCache :: "string \<Rightarrow> (dl, dl_error, nat option) st" where
  "checkLoadingCache path = (\<lambda>d.
     if dl_loading d path then (Hang, d)
     else case dl_loaded d path of
            Some i \<Rightarrow> (Ok (Some i), updateLib i (addRef 1) d)
          | None \<Rightarrow> (Ok None, d\<lparr>dl_loading := (dl_loading d)(path := True)\<rparr>))"

definition releaseLoadingSlot :: "string \<Rightarrow> (dl, 'e, unit) st" where
  "releaseLoadingSlot path = modifyS (\<lambda>d. d\<lparr>dl_loading := (dl_loading d)(path := False)\<rparr>)"

definition registerLibrary :: "string \<Rightarrow> string \<Rightarrow> loaded_object \<Rightarrow> flag \<Rightarrow> (dl, dl_error, nat) st" where
  "registerLibrary path soname obj flag = (\<lambda>d.
     let lib = length (dl_libs d); global = (flag = RTLD_GLOBAL);
         loaded = dl_loaded d;
         loaded = (if Soname obj \<noteq> [] \<and> Soname obj \<noteq> path then loaded(Soname obj \<mapsto> lib) else loaded);
         loaded = (if soname \<noteq> [] \<and> soname \<noteq> path \<and> soname \<noteq> Soname obj then loaded(soname \<mapsto> lib) else loaded);
         loaded = loaded(path \<mapsto> lib)
     in (Ok lib, d\<lparr>dl_loading := (dl_loading d)(path := False),
                  dl_libs := dl_libs d @ [\<lparr>lib_obj = obj, lib_global = global\<rparr>],
                  dl_loaded := loaded,
                  dl_globals := (if global then dl_globals d @ [lib] else dl_globals d)\<rparr>))"

section \<open>Opening\<close>

text \<open>
  \<open>loadDep\<close> is the call of \<open>loadPath\<close> for a dependency. What it returns is not used; a panic is not caught.
\<close>

definition loadDependencies ::
    "host \<Rightarrow> (string \<Rightarrow> string \<Rightarrow> (dl, dl_error, nat option) st) \<Rightarrow> parsed_object \<Rightarrow> (string \<Rightarrow> bool) \<Rightarrow> (dl, dl_error, unit) st" where
  "loadDependencies h loadDep parsed visiting =
     forS (\<lambda>dep _.
       if visiting dep then retS ()
       else bindS (attempt (onCache (findLibrary (hs_files h) dep (Runpath parsed) (Rpath parsed)))) (\<lambda>depPath.
              case depPath of
                None \<Rightarrow> retS ()
              | Some depPath \<Rightarrow> bindS (attempt (loadDep depPath dep)) (\<lambda>_. retS ())))
       (Needed parsed) ()"

text \<open>\<open>n\<close> bounds the depth of the recursion. A \<open>None\<close> is a nil library with a nil error.\<close>

primrec loadPath :: "nat \<Rightarrow> host \<Rightarrow> string \<Rightarrow> string \<Rightarrow> flag \<Rightarrow> (string \<Rightarrow> bool) \<Rightarrow> (dl, dl_error, nat option) st" where
  "loadPath 0 h path soname flag visiting = liftS Hang"
| "loadPath (Suc n) h path soname flag visiting =
     (if visiting path then incrementRefIfLoaded path
      else bindS (checkLoadingCache path) (\<lambda>lib.
        case lib of
          Some i \<Rightarrow> retS (Some i)
        | None \<Rightarrow>
            let visiting = visiting(path := True) in
            bindS (orElse (liftS (mapErr DlParse (Parse (hs_newFile h) (fl_read (hs_files h)) path)))
                     (releaseLoadingSlot path :: (dl, dl_error, unit) st)) (\<lambda>parsed.
            bindS (orElse (loadDependencies h (\<lambda>depPath dep. loadPath n h depPath dep RTLD_GLOBAL visiting) parsed visiting)
                     (releaseLoadingSlot path :: (dl, dl_error, unit) st)) (\<lambda>_.
            bindS (orElse (\<lambda>d. onWorld (mapErrS DlLoad (Load (hs_os h) (hs_native h) (hs_codes h) (hs_newFile h)
                             (fl_read (hs_files h)) (hs_openFd h) path (Some (globalResolver h d)))) d)
                     (releaseLoadingSlot path :: (dl, dl_error, unit) st)) (\<lambda>obj.
            bindS (registerLibrary path soname obj flag) (\<lambda>i. retS (Some i)))))))"

definition loadLib :: "nat \<Rightarrow> host \<Rightarrow> string \<Rightarrow> flag \<Rightarrow> (string \<Rightarrow> bool) \<Rightarrow> (dl, dl_error, nat option) st" where
  "loadLib n h name flag visiting = (\<lambda>d.
     case dl_loaded d name of
       Some i \<Rightarrow> (Ok (Some i), updateLib i (addRef 1) d)
     | None \<Rightarrow>
         bindS (mapErrS SearchFailed (onCache (findLibrary (hs_files h) name [] []))) (\<lambda>path.
           loadPath n h path name flag visiting) d)"

definition Open :: "nat \<Rightarrow> host \<Rightarrow> string \<Rightarrow> flag list \<Rightarrow> (dl, dl_error, nat option) st" where
  "Open n h name flags =
     (let flag = (case flags of [] \<Rightarrow> RTLD_LOCAL | f # _ \<Rightarrow> if f = RTLD_NOW then RTLD_LOCAL else f)
      in loadLib n h name flag (\<lambda>_. False))"

section \<open>Symbols and closing\<close>

definition Sym :: "host \<Rightarrow> nat \<Rightarrow> string \<Rightarrow> (dl, dl_error, u64) st" where
  "Sym h l name = (\<lambda>d.
     case Lookup (Symbols (lib_obj (dl_libs d ! l))) name of
       None \<Rightarrow> (Err (SymbolMissing name), d)
     | Some s \<Rightarrow>
         if sym_Type s = STT_GNU_IFUNC then onWorld (CallIfuncResolver (hs_native h) (sym_Value s)) d
         else (Ok (sym_Value s), d))"

text \<open>\<open>registerFunc\<close> is \<open>purego.RegisterFunc\<close> for the function pointer given to \<open>Bind\<close>.\<close>

definition Bind :: "host \<Rightarrow> (u64 \<Rightarrow> (dl, dl_error, unit) st) \<Rightarrow> nat \<Rightarrow> string \<Rightarrow> (dl, dl_error, unit) st" where
  "Bind h registerFunc l name = bindS (Sym h l name) registerFunc"

definition decrementRefCount :: "nat \<Rightarrow> (dl, dl_error, bool) st" where
  "decrementRefCount l = (\<lambda>d.
     if sint (RefCount (lib_obj (dl_libs d ! l))) \<le> 0 then (Err ClosedTooOften, d)
     else let d = updateLib l (addRef (- 1)) d
          in (Ok (RefCount (lib_obj (dl_libs d ! l)) = 0), d))"

definition removeFromLoadedMap :: "nat \<Rightarrow> dl \<Rightarrow> dl" where
  "removeFromLoadedMap l d = d\<lparr>dl_loaded := (\<lambda>k. if dl_loaded d k = Some l then None else dl_loaded d k)\<rparr>"

definition removeFromGlobals :: "nat \<Rightarrow> dl \<Rightarrow> dl" where
  "removeFromGlobals l d = d\<lparr>dl_globals := remove1 l (dl_globals d)\<rparr>"

definition Close :: "host \<Rightarrow> nat \<Rightarrow> (dl, dl_error, unit) st" where
  "Close h l =
     bindS (decrementRefCount l) (\<lambda>shouldCleanup.
       if \<not> shouldCleanup then retS ()
       else bindS (modifyS (removeFromLoadedMap l)) (\<lambda>_.
            bindS (modifyS (removeFromGlobals l)) (\<lambda>_ d.
              onWorld (mapErrS DlUnload (Unload (hs_os h) (hs_native h) (lib_obj (dl_libs d ! l)))) d)))"

end
