(* ===== verification/Dl_Symbols.thy ===== *)
theory Dl_Symbols
  imports Dl_Open "HOL-Library.List_Lexorder" "HOL-Library.Char_ord"
begin

text \<open>
  How a library's references bind to the global libraries: the contract of a symbol resolver that knows the
  provider of a name, what it means for relocations, and \<open>globalResolver\<close> as an instance. Also the listing
  that \<open>PrintSymbols\<close> writes.
\<close>

section \<open>Resolvers with a provider\<close>

locale symbol_provider =
  fixes resolve :: "string \<Rightarrow> (world, unit, u64) st"
    and resolveWith :: "string \<Rightarrow> (world, unit, u64 \<times> loaded_object option) st"
    and provider :: "string \<Rightarrow> (loaded_object \<times> symbol) option"
    and address :: "symbol \<Rightarrow> (world, unit, u64) st"
    and runtime :: "string \<Rightarrow> bool"
  assumes resolve_found: "\<not> runtime name \<Longrightarrow> provider name = Some (lib, s) \<Longrightarrow> resolve name = address s"
    and resolve_missing: "\<not> runtime name \<Longrightarrow> provider name = None \<Longrightarrow> resolve name = failS ()"
    and with_found: "\<not> runtime name \<Longrightarrow> provider name = Some (lib, s) \<Longrightarrow>
      resolveWith name = bindS (address s) (\<lambda>a. retS (a, Some lib))"
    and with_missing: "\<not> runtime name \<Longrightarrow> provider name = None \<Longrightarrow> resolveWith name = failS ()"
begin

abbreviation rs :: resolver where
  "rs \<equiv> \<lparr>rs_Resolve = resolve, rs_ResolveWithLibrary = resolveWith\<rparr>"

text \<open>A reference that the object does not define itself binds to the provider.\<close>

lemma reference_bound:
  assumes "symName (w_mem w) obj i = (Ok name :: (loader_error, string) result)" and "i \<noteq> 0" and "name \<noteq> []" and "Lookup (Symbols obj) name = None"
    and "\<not> runtime name" and "provider name = Some (lib, s)" and "address s w = (Ok a, w')"
  shows "resolveSymForReloc obj i (Some rs) w = (Ok a, w')"
    and "resolveTLSModuleAndOffset obj i (Some rs) w = (Ok (selectTLSModule obj (Some lib) a), w')"
  using assms(1-4,7) resolve_found[OF assms(5,6)] with_found[OF assms(5,6)]
  by (simp_all add: resolveSymForReloc_def resolveTLSModuleAndOffset_def readMem_run st_defs tryLocalSymbolLookup_def
      tryExternalResolve_def attempt_def)

lemma reference_unbound:
  assumes "symName (w_mem w) obj i = (Ok name :: (loader_error, string) result)" and "i \<noteq> 0" and "name \<noteq> []" and "Lookup (Symbols obj) name = None"
    and "\<not> runtime name" and "provider name = None"
    and "isWeakSymbol (w_mem w) obj i = (Ok weak :: (loader_error, bool) result)"
  shows "resolveSymForReloc obj i (Some rs) w = (if weak then Ok 0 else Err (UndefinedSymbol name), w)"
  using assms(1-4,7) resolve_missing[OF assms(5,6)]
  by (simp add: resolveSymForReloc_def readMem_run st_defs tryLocalSymbolLookup_def tryExternalResolve_def attempt_def)

end

section \<open>The global libraries as providers\<close>

definition definers :: "loaded_object list \<Rightarrow> string \<Rightarrow> (loaded_object \<times> symbol) list" where
  "definers objs name = concat (map (\<lambda>obj. case Lookup (Symbols obj) name of None \<Rightarrow> [] | Some s \<Rightarrow> [(obj, s)]) objs)"

definition strong :: "loaded_object \<times> symbol \<Rightarrow> bool" where
  "strong ds = (sym_Bind (snd ds) \<noteq> 2)"

text \<open>The first strong definition in load order, else the first one.\<close>

definition globalProvider :: "loaded_object list \<Rightarrow> string \<Rightarrow> (loaded_object \<times> symbol) option" where
  "globalProvider objs name =
     (case find strong (definers objs name) of
        Some d \<Rightarrow> Some d
      | None \<Rightarrow> (case definers objs name of [] \<Rightarrow> None | d # _ \<Rightarrow> Some d))"

lemma findGlobal_find: "findGlobal p name objs = find (\<lambda>(obj, s). p s) (definers objs name)"
  by (induction objs) (auto simp: definers_def split: option.splits)

lemma two_passes:
  "globalProvider objs name =
     (case findGlobal (\<lambda>s. sym_Bind s \<noteq> 2) name objs of
        Some d \<Rightarrow> Some d
      | None \<Rightarrow> findGlobal (\<lambda>s. sym_Bind s = 2) name objs)"
proof -
  have st: "(\<lambda>(obj, s). sym_Bind s \<noteq> 2) = strong" by (auto simp: strong_def fun_eq_iff)
  show ?thesis
  proof (cases "find strong (definers objs name)")
    case None
    then have "\<forall>d \<in> set (definers objs name). \<not> strong d" unfolding find_None_iff by blast
    then have "find (\<lambda>(obj, s). sym_Bind s = 2) (definers objs name) =
        (case definers objs name of [] \<Rightarrow> None | d # _ \<Rightarrow> Some d)"
      by (cases "definers objs name") (auto simp: strong_def)
    then show ?thesis using None st by (simp add: globalProvider_def findGlobal_find)
  qed (simp add: globalProvider_def findGlobal_find st)
qed

interpretation globals: symbol_provider "Resolve h objs" "ResolveWithLibrary h objs" "globalProvider objs"
    "resolveSymbolAddr (hs_native h)" "\<lambda>name. name = ''__tls_get_addr''" for h objs
  by unfold_locales
     (auto simp: Resolve_def ResolveWithLibrary_def searchGlobalsForSymbol_def searchGlobalsWithLibrary_def two_passes
       split: option.splits)

lemma globalResolver_rs:
  "globalResolver h d =
     \<lparr>rs_Resolve = Resolve h (globalObjects d), rs_ResolveWithLibrary = ResolveWithLibrary h (globalObjects d)\<rparr>"
  by (simp add: globalResolver_def)

lemma find_filter: "find P xs = (case filter P xs of [] \<Rightarrow> None | x # _ \<Rightarrow> Some x)"
  by (induction xs) auto

text \<open>
  C16: A reference of a library that it does not define itself binds to the global libraries: to the first
  strong definition in load order, to the first definition of all when every one is weak; without a
  definition a weak reference is 0 and any other an error naming the symbol. A TLS relocation takes the
  module of the same library. (Plain symbols; an IFUNC symbol has the address its resolver answers.)
\<close>

theorem reference_binding:
  assumes "symName (w_mem w) obj i = (Ok name :: (loader_error, string) result)" and "i \<noteq> 0" and "name \<noteq> []" and "name \<noteq> ''__tls_get_addr''"
    and "Lookup (Symbols obj) name = None"
    and "isWeakSymbol (w_mem w) obj i = (Ok weak :: (loader_error, bool) result)"
    and "\<forall>(lib, s) \<in> set (definers (globalObjects d) name). sym_Type s \<noteq> 10"
  shows "case filter strong (definers (globalObjects d) name) @ definers (globalObjects d) name of
      [] \<Rightarrow> resolveSymForReloc obj i (Some (globalResolver h d)) w = (if weak then Ok 0 else Err (UndefinedSymbol name), w)
    | (lib, s) # _ \<Rightarrow>
        resolveSymForReloc obj i (Some (globalResolver h d)) w = (Ok (sym_Value s), w) \<and>
        resolveTLSModuleAndOffset obj i (Some (globalResolver h d)) w = (Ok (selectTLSModule obj (Some lib) (sym_Value s)), w)"
proof -
  let ?ds = "definers (globalObjects d) name"
  have prov: "globalProvider (globalObjects d) name =
      (case filter strong ?ds @ ?ds of [] \<Rightarrow> None | p # _ \<Rightarrow> Some p)"
    by (auto simp: globalProvider_def find_filter split: list.splits)
  have addr: "resolveSymbolAddr (hs_native h) s w = (Ok (sym_Value s) :: (unit, u64) result, w)"
    if "filter strong ?ds @ ?ds = (lib, s) # rest" for lib s rest
  proof -
    have "(lib, s) \<in> set (filter strong ?ds @ ?ds)" using that by (metis list.set_intros(1))
    then show ?thesis using assms(7) by (auto simp: resolveSymbolAddr_def retS_def)
  qed
  note bound = globals.reference_bound[of w obj i name "globalObjects d" _ _ h, OF assms(1,2,3,5)]
  show ?thesis
  proof (cases "filter strong ?ds @ ?ds")
    case Nil
    then show ?thesis
      using globals.reference_unbound[of w obj i name "globalObjects d" weak h] assms(1-6) prov
      by (simp add: globalResolver_rs)
  next
    case (Cons p rest)
    obtain lib s where "p = (lib, s)" by fastforce
    with Cons show ?thesis using bound[OF assms(4) _ addr] prov by (simp add: globalResolver_rs)
  qed
qed

text \<open>Two global libraries: a weak definition of the name, then a strong one.\<close>

definition demoSym :: "i64 \<Rightarrow> u64 \<Rightarrow> symbol" where
  "demoSym bind value = \<lparr>sym_Name = ''f'', sym_Value = value, sym_Size = 0, sym_Bind = bind, sym_Type = 2,
     sym_Section = 1, sym_VerIdx = 0, sym_VerName = []\<rparr>"

definition demoDefiner :: "i64 \<Rightarrow> u64 \<Rightarrow> library" where
  "demoDefiner bind value =
     \<lparr>lib_obj = (newObject demoTwo 0x8000)\<lparr>Symbols := AddSymbol (NewTable 0x8000) ''f'' (demoSym bind value)\<rparr>, lib_global = True\<rparr>"

lemma demoDefiner_Lookup: "Lookup (Symbols (lib_obj (demoDefiner bind value))) ''f'' = Some (demoSym bind value)"
  by (simp add: demoDefiner_def Lookup_def AddSymbol_def)

definition demoHost :: host where
  "demoHost = \<lparr>hs_os = demoOs demoBytes, hs_native = demoNative, hs_codes = amd64Codes, hs_newFile = (\<lambda>_. Some demoElf),
     hs_files = \<lparr>fl_read = demoFs, fl_stat = (\<lambda>p. demoFs p \<noteq> None), fl_LD_LIBRARY_PATH = ''.''\<rparr>, hs_openFd = [''a.so'' \<mapsto> 3],
     hs_newCallback = Ok 0x7777\<rparr>"

definition demoDl :: dl where
  "demoDl = (initialDl (initialWorld demoSymMem))\<lparr>dl_libs := [demoDefiner 2 0x8010, demoDefiner 1 0x8020],
     dl_globals := [0, 1]\<rparr>"

theorem reference_binding_witness:
  "resolveSymForReloc demoUser 2 (Some (globalResolver demoHost demoDl)) (initialWorld demoSymMem) =
     (Ok 0x8020, initialWorld demoSymMem)"
proof -
  have i: "w_mem (initialWorld demoSymMem) = demoSymMem" by (simp add: initialWorld_def)
  note r = sym_reads[OF demoUser_symtab, of 2, simplified demoSyms_def, simplified]
  have l: "Lookup (Symbols demoUser) ''f'' = None"
    by (simp add: demoUser_def newObject_def NewTable_def Lookup_def)
  have ds: "definers (globalObjects demoDl) ''f'' =
      [(lib_obj (demoDefiner 2 0x8010), demoSym 2 0x8010), (lib_obj (demoDefiner 1 0x8020), demoSym 1 0x8020)]"
    by (simp add: definers_def globalObjects_def demoDl_def demoDefiner_Lookup)
  show ?thesis
    using reference_binding[of "initialWorld demoSymMem" demoUser 2 "''f''" _ demoDl demoHost, unfolded i ds, OF r(1) _ _ _ l r(2)]
    by (simp add: demoSym_def strong_def)
qed

section \<open>The listing of symbols\<close>

definition hexDigit :: "nat \<Rightarrow> char" where
  "hexDigit n = ''0123456789abcdef'' ! n"

definition hex16 :: "u64 \<Rightarrow> string" where
  "hex16 v = map (\<lambda>i. hexDigit (unat (drop_bit (4 * i) v AND 15))) (rev [0..<16])"

definition listingLine :: "string \<times> symbol \<Rightarrow> string" where
  "listingLine = (\<lambda>(name, s). ''0x'' @ hex16 (sym_Value s) @ ''  '' @ name @ [CHR 0x0A])"

text \<open>\<open>order\<close> is the order in which Go iterates over the map of symbols.\<close>

definition PrintSymbols :: "string list \<Rightarrow> loaded_object \<Rightarrow> string" where
  "PrintSymbols order obj =
     (let entries = ForEach order (Symbols obj) (\<lambda>name s es. es @ [(name, s)]) []
      in concat (map listingLine (sort_key fst entries)))"

lemma ForEach_entries:
  "set order \<subseteq> dom (t_symbols t) \<Longrightarrow>
     ForEach order t (\<lambda>name s es. es @ [(name, s)]) es = es @ map (\<lambda>k. (k, the (t_symbols t k))) order"
  by (induction order arbitrary: es) (auto simp: ForEach_def)

lemma sort_key_map_fst: "sort_key fst (map (\<lambda>k. (k, f k)) xs) = map (\<lambda>k. (k, f k)) (sort xs)"
proof -
  have ins: "insort_key fst (x, f x) (map (\<lambda>k. (k, f k)) ys) = map (\<lambda>k. (k, f k)) (insort x ys)" for x ys
    by (induction ys) auto
  show ?thesis by (induction xs) (simp_all add: ins)
qed

text \<open>
  The listing does not depend on the order in which the map of symbols is iterated: it has one line per
  exported symbol, sorted by name.
\<close>

theorem PrintSymbols_sorted:
  assumes "distinct order" and "set order = dom (t_symbols (Symbols obj))"
  shows "PrintSymbols order obj =
    concat (map (\<lambda>n. listingLine (n, the (Lookup (Symbols obj) n))) (sorted_list_of_set (dom (t_symbols (Symbols obj)))))"
proof -
  have "sort order = sorted_list_of_set (dom (t_symbols (Symbols obj)))"
    using assms by (metis distinct_remdups_id sorted_list_of_set_sort_remdups)
  then show ?thesis
    using assms(2) by (simp add: PrintSymbols_def ForEach_entries sort_key_map_fst Lookup_def comp_def)
qed

theorem PrintSymbols_sorted_witness:
  "PrintSymbols [''f''] (lib_obj (demoDefiner 1 0x8020)) = ''0x0000000000008020  f'' @ [CHR 0x0A]"
proof -
  have d: "dom (t_symbols (Symbols (lib_obj (demoDefiner 1 0x8020)))) = {''f''}"
    by (simp add: demoDefiner_def AddSymbol_def NewTable_def)
  have x: "hex16 0x8020 = ''0000000000008020''" by code_simp
  have "PrintSymbols [''f''] (lib_obj (demoDefiner 1 0x8020)) = listingLine (''f'', demoSym 1 0x8020)"
    using PrintSymbols_sorted[of "[''f'']" "lib_obj (demoDefiner 1 0x8020)", unfolded d] by (simp add: demoDefiner_Lookup)
  then show ?thesis by (simp add: listingLine_def demoSym_def x)
qed

end
