(* ===== verification/Dl_Life.thy ===== *)
theory Dl_Life
  imports Dl_Symbols
begin

text \<open>
  What opening and closing keep, and that opening returns. \<open>dl_invariant\<close> is the contract under which a
  property of the tables survives every call; \<open>outcome\<close> is a small total-correctness logic for calls, with a
  postcondition for a value and one for an error, and no obligation after a panic.
\<close>

section \<open>Keeping a property\<close>

lemma keeps_orElse [keeps_intros]: "keeps P m \<Longrightarrow> keeps P h \<Longrightarrow> keeps P (orElse m h)"
  unfolding keeps_def orElse_def by (fastforce split: prod.splits result.splits)

lemma keeps_modify: "(\<And>s. P s \<Longrightarrow> P (f s)) \<Longrightarrow> keeps P (modifyS f)"
  by (simp add: keeps_def modifyS_def)

lemma keeps_run: "(\<And>s. P s \<Longrightarrow> keeps P (f s)) \<Longrightarrow> keeps P (\<lambda>s. f s s)"
  by (simp add: keeps_def)

locale dl_invariant =
  fixes h :: host and P :: "dl \<Rightarrow> bool"
  assumes world: "P d \<Longrightarrow> P (d\<lparr>dl_world := w\<rparr>)"
    and search: "P d \<Longrightarrow> P (d\<lparr>dl_cache := snd (findLibrary (hs_files h) name runpath rpath (dl_cache d))\<rparr>)"
    and loading: "P d \<Longrightarrow> P (d\<lparr>dl_loading := l\<rparr>)"
    and ref: "P d \<Longrightarrow> P (updateLib i (addRef n) d)"
    and register: "P d \<Longrightarrow> P (snd (registerLibrary path soname obj flag d))"
begin

lemma keeps_onWorld: "keeps P (onWorld m)"
  using world by (auto simp: keeps_def onWorld_def split: prod.splits)

lemma keeps_search: "keeps P (onCache (findLibrary (hs_files h) name runpath rpath))"
  unfolding keeps_def
proof (intro allI impI)
  fix d
  assume "P d"
  from search[OF this, of name runpath rpath]
  show "P (snd (onCache (findLibrary (hs_files h) name runpath rpath) d))"
    by (cases "findLibrary (hs_files h) name runpath rpath (dl_cache d)") (simp add: onCache_def)
qed

lemma keeps_tables:
  "keeps P (releaseLoadingSlot path)" "keeps P (incrementRefIfLoaded path)" "keeps P (checkLoadingCache path)"
  "keeps P (registerLibrary path soname obj flag)"
  using loading ref register
  by (auto simp: keeps_def releaseLoadingSlot_def modifyS_def incrementRefIfLoaded_def checkLoadingCache_def
      split: option.splits)

lemma keeps_loadDependencies:
  "(\<And>p s. keeps P (loadDep p s)) \<Longrightarrow> keeps P (loadDependencies h loadDep parsed visiting)"
  unfolding loadDependencies_def
  by (intro keeps_intros keeps_search)

lemma keeps_loadPath: "keeps P (loadPath n h path soname flag visiting)"
proof (induction n arbitrary: path soname flag visiting)
  case 0
  then show ?case by (simp add: keeps_lift)
next
  case (Suc n)
  have load: "keeps P (\<lambda>d. onWorld (mapErrS DlLoad (Load a b c e f g path (Some (globalResolver h d)))) d)" for a b c e f g
    by (rule keeps_run) (rule keeps_onWorld)
  have dep: "keeps P (loadDependencies h (\<lambda>depPath dep. loadPath n h depPath dep flag visiting) parsed visiting)"
    for parsed flag visiting
    by (rule keeps_loadDependencies) (rule Suc.IH)
  show ?case
    unfolding loadPath.simps Let_def
    by (intro keeps_intros keeps_tables load dep)
qed

lemma keeps_Open: "keeps P (Open n h name flags)"
proof -
  have "keeps P (\<lambda>d. case dl_loaded d name of Some i \<Rightarrow> (Ok (Some i), updateLib i (addRef 1) d)
      | None \<Rightarrow> bindS (mapErrS SearchFailed (onCache (findLibrary (hs_files h) name [] []))) (\<lambda>path. loadPath n h path name flag visiting) d)"
    for flag visiting
    using ref keeps_bind[OF keeps_mapErr[OF keeps_search] keeps_loadPath, unfolded keeps_def]
    by (auto simp: keeps_def split: option.split)
  then show ?thesis by (simp add: Open_def loadLib_def Let_def)
qed

end

interpretation cache: dl_invariant h "\<lambda>d. cache_ok (fl_read (hs_files h)) (dl_cache d)" for h
proof
  show "cache_ok (fl_read (hs_files h))
      (dl_cache (d\<lparr>dl_cache := snd (findLibrary (hs_files h) name runpath rpath (dl_cache d))\<rparr>))"
    if "cache_ok (fl_read (hs_files h)) (dl_cache d)" for d name runpath rpath
    using findLibrary_run[OF that] by simp
qed (simp_all add: updateLib_def registerLibrary_def Let_def)

section \<open>Closing\<close>

lemma updateLib_fields [simp]:
  "dl_loaded (updateLib i f d) = dl_loaded d" "dl_globals (updateLib i f d) = dl_globals d"
  "dl_world (updateLib i f d) = dl_world d" "dl_cache (updateLib i f d) = dl_cache d"
  "dl_loading (updateLib i f d) = dl_loading d" "length (dl_libs (updateLib i f d)) = length (dl_libs d)"
  by (simp_all add: updateLib_def)

lemma updateLib_nth: "i < length (dl_libs d) \<Longrightarrow> j < length (dl_libs d) \<Longrightarrow>
   dl_libs (updateLib i f d) ! j = (if i = j then f (dl_libs d ! j) else dl_libs d ! j)"
  by (simp add: updateLib_def nth_list_update)

lemma addRef_fields [simp]: "RefCount (lib_obj (addRef n l)) = RefCount (lib_obj l) + n" "lib_global (addRef n l) = lib_global l"
  by (simp_all add: addRef_def)

lemma addRef_inverse: "l < length (dl_libs d) \<Longrightarrow> updateLib l (addRef (- n)) (updateLib l (addRef n) d) = d"
  by (simp add: updateLib_def addRef_def)

abbreviation refs :: "nat \<Rightarrow> dl \<Rightarrow> int" where
  "refs l d \<equiv> sint (RefCount (lib_obj (dl_libs d ! l)))"

lemma refs_one: "sint r = 1 \<Longrightarrow> r = (1 :: i64)"
proof -
  assume "sint r = 1"
  then have "sint r = sint (1 :: i64)" by simp
  then show ?thesis by (rule signed_word_eqI)
qed

text \<open>The object \<open>l\<close> as \<open>Close\<close> hands it to \<open>Unload\<close>, its count at 0.\<close>

definition lastObject :: "nat \<Rightarrow> dl \<Rightarrow> loaded_object" where
  "lastObject l d = (lib_obj (dl_libs d ! l))\<lparr>RefCount := 0\<rparr>"

lemma Close_run:
  assumes "l < length (dl_libs d)"
  shows "Close h l d =
    (if refs l d \<le> 0 then (Err ClosedTooOften, d)
     else if RefCount (lib_obj (dl_libs d ! l)) \<noteq> 1 then (Ok (), updateLib l (addRef (- 1)) d)
     else (case Unload (hs_os h) (hs_native h) (lastObject l d) (dl_world d) of (r, w) \<Rightarrow>
       (mapErr DlUnload r,
        (updateLib l (addRef (- 1)) d)
          \<lparr>dl_loaded := (\<lambda>k. if dl_loaded d k = Some l then None else dl_loaded d k),
           dl_globals := remove1 l (dl_globals d), dl_world := w\<rparr>)))"
proof -
  have o: "lib_obj (dl_libs (updateLib l (addRef (- 1)) d) ! l) = lastObject l d" if "RefCount (lib_obj (dl_libs d ! l)) = 1"
    using assms that by (simp add: updateLib_nth addRef_def lastObject_def)
  show ?thesis
    using assms o
    by (auto simp: Close_def decrementRefCount_def st_defs Let_def modifyS_def onWorld_def updateLib_nth
        removeFromLoadedMap_def removeFromGlobals_def cong: if_cong split: prod.splits)
qed


section \<open>The tables\<close>

text \<open>
  \<open>closed\<close> are the libraries whose last reference was given back. The entries of both tables are libraries
  that exist and are not closed, and no library is global twice.
\<close>

definition tables_ok :: "nat set \<Rightarrow> dl \<Rightarrow> bool" where
  "tables_ok closed d \<longleftrightarrow>
     closed \<subseteq> {..<length (dl_libs d)} \<and>
     (\<forall>k i. dl_loaded d k = Some i \<longrightarrow> i < length (dl_libs d) \<and> i \<notin> closed) \<and>
     (\<forall>i \<in> set (dl_globals d). i < length (dl_libs d) \<and> i \<notin> closed \<and> lib_global (dl_libs d ! i)) \<and>
     distinct (dl_globals d)"

lemma tables_register:
  assumes "tables_ok closed d"
  shows "tables_ok closed (snd (registerLibrary path soname obj flag d))"
proof -
  have g: "i < length (dl_libs d)" if "i \<in> set (dl_globals d)" for i using assms that by (simp add: tables_ok_def)
  have l: "i < length (dl_libs d)" "i \<notin> closed" if "dl_loaded d k = Some i" for k i
    using assms that by (auto simp: tables_ok_def)
  show ?thesis
    using assms by (auto simp: tables_ok_def registerLibrary_def Let_def nth_append less_Suc_eq dest: g l split: if_splits)
qed

lemma tables_updateLib:
  assumes "tables_ok closed d" and "\<And>l. lib_global (f l) = lib_global l"
  shows "tables_ok closed (updateLib i f d)"
proof -
  have "lib_global (dl_libs (updateLib i f d) ! j) = lib_global (dl_libs d ! j)" for j
    by (cases "i < length (dl_libs d)") (simp_all add: updateLib_def nth_list_update list_update_beyond assms(2))
  then show ?thesis using assms(1) by (simp add: tables_ok_def)
qed

interpretation tables: dl_invariant h "tables_ok closed" for h closed
  by unfold_locales (auto simp: tables_register intro: tables_updateLib, auto simp: tables_ok_def)

lemma loadPath_in_table:
  "loadPath n h path soname flag visiting d = (Ok (Some i), d') \<Longrightarrow> \<exists>k. dl_loaded d' k = Some i"
  by (cases n)
     (auto simp: incrementRefIfLoaded_def checkLoadingCache_def registerLibrary_def Let_def st_Ok liftS_def
       split: if_splits option.splits)

lemma Open_in_table: "Open n h name flags d = (Ok (Some i), d') \<Longrightarrow> \<exists>k. dl_loaded d' k = Some i"
  by (auto simp: Open_def loadLib_def Let_def st_Ok split: option.splits dest: loadPath_in_table)

text \<open>The states a program can bring about with the calls of the package, and the libraries it has closed.\<close>

inductive session :: "host \<Rightarrow> world \<Rightarrow> dl \<Rightarrow> nat set \<Rightarrow> bool" for h w where
  start: "session h w (initialDl w) {}"
| opened: "session h w d closed \<Longrightarrow> Open n h name flags d = (r, d') \<Longrightarrow> session h w d' closed"
| looked_up: "session h w d closed \<Longrightarrow> Sym h l name d = (r, d') \<Longrightarrow> session h w d' closed"
| closed: "session h w d closed \<Longrightarrow> l < length (dl_libs d) \<Longrightarrow> Close h l d = (r, d') \<Longrightarrow>
    session h w d' (if RefCount (lib_obj (dl_libs d ! l)) = 1 then insert l closed else closed)"
| native_ran: "session h w d closed \<Longrightarrow> session h w (d\<lparr>dl_world := w'\<rparr>) closed"

lemma tables_close:
  assumes "tables_ok closed d" and "l < length (dl_libs d)" and "Close h l d = (r, d')"
  shows "tables_ok (if RefCount (lib_obj (dl_libs d ! l)) = 1 then insert l closed else closed) d'"
proof -
  let ?d = "updateLib l (addRef (- 1)) d"
  have t: "tables_ok closed ?d" using assms(1) by (rule tables_updateLib) simp
  show ?thesis
    using assms(3) t unfolding Close_run[OF assms(2)]
    using assms(1) by (auto simp: tables_ok_def assms(2) split: if_splits prod.splits)
qed

lemma session_tables: "session h w d closed \<Longrightarrow> tables_ok closed d"
proof (induction rule: session.induct)
  case start
  then show ?case by (simp add: tables_ok_def initialDl_def)
next
  case (opened d closed n name flags r d')
  then show ?case using keepsD[OF tables.keeps_Open] by blast
next
  case (looked_up d closed l name r d')
  then show ?case
    by (auto simp: Sym_def onWorld_def tables.world split: option.splits if_splits prod.splits)
next
  case (closed d closed l r d')
  then show ?case by (intro tables_close)
next
  case (native_ran d closed w')
  then show ?case using tables.world by blast
qed

text \<open>
  C18: A library that was unloaded is never found again: after any sequence of calls, failed ones included, no
  name leads to it, it is not among the global libraries that references bind to, and \<open>Open\<close> does not return
  it. Every entry of the tables is a library that exists, and the global ones were opened as global, each
  listed once.
\<close>

theorem closed_never_found:
  assumes "session h w d closed"
  shows "(\<forall>k i. dl_loaded d k = Some i \<longrightarrow> i < length (dl_libs d) \<and> i \<notin> closed) \<and>
    (\<forall>i \<in> set (dl_globals d). i < length (dl_libs d) \<and> i \<notin> closed \<and> lib_global (dl_libs d ! i)) \<and>
    distinct (dl_globals d) \<and>
    (\<forall>n name flags i d'. Open n h name flags d = (Ok (Some i), d') \<longrightarrow> i \<notin> closed)"
proof -
  have t: "tables_ok closed d" using session_tables[OF assms] .
  have "i \<notin> closed" if "Open n h name flags d = (Ok (Some i), d')" for n name flags i d'
  proof -
    have "tables_ok closed d'" using session_tables[OF session.opened[OF assms that]] .
    with Open_in_table[OF that] show ?thesis by (auto simp: tables_ok_def)
  qed
  with t show ?thesis by (auto simp: tables_ok_def)
qed

section \<open>Outcomes of calls\<close>

text \<open>
  From a state with \<open>P\<close> a value \<open>x\<close> leaves a state with \<open>Q x\<close>, an error one with \<open>E\<close>; not returning is allowed
  only where \<open>hang\<close> says so. A panic ends the program.
\<close>

definition outcome :: "bool \<Rightarrow> ('s \<Rightarrow> bool) \<Rightarrow> ('s, 'e, 'a) st \<Rightarrow> ('a \<Rightarrow> 's \<Rightarrow> bool) \<Rightarrow> ('s \<Rightarrow> bool) \<Rightarrow> bool" where
  "outcome hang P m Q E \<longleftrightarrow>
     (\<forall>s. P s \<longrightarrow> (case m s of (r, t) \<Rightarrow> (case r of Ok x \<Rightarrow> Q x t | Err _ \<Rightarrow> E t | Panic _ \<Rightarrow> True | Hang \<Rightarrow> hang)))"

lemma outcomeD:
  assumes "outcome hang P m Q E" and "P s" and "m s = (r, t)"
  shows "r = Ok x \<Longrightarrow> Q x t" and "r = Err e \<Longrightarrow> E t" and "r = Hang \<Longrightarrow> hang"
  using assms by (auto simp: outcome_def split: prod.splits)

lemma outcome_ret: "(\<And>s. P s \<Longrightarrow> Q x s) \<Longrightarrow> outcome hang P (retS x) Q E"
  by (simp add: outcome_def retS_def)

lemma outcome_weaken:
  assumes "outcome hang P m Q E" and "\<And>x s. Q x s \<Longrightarrow> Q' x s" and "\<And>s. E s \<Longrightarrow> E' s" and "\<And>s. P' s \<Longrightarrow> P s"
  shows "outcome hang P' m Q' E'"
  unfolding outcome_def
proof (intro allI impI)
  fix s
  assume "P' s"
  then have s: "P s" using assms(4) by simp
  obtain r t where m: "m s = (r, t)" by fastforce
  show "case m s of (r, t) \<Rightarrow> (case r of Ok x \<Rightarrow> Q' x t | Err _ \<Rightarrow> E' t | Panic _ \<Rightarrow> True | Hang \<Rightarrow> hang)"
    using outcomeD[OF assms(1) s m] assms(2,3) by (cases r) (auto simp: m)
qed

lemma outcome_bind:
  assumes "outcome hang P m Q E" and "\<And>x. outcome hang (Q x) (f x) R E"
  shows "outcome hang P (bindS m f) R E"
  unfolding outcome_def
proof (intro allI impI)
  fix s
  assume s: "P s"
  obtain r t where m: "m s = (r, t)" by fastforce
  show "case bindS m f s of (r, t) \<Rightarrow> (case r of Ok x \<Rightarrow> R x t | Err _ \<Rightarrow> E t | Panic _ \<Rightarrow> True | Hang \<Rightarrow> hang)"
    using outcomeD[OF assms(1) s m] assms(2) by (cases r) (auto simp: bindS_def m outcome_def)
qed

lemma outcome_mapErr:
  assumes "outcome hang P m Q E"
  shows "outcome hang P (mapErrS g m) Q E"
  unfolding outcome_def
proof (intro allI impI)
  fix s
  assume s: "P s"
  obtain r t where m: "m s = (r, t)" by fastforce
  show "case mapErrS g m s of (r, t) \<Rightarrow> (case r of Ok x \<Rightarrow> Q x t | Err _ \<Rightarrow> E t | Panic _ \<Rightarrow> True | Hang \<Rightarrow> hang)"
    using outcomeD[OF assms s m] by (cases r) (auto simp: mapErrS_def m)
qed

lemma outcome_attempt:
  assumes "outcome hang P m (\<lambda>x. Q (Some x)) (Q None)"
  shows "outcome hang P (attempt m) Q E"
  unfolding outcome_def
proof (intro allI impI)
  fix s
  assume s: "P s"
  obtain r t where m: "m s = (r, t)" by fastforce
  show "case attempt m s of (r, t) \<Rightarrow> (case r of Ok x \<Rightarrow> Q x t | Err _ \<Rightarrow> E t | Panic _ \<Rightarrow> True | Hang \<Rightarrow> hang)"
    using outcomeD[OF assms s m] by (cases r) (auto simp: attempt_def m)
qed

lemma outcome_orElse:
  assumes "outcome hang P m Q E'" and "outcome hang E' c (\<lambda>_. E) E"
  shows "outcome hang P (orElse m c) Q E"
  unfolding outcome_def
proof (intro allI impI)
  fix s
  assume s: "P s"
  obtain r t where m: "m s = (r, t)" by fastforce
  obtain q u where c: "c t = (q, u)" by fastforce
  show "case orElse m c s of (r, t) \<Rightarrow> (case r of Ok x \<Rightarrow> Q x t | Err _ \<Rightarrow> E t | Panic _ \<Rightarrow> True | Hang \<Rightarrow> hang)"
    using outcomeD[OF assms(1) s m] outcomeD[OF assms(2) _ c]
    by (cases r; cases q) (auto simp: orElse_def m c)
qed

lemma outcome_for:
  "(\<And>a x. a \<in> set as \<Longrightarrow> outcome hang P (f a x) (\<lambda>_. P) P) \<Longrightarrow> outcome hang P (forS f as x) (\<lambda>_. P) P"
proof (induction as arbitrary: x)
  case Nil
  then show ?case by (simp add: outcome_ret)
next
  case (Cons a as)
  then show ?case by (auto intro!: outcome_bind[where Q = "\<lambda>_. P"])
qed

lemma outcome_pure: "(\<And>s. P s \<Longrightarrow> r \<noteq> Hang \<and> (\<forall>x. r = Ok x \<longrightarrow> Q x s) \<and> (\<forall>e. r = Err e \<longrightarrow> E s)) \<Longrightarrow> outcome hang P (liftS r) Q E"
  by (auto simp: outcome_def liftS_def split: result.splits)

section \<open>Opening returns\<close>

definition foundAt :: "host \<Rightarrow> string \<Rightarrow> string \<Rightarrow> string \<Rightarrow> string \<Rightarrow> bool" where
  "foundAt h name runpath rpath path \<longleftrightarrow> fst (findLibrary (hs_files h) name runpath rpath initialCache) = Ok path"

text \<open>Where dependencies are found, over all libraries the file system holds.\<close>

definition depPaths :: "host \<Rightarrow> string set" where
  "depPaths h = {path. \<exists>file parsed dep. Parse (hs_newFile h) (fl_read (hs_files h)) file = Ok parsed \<and>
     dep \<in> set (Needed parsed) \<and> foundAt h dep (Runpath parsed) (Rpath parsed) path}"

definition slots :: "host \<Rightarrow> (string \<Rightarrow> bool) \<Rightarrow> dl \<Rightarrow> bool" where
  "slots h l d \<longleftrightarrow> dl_loading d = l \<and> cache_ok (fl_read (hs_files h)) (dl_cache d)"

lemma initial_cache_ok: "cache_ok fs initialCache"
  by (simp add: cache_ok_def initialCache_def)

lemma findLibrary_stable:
  assumes "cache_ok (fl_read fl) cs"
  shows "fst (findLibrary fl name runpath rpath cs) = fst (findLibrary fl name runpath rpath initialCache)"
  using findLibrary_run[OF assms] findLibrary_run[OF initial_cache_ok] by simp

lemma outcome_search:
  "outcome hang (slots h l) (onCache (findLibrary (hs_files h) name runpath rpath))
     (\<lambda>path d. slots h l d \<and> foundAt h name runpath rpath path) (slots h l)"
  unfolding outcome_def
proof (intro allI impI)
  fix d
  assume d: "slots h l d"
  then have c: "cache_ok (fl_read (hs_files h)) (dl_cache d)" by (simp add: slots_def)
  obtain r cs where f: "findLibrary (hs_files h) name runpath rpath (dl_cache d) = (r, cs)" by fastforce
  have "r \<noteq> Hang" using findLibrary_run[OF c, of name runpath rpath] f by (auto split: if_splits option.splits)
  moreover have "cache_ok (fl_read (hs_files h)) cs" using findLibrary_run[OF c, of name runpath rpath] f by simp
  moreover have "r = Ok path \<Longrightarrow> foundAt h name runpath rpath path" for path
    using findLibrary_stable[OF c, of name runpath rpath] f by (simp add: foundAt_def)
  ultimately show "case onCache (findLibrary (hs_files h) name runpath rpath) d of (r, t) \<Rightarrow>
      (case r of Ok path \<Rightarrow> slots h l t \<and> foundAt h name runpath rpath path | Err _ \<Rightarrow> slots h l t | Panic _ \<Rightarrow> True | Hang \<Rightarrow> hang)"
    using d f by (auto simp: onCache_def slots_def split: result.splits)
qed

text \<open>What the recursion depends on: the paths of dependencies not on the call stack.\<close>

definition depthLeft :: "host \<Rightarrow> string \<Rightarrow> (string \<Rightarrow> bool) \<Rightarrow> nat" where
  "depthLeft h path visiting = card (depPaths h - Collect visiting) + (if path \<in> depPaths h then 0 else 1)"

definition loadReturns :: "host \<Rightarrow> bool" where
  "loadReturns h \<longleftrightarrow>
     (\<forall>path rs w. fst (Load (hs_os h) (hs_native h) (hs_codes h) (hs_newFile h) (fl_read (hs_files h)) (hs_openFd h) path rs w) \<noteq> Hang)"

lemma depthLeft_dep:
  assumes "finite (depPaths h)" and "\<not> visiting path" and "dep \<in> depPaths h"
  shows "depthLeft h dep (visiting(path := True)) < depthLeft h path visiting"
proof -
  have v: "Collect (visiting(path := True)) = insert path (Collect visiting)" by auto
  show ?thesis
  proof (cases "path \<in> depPaths h")
    case True
    then have "card (depPaths h - insert path (Collect visiting)) < card (depPaths h - Collect visiting)"
      using assms by (intro psubset_card_mono) auto
    then show ?thesis using assms(3) True by (simp add: depthLeft_def v)
  next
    case False
    then have "depPaths h - insert path (Collect visiting) = depPaths h - Collect visiting" by auto
    then show ?thesis using assms(3) False by (simp add: depthLeft_def v)
  qed
qed

lemma outcome_loadDependencies:
  assumes "Parse (hs_newFile h) (fl_read (hs_files h)) file = Ok parsed"
    and "\<And>p s. p \<in> depPaths h \<Longrightarrow> outcome hang (slots h l) (loadDep p s) (\<lambda>_. slots h l) (slots h l)"
  shows "outcome hang (slots h l) (loadDependencies h loadDep parsed visiting) (\<lambda>_. slots h l) (slots h l)"
  unfolding loadDependencies_def
proof (rule outcome_for)
  fix dep x
  assume dep: "dep \<in> set (Needed parsed)"
  let ?Q = "\<lambda>q d. slots h l d \<and> (\<forall>path. q = Some path \<longrightarrow> path \<in> depPaths h)"
  have s: "outcome hang (slots h l) (attempt (onCache (findLibrary (hs_files h) dep (Runpath parsed) (Rpath parsed)))) ?Q (slots h l)"
  proof (rule outcome_attempt)
    show "outcome hang (slots h l) (onCache (findLibrary (hs_files h) dep (Runpath parsed) (Rpath parsed)))
        (\<lambda>path. ?Q (Some path)) (?Q None)"
      by (rule outcome_weaken[OF outcome_search]) (use dep assms(1) in \<open>auto simp: depPaths_def\<close>)
  qed
  have t: "outcome hang (?Q q) (case q of None \<Rightarrow> retS () | Some p \<Rightarrow> bindS (attempt (loadDep p dep)) (\<lambda>_. retS ())) (\<lambda>_. slots h l) (slots h l)" for q
  proof (cases q)
    case (Some p)
    show ?thesis
    proof (cases "p \<in> depPaths h")
      case True
      from assms(2)[OF this, of dep] have "outcome hang (?Q q) (loadDep p dep) (\<lambda>_. slots h l) (slots h l)"
        by (simp add: outcome_def)
      then show ?thesis
        by (auto simp: Some intro!: outcome_bind[where Q = "\<lambda>_. slots h l"] outcome_attempt outcome_ret)
    qed (simp add: Some outcome_def)
  qed (simp add: outcome_ret)
  show "outcome hang (slots h l) (if visiting dep then retS () else
      bindS (attempt (onCache (findLibrary (hs_files h) dep (Runpath parsed) (Rpath parsed))))
        (\<lambda>q. case q of None \<Rightarrow> retS () | Some p \<Rightarrow> bindS (attempt (loadDep p dep)) (\<lambda>_. retS ()))) (\<lambda>_. slots h l) (slots h l)"
  proof (cases "visiting dep")
    case False
    then show ?thesis by (simp only: if_False) (rule outcome_bind[OF s t])
  qed (simp add: outcome_ret)
qed

lemma outcome_release:
  "l' = l(path := False) \<Longrightarrow> outcome hang (slots h l) (releaseLoadingSlot path) (\<lambda>_. slots h l') (slots h l')"
  by (simp add: outcome_def releaseLoadingSlot_def modifyS_def slots_def)

lemma outcome_Parse:
  "outcome hang P (liftS (mapErr DlParse (Parse newFile fs path))) (\<lambda>ps d. P d \<and> Parse newFile fs path = Ok ps) P"
  using only_make_Parse[of newFile fs path]
  by (cases "Parse newFile fs path") (auto simp: outcome_def liftS_def)

lemma outcome_Load:
  assumes "hang \<or> loadReturns h"
  shows "outcome hang (slots h l) (\<lambda>d. onWorld (mapErrS DlLoad (Load (hs_os h) (hs_native h) (hs_codes h) (hs_newFile h)
     (fl_read (hs_files h)) (hs_openFd h) path (Some (rs d)))) d) (\<lambda>_. slots h l) (slots h l)"
  unfolding outcome_def
proof (intro allI impI)
  fix d
  assume d: "slots h l d"
  obtain r w where "Load (hs_os h) (hs_native h) (hs_codes h) (hs_newFile h) (fl_read (hs_files h)) (hs_openFd h) path
      (Some (rs d)) (dl_world d) = (r, w)" by fastforce
  moreover from this have "r = Hang \<Longrightarrow> hang" using assms unfolding loadReturns_def by (metis fst_conv)
  ultimately show "case onWorld (mapErrS DlLoad (Load (hs_os h) (hs_native h) (hs_codes h) (hs_newFile h)
      (fl_read (hs_files h)) (hs_openFd h) path (Some (rs d)))) d of (r, t) \<Rightarrow>
      (case r of Ok _ \<Rightarrow> slots h l t | Err _ \<Rightarrow> slots h l t | Panic _ \<Rightarrow> True | Hang \<Rightarrow> hang)"
    using d by (cases r) (auto simp: onWorld_def mapErrS_def slots_def)
qed

lemma outcome_loadPath:
  assumes "hang \<or> (l = visiting \<and> finite (depPaths h) \<and> depthLeft h path visiting < n \<and> loadReturns h)"
  shows "outcome hang (slots h l) (loadPath n h path soname flag visiting) (\<lambda>_. slots h l) (slots h l)"
  using assms
proof (induction n arbitrary: path soname flag visiting l)
  case 0
  then show ?case by (auto simp: outcome_def liftS_def)
next
  case (Suc n)
  let ?l = "l(path := True)" let ?v = "visiting(path := True)"
  have inc: "outcome hang (slots h l) (incrementRefIfLoaded path) (\<lambda>_. slots h l) (slots h l)"
    by (auto simp: outcome_def incrementRefIfLoaded_def slots_def split: option.splits)
  show ?case
  proof (cases "visiting path")
    case False
    let ?C = "\<lambda>q d. (if q = None then \<not> l path \<and> slots h ?l d else slots h l d)"
    have check: "outcome hang (slots h l) (checkLoadingCache path) ?C (slots h l)"
      using Suc.prems False by (auto simp: outcome_def checkLoadingCache_def slots_def split: option.splits)
    have l: "\<not> l path \<Longrightarrow> l = ?l(path := False)" by (auto simp: fun_eq_iff)
    have rel: "outcome hang (slots h ?l) (releaseLoadingSlot path :: (dl, dl_error, unit) st) (\<lambda>_. slots h l) (slots h l)"
      if "\<not> l path" by (rule outcome_release) (rule l[OF that])
    have dep: "outcome hang (slots h ?l) (loadDependencies h (\<lambda>p s. loadPath n h p s RTLD_GLOBAL ?v) ps ?v)
        (\<lambda>_. slots h ?l) (slots h ?l)" if "Parse (hs_newFile h) (fl_read (hs_files h)) path = Ok ps" for ps
    proof (rule outcome_loadDependencies[OF that])
      fix p s
      assume "p \<in> depPaths h"
      show "outcome hang (slots h ?l) (loadPath n h p s RTLD_GLOBAL ?v) (\<lambda>_. slots h ?l) (slots h ?l)"
      proof (rule Suc.IH)
        show "hang \<or> (?l = ?v \<and> finite (depPaths h) \<and> depthLeft h p ?v < n \<and> loadReturns h)"
          using Suc.prems depthLeft_dep[of h visiting path p] False \<open>p \<in> depPaths h\<close> by fastforce
      qed
    qed
    have reg: "outcome hang (slots h ?l) (bindS (registerLibrary path soname obj flag) (\<lambda>i. retS (Some i))) (\<lambda>_. slots h l) (slots h l)"
      if "\<not> l path" for obj
      using l[OF that] by (auto simp: outcome_def registerLibrary_def Let_def st_defs slots_def)
    let ?body = "\<lambda>q. case q of
          Some i \<Rightarrow> retS (Some i)
        | None \<Rightarrow>
            bindS (orElse (liftS (mapErr DlParse (Parse (hs_newFile h) (fl_read (hs_files h)) path)))
                     (releaseLoadingSlot path :: (dl, dl_error, unit) st)) (\<lambda>parsed.
            bindS (orElse (loadDependencies h (\<lambda>depPath dep. loadPath n h depPath dep RTLD_GLOBAL ?v) parsed ?v)
                     (releaseLoadingSlot path :: (dl, dl_error, unit) st)) (\<lambda>_.
            bindS (orElse (\<lambda>d. onWorld (mapErrS DlLoad (Load (hs_os h) (hs_native h) (hs_codes h) (hs_newFile h)
                             (fl_read (hs_files h)) (hs_openFd h) path (Some (globalResolver h d)))) d)
                     (releaseLoadingSlot path :: (dl, dl_error, unit) st)) (\<lambda>obj.
            bindS (registerLibrary path soname obj flag) (\<lambda>i. retS (Some i)))))"
    have "outcome hang (?C q) (?body q) (\<lambda>_. slots h l) (slots h l)" for q
    proof (cases "q = None \<and> \<not> l path")
      case True
      then have free: "\<not> l path" and q: "q = None" by auto
      have load: "hang \<or> loadReturns h" using Suc.prems by auto
      have deps: "outcome hang (\<lambda>d. slots h ?l d \<and> Parse (hs_newFile h) (fl_read (hs_files h)) path = Ok ps)
          (loadDependencies h (\<lambda>p s. loadPath n h p s RTLD_GLOBAL ?v) ps ?v) (\<lambda>_. slots h ?l) (slots h ?l)" for ps
        using dep[of ps] by (auto simp: outcome_def)
      have "outcome hang (slots h ?l) (?body None) (\<lambda>_. slots h l) (slots h l)"
        unfolding option.case
        by (rule outcome_bind[OF outcome_orElse[OF outcome_Parse rel[OF free]]],
            rule outcome_bind[OF outcome_orElse[OF deps rel[OF free]]],
            rule outcome_bind[OF outcome_orElse[OF outcome_Load[OF load] rel[OF free]]], rule reg[OF free])
      then show ?thesis unfolding q by (rule outcome_weaken) (auto simp: free)
    qed (cases q; auto simp: outcome_ret outcome_def retS_def)
    from outcome_bind[OF check this] show ?thesis using False by (simp add: Let_def)
  qed (simp add: inc)
qed

lemma outcome_Open:
  assumes "hang \<or> (finite (depPaths h) \<and> card (depPaths h) + 2 \<le> n \<and> loadReturns h)"
  shows "outcome hang (slots h (\<lambda>_. False)) (Open n h name flags) (\<lambda>_. slots h (\<lambda>_. False)) (slots h (\<lambda>_. False))"
proof -
  have dl: "depthLeft h path (\<lambda>_. False) \<le> card (depPaths h) + 1" for path by (simp add: depthLeft_def)
  have lp: "outcome hang (slots h (\<lambda>_. False)) (loadPath n h path name flag (\<lambda>_. False)) (\<lambda>_. slots h (\<lambda>_. False)) (slots h (\<lambda>_. False))"
    for path flag
    using assms dl[of path] by (intro outcome_loadPath) auto
  have "outcome hang (slots h (\<lambda>_. False))
      (bindS (mapErrS SearchFailed (onCache (findLibrary (hs_files h) name [] []))) (\<lambda>path. loadPath n h path name flag (\<lambda>_. False)))
      (\<lambda>_. slots h (\<lambda>_. False)) (slots h (\<lambda>_. False))" for flag
    by (rule outcome_bind[OF outcome_mapErr[OF outcome_weaken[OF outcome_search]] lp]) simp_all
  then show ?thesis
    by (simp add: Open_def loadLib_def Let_def outcome_def slots_def split: option.split)
qed


section \<open>Opening again\<close>

lemma registerLibrary_loaded:
  "registerLibrary path soname obj flag d = (Ok l, d') \<Longrightarrow>
     dl_loaded d' k = (if k = path \<or> k \<noteq> [] \<and> (k = soname \<or> k = Soname obj) then Some l else dl_loaded d k)"
  by (auto simp: registerLibrary_def Let_def)

lemma loadPath_registers:
  assumes "loadPath n h path soname flag (\<lambda>_. False) d = (Ok (Some l), d')"
  shows "dl_loaded d' path = Some l \<and> (dl_loaded d' soname = Some l \<or> soname = [] \<or> dl_loaded d' soname = dl_loaded d soname) \<and> n \<noteq> 0"
proof (cases n)
  case (Suc m)
  show ?thesis
  proof (cases "dl_loaded d path")
    case (Some i)
    then show ?thesis
      using assms by (auto simp: Suc checkLoadingCache_def st_defs split: if_splits)
  next
    case None
    then obtain obj dx where "registerLibrary path soname obj flag dx = (Ok l, d')"
      using assms by (auto simp: Suc checkLoadingCache_def st_Ok Let_def split: if_splits)
    from registerLibrary_loaded[OF this] show ?thesis by (simp add: Suc)
  qed
qed (use assms in \<open>simp add: liftS_def\<close>)

lemma onCache_search_again:
  assumes "cache_ok (fl_read (hs_files h)) (dl_cache d)" and "foundAt h name [] [] path"
  shows "\<exists>c. onCache (findLibrary (hs_files h) name [] []) d = (Ok path, d\<lparr>dl_cache := c\<rparr>)"
  using findLibrary_stable[OF assms(1), of name "[]" "[]"] assms(2)
  by (auto simp: onCache_def foundAt_def split: prod.splits)

text \<open>
  C21: Opening a library a second time, under the name it was opened with, gives the same library: it gets one
  reference more, and nothing is loaded, listed or changed besides (the linker cache may get read), whatever
  the flags of the two calls. So a library that was opened as local stays invisible to later libraries even
  when it is opened again as global, and when another library depends on it.
\<close>

theorem Open_again:
  assumes "Open n h name flags d = (Ok (Some l), d1)" and "name \<noteq> []"
    and "dl_loading d = (\<lambda>_. False)" and "cache_ok (fl_read (hs_files h)) (dl_cache d)"
  shows "\<exists>c. Open n h name flags' d1 = (Ok (Some l), (updateLib l (addRef 1) d1)\<lparr>dl_cache := c\<rparr>)"
proof -
  have d: "slots h (\<lambda>_. False) d" using assms(3,4) by (simp add: slots_def)
  from outcomeD(1)[OF outcome_Open[of True] d assms(1)] have d1: "slots h (\<lambda>_. False) d1" by simp
  have known: ?thesis if "dl_loaded d1 name = Some l"
  proof -
    have "Open n h name flags' d1 = (Ok (Some l), (updateLib l (addRef 1) d1)\<lparr>dl_cache := dl_cache d1\<rparr>)"
      using that by (simp add: Open_def loadLib_def Let_def updateLib_def)
    then show ?thesis by blast
  qed
  show ?thesis
  proof (cases "dl_loaded d name")
    case (Some i)
    then have "dl_loaded d1 name = Some l" using assms(1) by (auto simp: Open_def loadLib_def Let_def)
    then show ?thesis by (rule known)
  next
    case None
    then obtain path d0 flag where f: "onCache (findLibrary (hs_files h) name [] []) d = (Ok path, d0)"
      and lp: "loadPath n h path name flag (\<lambda>_. False) d0 = (Ok (Some l), d1)"
      using assms(1) by (auto simp: Open_def loadLib_def Let_def st_Ok)
    have at: "foundAt h name [] [] path" using outcomeD(1)[OF outcome_search[of True] d f] by simp
    have "dl_loaded d0 name = None" using f None by (auto simp: onCache_def split: prod.splits)
    with loadPath_registers[OF lp] assms(2) consider "dl_loaded d1 name = Some l" |
      "dl_loaded d1 name = None" "dl_loaded d1 path = Some l" "n \<noteq> 0" by auto
    then show ?thesis
    proof cases
      case 2
      obtain m where m: "n = Suc m" using 2(3) by (cases n) auto
      obtain c where "onCache (findLibrary (hs_files h) name [] []) d1 = (Ok path, d1\<lparr>dl_cache := c\<rparr>)"
        using onCache_search_again[OF _ at, of d1] d1 by (auto simp: slots_def)
      then have "Open n h name flags' d1 = (Ok (Some l), (updateLib l (addRef 1) d1)\<lparr>dl_cache := c\<rparr>)"
        using d1 2 by (auto simp: Open_def loadLib_def Let_def m bindS_def mapErrS_def retS_def checkLoadingCache_def
            slots_def updateLib_def)
      then show ?thesis by blast
    qed (rule known)
  qed
qed

text \<open>
  Opening a loaded library and closing the handle again is no change at all, so references can be taken and
  given back in any nesting: as long as the count does not overflow, \<open>Close\<close> only undoes the \<open>Open\<close>.
\<close>

theorem Open_Close_inverse:
  assumes "dl_loaded d name = Some l" and "l < length (dl_libs d)" and "0 < refs l d" and "refs l d < 2 ^ 63 - 1"
  shows "\<exists>d1. Open n h name flags d = (Ok (Some l), d1) \<and> refs l d1 = refs l d + 1 \<and> Close h l d1 = (Ok (), d)"
proof -
  let ?d = "updateLib l (addRef 1) d"
  let ?r = "RefCount (lib_obj (dl_libs d ! l))"
  have op: "Open n h name flags d = (Ok (Some l), ?d)" using assms(1) by (simp add: Open_def loadLib_def Let_def)
  have "- (2 ^ 63) \<le> sint ?r + 1" using sint_greater_eq[of ?r] by simp
  then have r: "sint (?r + 1) = sint ?r + 1"
    using assms(4) by (simp add: sint_word_ariths signed_take_bit_int_eq_self)
  have "Close h l ?d = (Ok (), updateLib l (addRef (- 1)) ?d)"
    using r assms(2,3) by (auto simp: Close_run updateLib_nth)
  also have "updateLib l (addRef (- 1)) ?d = d" using addRef_inverse[OF assms(2), of 1] by simp
  finally show ?thesis using op r assms(2) by (simp add: updateLib_nth)
qed

section \<open>The calls on an example\<close>

abbreviation demoStart :: dl where
  "demoStart \<equiv> initialDl (initialWorld emptyMem)"

lemma demo_search: "\<exists>c. onCache (findLibrary (hs_files demoHost) ''a.so'' [] []) demoStart = (Ok ''a.so'', demoStart\<lparr>dl_cache := c\<rparr>)"
proof -
  have "candidates (hs_files demoHost) ''a.so'' [] [] = ''a.so'' # tl (candidates (hs_files demoHost) ''a.so'' [] [])"
    by (simp add: candidates_def splitPaths_def demoHost_def pathJoin_def Clean_def cleanStep_def Let_def)
  moreover have "fl_stat (hs_files demoHost) ''a.so''" by (simp add: demoHost_def demoFs_def)
  ultimately have "find (fl_stat (hs_files demoHost)) (candidates (hs_files demoHost) ''a.so'' [] []) = Some ''a.so''"
    by (metis find.simps(2))
  then have "foundAt demoHost ''a.so'' [] [] ''a.so''"
    using findLibrary_run[OF initial_cache_ok, of "hs_files demoHost" "''a.so''" "[]" "[]"] by (simp add: foundAt_def)
  then show ?thesis
    using onCache_search_again[of demoHost demoStart "''a.so''"] by (simp add: initialDl_def initial_cache_ok)
qed

lemma demo_Open:
  "\<exists>d. Open 1 demoHost ''a.so'' [1] demoStart = (Ok (Some 0), d) \<and> dl_globals d = [0] \<and> length (dl_libs d) = 1 \<and>
     refs 0 d = 1 \<and> dl_loaded d ''a.so'' = Some 0"
proof -
  obtain c where f: "onCache (findLibrary (hs_files demoHost) ''a.so'' [] []) demoStart = (Ok ''a.so'', demoStart\<lparr>dl_cache := c\<rparr>)"
    using demo_search by blast
  let ?d = "demoStart\<lparr>dl_cache := c, dl_loading := (\<lambda>_. False)(''a.so'' := True)\<rparr>"
  have h: "hs_os demoHost = demoOs demoBytes" "hs_native demoHost = demoNative" "hs_codes demoHost = amd64Codes"
    "hs_newFile demoHost = (\<lambda>_. Some demoElf)" "fl_read (hs_files demoHost) = demoFs" "hs_openFd demoHost = [''a.so'' \<mapsto> 3]"
    by (simp_all add: demoHost_def)
  obtain obj w where l: "Load (demoOs demoBytes) demoNative amd64Codes (\<lambda>_. Some demoElf) demoFs [''a.so'' \<mapsto> 3] ''a.so''
      (Some (globalResolver demoHost ?d)) (initialWorld emptyMem) = (Ok obj, w)" and o: "RefCount obj = 1" "Soname obj = []"
    using demo_Load by blast
  have n: "Needed demoParsed = []" by (simp add: demoParsed_def)
  have "Open 1 demoHost ''a.so'' [1] demoStart = bindS (registerLibrary ''a.so'' ''a.so'' obj 1) (\<lambda>i. retS (Some i)) (?d\<lparr>dl_world := w\<rparr>)"
    using f l by (simp add: Open_def loadLib_def Let_def h n st_defs orElse_def checkLoadingCache_def liftS_def demo_Parse
        loadDependencies_def onWorld_def initialDl_def)
  then show ?thesis using o by (simp add: registerLibrary_def Let_def initialDl_def bindS_def retS_def)
qed


theorem closed_never_found_witness:
  "\<exists>d. session demoHost (initialWorld emptyMem) d {0} \<and> (\<forall>k. dl_loaded d k \<noteq> Some 0) \<and> 0 \<notin> set (dl_globals d) \<and>
     (\<forall>n name flags d'. Open n demoHost name flags d \<noteq> (Ok (Some 0), d'))"
proof -
  obtain d where d: "Open 1 demoHost ''a.so'' [1] demoStart = (Ok (Some 0), d)" "length (dl_libs d) = 1" "refs 0 d = 1"
    using demo_Open by blast
  have one: "RefCount (lib_obj (dl_libs d ! 0)) = 1" using d(3) by (rule refs_one)
  have "session demoHost (initialWorld emptyMem) d {}" using session.opened[OF session.start d(1)] .
  moreover obtain r d' where "Close demoHost 0 d = (r, d')" by fastforce
  ultimately have "session demoHost (initialWorld emptyMem) d' {0}"
    using session.closed[of demoHost _ d "{}" 0 r d'] d(2) one by simp
  note sess = this
  note never = closed_never_found[OF sess]
  have "(\<forall>k. dl_loaded d' k \<noteq> Some 0) \<and> 0 \<notin> set (dl_globals d')" using never by auto
  moreover have "\<forall>n name flags d''. Open n demoHost name flags d' \<noteq> (Ok (Some 0), d'')"
    using never[THEN conjunct2, THEN conjunct2, THEN conjunct2] by fastforce
  ultimately show ?thesis using sess by blast
qed


theorem Open_again_witness:
  "\<exists>d c. Open 1 demoHost ''a.so'' [1] demoStart = (Ok (Some 0), d) \<and>
     Open 1 demoHost ''a.so'' [0] d = (Ok (Some 0), (updateLib 0 (addRef 1) d)\<lparr>dl_cache := c\<rparr>)"
proof -
  obtain d where d: "Open 1 demoHost ''a.so'' [1] demoStart = (Ok (Some 0), d)" using demo_Open by blast
  from Open_again[OF this, of "[0]"] show ?thesis using d by (simp add: initialDl_def initial_cache_ok)
qed

theorem Open_Close_inverse_witness:
  "\<exists>d d1. Open 1 demoHost ''a.so'' [1] demoStart = (Ok (Some 0), d) \<and>
     Open 1 demoHost ''a.so'' [] d = (Ok (Some 0), d1) \<and> refs 0 d1 = 2 \<and> Close demoHost 0 d1 = (Ok (), d)"
proof -
  obtain d where d: "Open 1 demoHost ''a.so'' [1] demoStart = (Ok (Some 0), d)" "length (dl_libs d) = 1" "refs 0 d = 1"
    "dl_loaded d ''a.so'' = Some 0"
    using demo_Open by blast
  from Open_Close_inverse[OF d(4), of 1 demoHost "[]"] show ?thesis using d by auto
qed

end
