(* ===== verification/Dl_Concurrent.thy ===== *)
theory Dl_Concurrent
  imports Dl_Life
begin

text \<open>
  Several goroutines opening and closing libraries at once. A goroutine is the stack of its activations of
  \<open>loadPath\<close> with the call it is about to make; a step is what it does between two points where others can
  run: one section under the mutex, or work of its own. The sections are the ones of \<open>Dl_Open\<close>; a goroutine
  in front of a taken loading slot has no step, it waits on the condition variable. \<open>deps\<close> gives for a file
  the dependencies that the search finds, as pairs of path and name (none for a file that does not parse).
\<close>

record activation =
  ac_path :: string
  ac_soname :: string
  ac_flag :: flag
  ac_deps :: "(string \<times> string) list"

record goroutine =
  g_call :: "(string \<times> string \<times> flag) option"
  g_stack :: "activation list"

type_synonym process = "dl \<times> goroutine list"

definition idle :: goroutine where
  "idle = \<lparr>g_call = None, g_stack = []\<rparr>"

definition onStack :: "activation list \<Rightarrow> string \<Rightarrow> bool" where
  "onStack st p \<longleftrightarrow> p \<in> ac_path ` set st"

text \<open>
  The steps of \<open>loadPath\<close> and of the loop of \<open>loadDependencies\<close>. Work outside the mutex (parsing, mapping,
  relocating, constructors) may change the world and gives any object, or fails.
\<close>

inductive go_step :: "(string \<Rightarrow> (string \<times> string) list) \<Rightarrow> dl \<times> goroutine \<Rightarrow> dl \<times> goroutine \<Rightarrow> bool" for deps where
  cycle: "onStack st p \<Longrightarrow> incrementRefIfLoaded p d = (Ok q, d') \<Longrightarrow>
    go_step deps (d, \<lparr>g_call = Some (p, s, f), g_stack = st\<rparr>) (d', \<lparr>g_call = None, g_stack = st\<rparr>)"
| cached: "\<not> onStack st p \<Longrightarrow> checkLoadingCache p d = (Ok (Some i), d') \<Longrightarrow>
    go_step deps (d, \<lparr>g_call = Some (p, s, f), g_stack = st\<rparr>) (d', \<lparr>g_call = None, g_stack = st\<rparr>)"
| claim: "\<not> onStack st p \<Longrightarrow> checkLoadingCache p d = (Ok None, d') \<Longrightarrow>
    go_step deps (d, \<lparr>g_call = Some (p, s, f), g_stack = st\<rparr>)
      (d', \<lparr>g_call = None, g_stack = \<lparr>ac_path = p, ac_soname = s, ac_flag = f, ac_deps = deps p\<rparr> # st\<rparr>)"
| skip: "ac_deps a = (dp, dn) # ds \<Longrightarrow> onStack (a # st) dn \<Longrightarrow>
    go_step deps (d, \<lparr>g_call = None, g_stack = a # st\<rparr>) (d, \<lparr>g_call = None, g_stack = a\<lparr>ac_deps := ds\<rparr> # st\<rparr>)"
| call: "ac_deps a = (dp, dn) # ds \<Longrightarrow> \<not> onStack (a # st) dn \<Longrightarrow>
    go_step deps (d, \<lparr>g_call = None, g_stack = a # st\<rparr>) (d, \<lparr>g_call = Some (dp, dn, 1), g_stack = a\<lparr>ac_deps := ds\<rparr> # st\<rparr>)"
| register: "ac_deps a = [] \<Longrightarrow> registerLibrary (ac_path a) (ac_soname a) obj (ac_flag a) (d\<lparr>dl_world := w\<rparr>) = (Ok i, d') \<Longrightarrow>
    go_step deps (d, \<lparr>g_call = None, g_stack = a # st\<rparr>) (d', \<lparr>g_call = None, g_stack = st\<rparr>)"
| fail: "ac_deps a = [] \<Longrightarrow> releaseLoadingSlot (ac_path a) (d\<lparr>dl_world := w\<rparr>) = (Ok () :: (dl_error, unit) result, d') \<Longrightarrow>
    go_step deps (d, \<lparr>g_call = None, g_stack = a # st\<rparr>) (d', \<lparr>g_call = None, g_stack = st\<rparr>)"

text \<open>
  A goroutine steps; an idle one calls \<open>Open\<close>, which finds the name in the table or, after the search, calls
  \<open>loadPath\<close>; or \<open>Close\<close> runs.
\<close>

inductive dl_step :: "host \<Rightarrow> (string \<Rightarrow> (string \<times> string) list) \<Rightarrow> process \<Rightarrow> process \<Rightarrow> bool" for h deps where
  goes: "go_step deps (d, g) (d', g') \<Longrightarrow> dl_step h deps (d, gs @ g # hs) (d', gs @ g' # hs)"
| known: "incrementRefIfLoaded name d = (r, d') \<Longrightarrow> dl_step h deps (d, gs @ idle # hs) (d', gs @ idle # hs)"
| opens: "dl_step h deps (d, gs @ idle # hs) (d, gs @ \<lparr>g_call = Some (p, s, f), g_stack = []\<rparr> # hs)"
| closes: "Close h l d = (r, d') \<Longrightarrow> dl_step h deps (d, gs) (d', gs)"

inductive running :: "host \<Rightarrow> (string \<Rightarrow> (string \<times> string) list) \<Rightarrow> process \<Rightarrow> bool" for h deps where
  start: "dl_loading d = (\<lambda>_. False) \<Longrightarrow> running h deps (d, replicate n idle)"
| step: "running h deps q \<Longrightarrow> dl_step h deps q q' \<Longrightarrow> running h deps q'"

section \<open>One loader per file\<close>

definition inProgress :: "goroutine \<Rightarrow> string list" where
  "inProgress g = map ac_path (g_stack g)"

definition slots_ok :: "process \<Rightarrow> bool" where
  "slots_ok q \<longleftrightarrow>
     distinct (concat (map inProgress (snd q))) \<and>
     (\<forall>p. dl_loading (fst q) p = (p \<in> set (concat (map inProgress (snd q)))))"

lemma loading_sections:
  "incrementRefIfLoaded p d = (r, d') \<Longrightarrow> dl_loading d' = dl_loading d"
  "checkLoadingCache p d = (Ok (Some i), d') \<Longrightarrow> dl_loading d' = dl_loading d"
  "checkLoadingCache p d = (Ok None, d') \<Longrightarrow> \<not> dl_loading d p \<and> dl_loading d' = (dl_loading d)(p := True)"
  "registerLibrary p s obj f d = (r', d') \<Longrightarrow> dl_loading d' = (dl_loading d)(p := False)"
  "releaseLoadingSlot p d = (r'', d') \<Longrightarrow> dl_loading d' = (dl_loading d)(p := False)"
  by (auto simp: incrementRefIfLoaded_def checkLoadingCache_def registerLibrary_def releaseLoadingSlot_def modifyS_def Let_def
      split: if_splits option.splits)

lemma Close_loading:
  assumes "Close h l d = (r, d')"
  shows "dl_loading d' = dl_loading d"
  using assms
  by (auto simp: Close_def decrementRefCount_def st_defs Let_def modifyS_def onWorld_def removeFromLoadedMap_def
      removeFromGlobals_def split: if_splits prod.splits)

text \<open>The same for one goroutine among the others, whose files are \<open>A\<close> and \<open>B\<close>.\<close>

definition slots_among :: "string list \<Rightarrow> string list \<Rightarrow> dl \<Rightarrow> string list \<Rightarrow> bool" where
  "slots_among A B d l \<longleftrightarrow>
     distinct A \<and> distinct B \<and> distinct l \<and> set A \<inter> set B = {} \<and> set A \<inter> set l = {} \<and> set B \<inter> set l = {} \<and>
     (\<forall>p. dl_loading d p = (p \<in> set A \<or> p \<in> set l \<or> p \<in> set B))"

lemma slots_ok_at:
  "slots_ok (d, gs @ g # hs) \<longleftrightarrow>
     slots_among (concat (map inProgress gs)) (concat (map inProgress hs)) d (inProgress g)"
  unfolding slots_ok_def slots_among_def fst_conv snd_conv map_append concat_append list.map concat.simps distinct_append
    set_append Un_iff by blast

lemma inProgress_simps [simp]:
  "inProgress \<lparr>g_call = c, g_stack = []\<rparr> = []"
  "inProgress \<lparr>g_call = c, g_stack = a # st\<rparr> = ac_path a # inProgress \<lparr>g_call = c, g_stack = st\<rparr>"
  "inProgress (g\<lparr>g_call := c\<rparr>) = inProgress g"
  by (simp_all add: inProgress_def)

lemma inProgress_call: "inProgress \<lparr>g_call = c, g_stack = st\<rparr> = map ac_path st"
  by (simp add: inProgress_def)

lemma slots_same: "dl_loading d' = dl_loading d \<Longrightarrow> slots_among A B d l \<Longrightarrow> slots_among A B d' l"
  by (simp add: slots_among_def)

lemma slots_push:
  "\<not> dl_loading d p \<Longrightarrow> dl_loading d' = (dl_loading d)(p := True) \<Longrightarrow> slots_among A B d l \<Longrightarrow> slots_among A B d' (p # l)"
  by (auto simp: slots_among_def)

lemma slots_pop:
  "dl_loading d' = (dl_loading d)(p := False) \<Longrightarrow> slots_among A B d (p # l) \<Longrightarrow> slots_among A B d' l"
  by (auto simp: slots_among_def)

lemma slots_goes:
  assumes "go_step deps (d, g) (d', g')" and "slots_among A B d (inProgress g)"
  shows "slots_among A B d' (inProgress g')"
  using assms
proof (induction "(d, g)" "(d', g')" arbitrary: d g d' g' rule: go_step.induct)
  case (cycle st p d q d' s f)
  then show ?case using slots_same[OF loading_sections(1)[OF cycle(2)]] by (simp add: inProgress_call)
next
  case (cached st p d i d' s f)
  then show ?case using slots_same[OF loading_sections(2)[OF cached(2)]] by (simp add: inProgress_call)
next
  case (claim st p d d' s f)
  then show ?case
    using slots_push[of d p d'] loading_sections(3)[OF claim(2)] by (simp add: inProgress_call)
next
  case (register a obj w d i d' st)
  then show ?case using slots_pop[of d' d "ac_path a"] loading_sections(4)[OF register(2)] by simp
next
  case (fail a w d d' st)
  then show ?case using slots_pop[of d' d "ac_path a"] loading_sections(5)[OF fail(2)] by simp
qed (simp_all add: inProgress_call)

lemma running_slots: "running h deps q \<Longrightarrow> slots_ok q"
proof (induction rule: running.induct)
  case (start d n)
  have "inProgress idle = []" by (simp add: inProgress_def idle_def)
  with start show ?case by (simp add: slots_ok_def)
next
  case (step q q')
  from step.hyps(2) step.IH show ?case
  proof (induction rule: dl_step.induct)
    case (goes d g d' g' gs hs)
    then show ?case unfolding slots_ok_at using slots_goes by blast
  next
    case (known name d r d' gs hs)
    then show ?case using loading_sections(1) by (simp add: slots_ok_def)
  next
    case (opens d gs hs p s f)
    then show ?case unfolding slots_ok_at by (simp add: idle_def)
  next
    case (closes l d r d' gs)
    then show ?case using Close_loading by (simp add: slots_ok_def)
  qed
qed

text \<open>
  C22: Whatever the goroutines do, a file is being loaded by at most one goroutine, at most once on its stack;
  and a loading slot is taken exactly while a goroutine is loading the file.
\<close>

theorem one_loader_per_file:
  assumes "running h deps (d, gs)"
  shows "distinct (concat (map inProgress gs)) \<and> (\<forall>p. dl_loading d p = (\<exists>g \<in> set gs. p \<in> set (inProgress g)))"
  using running_slots[OF assms] unfolding slots_ok_def fst_conv snd_conv by auto

section \<open>Progress\<close>

definition busy :: "goroutine \<Rightarrow> bool" where
  "busy g \<longleftrightarrow> g_call g \<noteq> None \<or> g_stack g \<noteq> []"

definition can_go :: "(string \<Rightarrow> (string \<times> string) list) \<Rightarrow> dl \<Rightarrow> goroutine \<Rightarrow> bool" where
  "can_go deps d g \<longleftrightarrow> (\<exists>d' g'. go_step deps (d, g) (d', g'))"

text \<open>The file a goroutine is about to load, and those it is loading, from the innermost on.\<close>

definition wanted :: "goroutine \<Rightarrow> string list" where
  "wanted g = (case g_call g of None \<Rightarrow> [] | Some (p, s, f) \<Rightarrow> [p]) @ inProgress g"

definition chain :: "(string \<Rightarrow> nat) \<Rightarrow> (string \<Rightarrow> (string \<times> string) list) \<Rightarrow> goroutine \<Rightarrow> bool" where
  "chain r deps g \<longleftrightarrow>
     sorted_wrt (\<lambda>p q. r p < r q) (wanted g) \<and>
     (\<forall>a \<in> set (g_stack g). set (ac_deps a) \<subseteq> set (deps (ac_path a)))"

lemma chain_goes:
  assumes "go_step deps (d, g) (d', g')" and "chain r deps g"
    and "\<And>p dp dn. (dp, dn) \<in> set (deps p) \<Longrightarrow> r dp < r p"
  shows "chain r deps g'"
  using assms
proof (induction "(d, g)" "(d', g')" arbitrary: d g d' g' rule: go_step.induct)
  case (call a dp dn ds st d)
  then have "r dp < r (ac_path a)" by (auto simp: chain_def)
  with call show ?case by (fastforce simp: chain_def wanted_def inProgress_def)
qed (auto simp: chain_def wanted_def inProgress_def)

lemma running_chains:
  assumes "running h deps q" and "\<And>p dp dn. (dp, dn) \<in> set (deps p) \<Longrightarrow> r dp < r p"
  shows "\<forall>g \<in> set (snd q). chain r deps g"
  using assms(1)
proof (induction rule: running.induct)
  case (start d n)
  then show ?case by (auto simp: chain_def wanted_def inProgress_def idle_def)
next
  case (step q q')
  from step.hyps(2) step.IH show ?case
  proof (induction rule: dl_step.induct)
    case (goes d g d' g' gs hs)
    then have "chain r deps g'" using chain_goes[OF goes(1)] assms(2) by simp
    with goes show ?case by auto
  next
    case (known name d q d' gs hs)
    then show ?case by simp
  next
    case (opens d gs hs p s f)
    then show ?case by (auto simp: chain_def wanted_def inProgress_def)
  qed simp
qed

lemma can_go_top: "can_go deps d \<lparr>g_call = None, g_stack = a # st\<rparr>"
proof (cases "ac_deps a")
  case Nil
  have "releaseLoadingSlot (ac_path a) (d\<lparr>dl_world := dl_world d\<rparr>) =
      (Ok () :: (dl_error, unit) result, d\<lparr>dl_loading := (dl_loading d)(ac_path a := False)\<rparr>)"
    by (simp add: releaseLoadingSlot_def modifyS_def)
  from go_step.fail[OF Nil this] show ?thesis unfolding can_go_def by blast
next
  case (Cons e ds)
  obtain dp dn where "e = (dp, dn)" by fastforce
  with Cons show ?thesis unfolding can_go_def by (cases "onStack (a # st) dn") (auto intro: go_step.intros)
qed

lemma can_go_call:
  assumes "onStack st p \<or> \<not> dl_loading d p"
  shows "can_go deps d \<lparr>g_call = Some (p, s, f), g_stack = st\<rparr>"
proof (cases "onStack st p")
  case True
  obtain q d' where "incrementRefIfLoaded p d = (Ok q, d')"
    by (cases "dl_loaded d p") (auto simp: incrementRefIfLoaded_def)
  from go_step.cycle[OF True this] show ?thesis unfolding can_go_def by blast
next
  case False
  show ?thesis
  proof (cases "dl_loaded d p")
    case None
    then have "\<exists>d'. checkLoadingCache p d = (Ok None, d')" using assms False by (simp add: checkLoadingCache_def)
    then show ?thesis unfolding can_go_def using go_step.claim[OF False] by blast
  next
    case (Some i)
    then have "\<exists>d'. checkLoadingCache p d = (Ok (Some i), d')" using assms False by (simp add: checkLoadingCache_def)
    then show ?thesis unfolding can_go_def using go_step.cached[OF False] by blast
  qed
qed

lemma waits_for:
  assumes "slots_ok (d, gs)" and "\<forall>g \<in> set gs. chain r deps g" and "g \<in> set gs" and "busy g"
  shows "\<exists>g' \<in> set gs. busy g' \<and> can_go deps d g'"
  using assms(3,4)
proof (induction "r (hd (wanted g))" arbitrary: g rule: less_induct)
  case less
  show ?case
  proof (cases "can_go deps d g")
    case False
    obtain c st where g: "g = \<lparr>g_call = c, g_stack = st\<rparr>" by (cases g) auto
    obtain p s f where c: "c = Some (p, s, f)"
    proof (cases c)
      case None
      with less.prems(2) g obtain a st' where "st = a # st'" by (cases st) (auto simp: busy_def)
      with None g False can_go_top show thesis by blast
    next
      case (Some e)
      with that show thesis by (cases e) auto
    qed
    have p: "dl_loading d p" using False can_go_call c g by blast
    then obtain g2 where g2: "g2 \<in> set gs" "p \<in> set (inProgress g2)"
      using assms(1) by (auto simp: slots_ok_def)
    then have b: "busy g2" by (auto simp: busy_def inProgress_def)
    show ?thesis
    proof (cases "g_call g2")
      case None
      obtain a st2 where "g2 = \<lparr>g_call = None, g_stack = a # st2\<rparr>"
        using None b by (cases g2; cases "g_stack g2") (auto simp: busy_def)
      with g2 b can_go_top show ?thesis by blast
    next
      case (Some e)
      then have "r (hd (wanted g2)) < r p" using assms(2) g2 by (auto simp: chain_def wanted_def split: prod.splits)
      then show ?thesis using less.hyps[of g2] g2 b by (simp add: wanted_def g c)
    qed
  qed (use less.prems in blast)
qed

text \<open>
  C23: Where the dependencies have no cycle, goroutines that load libraries never block each other for good: in
  every state they can reach, as long as one of them has a call to finish, one of them can take a step.
\<close>

theorem acyclic_loading_progresses:
  assumes "running h deps (d, gs)" and "\<And>p dp dn. (dp, dn) \<in> set (deps p) \<Longrightarrow> r dp < (r p :: nat)"
    and "g \<in> set gs" and "busy g"
  shows "\<exists>g' \<in> set gs. busy g' \<and> can_go deps d g'"
proof (rule waits_for[OF running_slots[OF assms(1)] _ assms(3,4)])
  show "\<forall>g \<in> set gs. chain r deps g" using running_chains[of h deps "(d, gs)" r] assms(1,2) by simp
qed

section \<open>Cyclic dependencies\<close>

definition waiting :: "string \<Rightarrow> string \<Rightarrow> string \<Rightarrow> goroutine" where
  "waiting p q qn = \<lparr>g_call = Some (q, qn, 1), g_stack = [\<lparr>ac_path = p, ac_soname = p, ac_flag = 0, ac_deps = []\<rparr>]\<rparr>"

inductive_cases go_callE: "go_step deps (d, \<lparr>g_call = Some (p, s, f), g_stack = st\<rparr>) z"

lemma waiting_stuck: "p \<noteq> q \<Longrightarrow> dl_loading d q \<Longrightarrow> \<not> can_go deps d (waiting p q qn)"
  unfolding can_go_def waiting_def
  by (auto elim: go_callE simp: onStack_def checkLoadingCache_def)

lemma both_stuck:
  assumes "(dl_step h deps)\<^sup>*\<^sup>* (d, [waiting p q qn, waiting q p pn]) z" and "p \<noteq> q" and "dl_loading d p" and "dl_loading d q"
  shows "snd z = [waiting p q qn, waiting q p pn] \<and> dl_loading (fst z) = dl_loading d"
  using assms(1)
proof (induction rule: rtranclp_induct)
  case base
  then show ?case by simp
next
  case (step y z)
  from step.hyps(2) step.IH show ?case
  proof (induction rule: dl_step.induct)
    case (goes e g e' g' gs hs)
    then have "g \<in> set [waiting p q qn, waiting q p pn]" by (metis in_set_conv_decomp snd_conv)
    then have "\<not> can_go deps e g" using waiting_stuck goes(2) assms(2,3,4) by auto
    with goes(1) show ?case by (auto simp: can_go_def)
  next
    case (known name e r e' gs hs)
    then show ?case using loading_sections(1) by simp
  next
    case (opens e gs hs p' s f)
    then have "idle \<in> set [waiting p q qn, waiting q p pn]" by (metis in_set_conv_decomp snd_conv)
    then show ?case by (auto simp: idle_def waiting_def)
  next
    case (closes l e r e' gs)
    then show ?case using Close_loading by simp
  qed
qed

text \<open>
  C24: Two libraries that need each other, opened by two goroutines at the same time, can stop both for ever: each
  has claimed the slot of its library and waits for the slot of the other; no goroutine can take a step, and
  nothing that can still happen changes that. (One goroutine alone gets past the cycle.)
\<close>

theorem cyclic_loading_deadlocks:
  fixes d :: dl
  assumes "p \<noteq> q" and "deps p = [(q, qn)]" and "deps q = [(p, pn)]" and "qn \<noteq> p" and "pn \<noteq> q"
    and "dl_loading d = (\<lambda>_. False)" and "dl_loaded d p = None" and "dl_loaded d q = None"
  shows "\<exists>d' gs. running h deps (d', gs) \<and> (\<forall>g \<in> set gs. busy g) \<and>
    (\<forall>d'' gs'. (dl_step h deps)\<^sup>*\<^sup>* (d', gs) (d'', gs') \<longrightarrow> gs' = gs \<and> (\<forall>g \<in> set gs. \<not> can_go deps d'' g))"
proof -
  let ?c = "\<lambda>p. \<lparr>g_call = Some (p, p, 0), g_stack = []\<rparr>"
  let ?a = "\<lambda>p ds. \<lparr>ac_path = p, ac_soname = p, ac_flag = 0, ac_deps = ds\<rparr>"
  let ?g = "\<lambda>p ds. \<lparr>g_call = None, g_stack = [?a p ds]\<rparr>"
  let ?l = "\<lambda>d p. d\<lparr>dl_loading := (dl_loading d)(p := True)\<rparr>"
  let ?d = "d\<lparr>dl_loading := (dl_loading d)(p := True, q := True)\<rparr>"
  have "running h deps (d, [idle, idle])"
    using running.start[OF assms(6), of h deps 2] by (simp add: numeral_2_eq_2)
  from running.step[OF this dl_step.opens[of h deps d "[]" "[idle]" p p 0, simplified]]
  have "running h deps (d, [?c p, idle])" .
  from running.step[OF this dl_step.opens[of h deps d "[?c p]" "[]" q q 0, simplified]]
  have r0: "running h deps (d, [?c p, ?c q])" .
  have "go_step deps (d, ?c p) (?l d p, ?g p [(q, qn)])"
    using go_step.claim[of "[]" p d "?l d p" deps p 0] assms by (simp add: onStack_def checkLoadingCache_def)
  from running.step[OF r0 dl_step.goes[OF this, of h "[]" "[?c q]", simplified]]
  have r1: "running h deps (?l d p, [?g p [(q, qn)], ?c q])" .
  have "go_step deps (?l d p, ?c q) (?d, ?g q [(p, pn)])"
    using go_step.claim[of "[]" q "?l d p" ?d deps q 0] assms by (simp add: onStack_def checkLoadingCache_def)
  from running.step[OF r1 dl_step.goes[OF this, of h "[?g p [(q, qn)]]" "[]", simplified]]
  have r2: "running h deps (?d, [?g p [(q, qn)], ?g q [(p, pn)]])" .
  have "go_step deps (?d, ?g p [(q, qn)]) (?d, waiting p q qn)"
    using go_step.call[of "?a p [(q, qn)]" q qn "[]" "[]" deps ?d] assms by (simp add: onStack_def waiting_def)
  from running.step[OF r2 dl_step.goes[OF this, of h "[]" "[?g q [(p, pn)]]", simplified]]
  have r3: "running h deps (?d, [waiting p q qn, ?g q [(p, pn)]])" .
  have "go_step deps (?d, ?g q [(p, pn)]) (?d, waiting q p pn)"
    using go_step.call[of "?a q [(p, pn)]" p pn "[]" "[]" deps ?d] assms by (simp add: onStack_def waiting_def)
  from running.step[OF r3 dl_step.goes[OF this, of h "[waiting p q qn]" "[]", simplified]]
  have r4: "running h deps (?d, [waiting p q qn, waiting q p pn])" .
  have "gs' = [waiting p q qn, waiting q p pn] \<and> (\<forall>g \<in> set [waiting p q qn, waiting q p pn]. \<not> can_go deps d'' g)"
    if "(dl_step h deps)\<^sup>*\<^sup>* (?d, [waiting p q qn, waiting q p pn]) (d'', gs')" for d'' gs'
    using both_stuck[OF that assms(1)] waiting_stuck[of p q d''] waiting_stuck[of q p d''] assms(1) by simp
  moreover have "\<forall>g \<in> set [waiting p q qn, waiting q p pn]. busy g" by (simp add: busy_def waiting_def)
  ultimately show ?thesis using r4 by blast
qed

section \<open>The steps on examples\<close>

theorem one_loader_per_file_witness:
  "\<exists>d. running demoHost (\<lambda>_. []) (d, [\<lparr>g_call = None, g_stack = [\<lparr>ac_path = ''a'', ac_soname = ''a'', ac_flag = 0, ac_deps = []\<rparr>]\<rparr>, idle]) \<and>
     dl_loading d ''a'' \<and> \<not> dl_loading d ''b''"
proof -
  let ?g = "\<lparr>g_call = None, g_stack = [\<lparr>ac_path = ''a'', ac_soname = ''a'', ac_flag = 0, ac_deps = []\<rparr>]\<rparr>"
  let ?d = "demoStart\<lparr>dl_loading := (dl_loading demoStart)(''a'' := True)\<rparr>"
  have f: "dl_loading demoStart = (\<lambda>_. False)" "dl_loaded demoStart = Map.empty" by (simp_all add: initialDl_def)
  have "running demoHost (\<lambda>_. []) (demoStart, [idle, idle])"
    using running.start[OF f(1), of demoHost "\<lambda>_. []" 2] by (simp add: numeral_2_eq_2)
  from running.step[OF this dl_step.opens[of demoHost "\<lambda>_. []" demoStart "[]" "[idle]" "''a''" "''a''" 0, simplified]]
  have r: "running demoHost (\<lambda>_. []) (demoStart, [\<lparr>g_call = Some (''a'', ''a'', 0), g_stack = []\<rparr>, idle])" .
  have "go_step (\<lambda>_. []) (demoStart, \<lparr>g_call = Some (''a'', ''a'', 0), g_stack = []\<rparr>) (?d, ?g)"
    using go_step.claim[of "[]" "''a''" demoStart ?d "\<lambda>_. []" "''a''" 0] f by (simp add: onStack_def checkLoadingCache_def)
  from running.step[OF r dl_step.goes[OF this, of demoHost "[]" "[idle]", simplified]]
  have run: "running demoHost (\<lambda>_. []) (?d, [?g, idle])" .
  from one_loader_per_file[OF run] have "dl_loading ?d ''a'' \<and> \<not> dl_loading ?d ''b''"
    by (simp add: inProgress_def idle_def f)
  with run show ?thesis by blast
qed

theorem acyclic_loading_progresses_witness:
  "\<exists>g' \<in> {\<lparr>g_call = Some (''b'', ''b'', 0), g_stack = []\<rparr>, idle}.
     can_go (\<lambda>p. if p = ''b'' then [(''a'', ''a'')] else []) demoStart g'"
proof -
  let ?deps = "\<lambda>p. if p = ''b'' then [(''a'', ''a'')] else []"
  let ?g = "\<lparr>g_call = Some (''b'', ''b'', 0 :: flag), g_stack = [] :: activation list\<rparr>"
  have f: "dl_loading demoStart = (\<lambda>_. False)" by (simp add: initialDl_def)
  have "running demoHost ?deps (demoStart, [idle, idle])"
    using running.start[OF f, of demoHost ?deps 2] by (simp add: numeral_2_eq_2)
  from running.step[OF this dl_step.opens[of demoHost ?deps demoStart "[]" "[idle]" "''b''" "''b''" 0, simplified append_Nil]]
  have run: "running demoHost ?deps (demoStart, [?g, idle])" .
  have rank: "(if dp = ''b'' then 1 else 0 :: nat) < (if p = ''b'' then 1 else 0)" if "(dp, dn) \<in> set (?deps p)" for p dp dn
    using that by (auto split: if_splits)
  have "busy ?g" by (simp add: busy_def)
  from acyclic_loading_progresses[OF run rank, where g = ?g] this show ?thesis by auto
qed

theorem cyclic_loading_deadlocks_witness:
  "\<exists>d' gs. running demoHost (\<lambda>p. if p = ''/l/a'' then [(''/l/b'', ''b'')] else [(''/l/a'', ''a'')]) (d', gs) \<and>
     (\<forall>g \<in> set gs. busy g \<and> \<not> can_go (\<lambda>p. if p = ''/l/a'' then [(''/l/b'', ''b'')] else [(''/l/a'', ''a'')]) d' g)"
proof -
  let ?deps = "\<lambda>p. if p = ''/l/a'' then [(''/l/b'', ''b'')] else [(''/l/a'', ''a'')]"
  obtain d' gs where "running demoHost ?deps (d', gs)" "\<forall>g \<in> set gs. busy g"
    "\<forall>d'' gs'. (dl_step demoHost ?deps)\<^sup>*\<^sup>* (d', gs) (d'', gs') \<longrightarrow> gs' = gs \<and> (\<forall>g \<in> set gs. \<not> can_go ?deps d'' g)"
    using cyclic_loading_deadlocks[of "''/l/a''" "''/l/b''" ?deps "''b''" "''a''" demoStart demoHost]
    by (auto simp: initialDl_def)
  then show ?thesis by blast
qed

end
