(* ===== verification/Dl_Refine.thy ===== *)
theory Dl_Refine
  imports Dl_Concurrent
begin

text \<open>
  The two models of the package agree: what the sequential \<open>Open\<close> of \<open>Dl_Open\<close> does when it returns is a run
  of the steps of \<open>Dl_Concurrent\<close>, by one goroutine while the others stand still. The linker cache is not part
  of those steps; it is held at any value on their side. Then the order in which \<open>loadPath\<close> loads: the
  dependencies first.
\<close>

section \<open>The dependencies of a file\<close>

primrec foundDeps :: "host \<Rightarrow> parsed_object \<Rightarrow> string list \<Rightarrow> (string \<times> string) list" where
  "foundDeps h parsed [] = []"
| "foundDeps h parsed (dep # deps) =
     (case fst (findLibrary (hs_files h) dep (Runpath parsed) (Rpath parsed) initialCache) of
        Ok path \<Rightarrow> (path, dep) # foundDeps h parsed deps
      | _ \<Rightarrow> foundDeps h parsed deps)"

text \<open>What \<open>loadPath\<close> finds for a file: the parameter \<open>deps\<close> of the steps.\<close>

definition fileDeps :: "host \<Rightarrow> string \<Rightarrow> (string \<times> string) list" where
  "fileDeps h path =
     (case Parse (hs_newFile h) (fl_read (hs_files h)) path of
        Ok parsed \<Rightarrow> foundDeps h parsed (Needed parsed)
      | _ \<Rightarrow> [])"

section \<open>The calls as steps\<close>

abbreviation (input) caching :: "cache_state \<Rightarrow> dl \<Rightarrow> dl" where
  "caching c d \<equiv> d\<lparr>dl_cache := c\<rparr>"

lemma sections_caching:
  "incrementRefIfLoaded p d = (r, d') \<Longrightarrow> incrementRefIfLoaded p (caching c d) = (r, caching c d')"
  "checkLoadingCache p d = (r, d') \<Longrightarrow> checkLoadingCache p (caching c d) = (r, caching c d')"
  "registerLibrary p s obj f d = (r'', d') \<Longrightarrow> registerLibrary p s obj f (caching c d) = (r'', caching c d')"
  "releaseLoadingSlot p d = (r', d') \<Longrightarrow> releaseLoadingSlot p (caching c d) = (r', caching c d')"
  by (auto simp: incrementRefIfLoaded_def checkLoadingCache_def registerLibrary_def releaseLoadingSlot_def modifyS_def Let_def
      updateLib_def split: if_splits option.splits)

abbreviation (input) good_cache :: "host \<Rightarrow> dl \<Rightarrow> bool" where
  "good_cache h d \<equiv> cache_ok (fl_read (hs_files h)) (dl_cache d)"

text \<open>A call that, when it returns, is a run of the goroutine from \<open>g\<close> to \<open>g'\<close>.\<close>

definition runs_as :: "host \<Rightarrow> goroutine \<Rightarrow> (dl, dl_error, 'a) st \<Rightarrow> goroutine \<Rightarrow> bool" where
  "runs_as h g m g' \<longleftrightarrow>
     (\<forall>d r d' c. good_cache h d \<longrightarrow> m d = (r, d') \<longrightarrow> returns r \<longrightarrow>
        good_cache h d' \<and> (go_step (fileDeps h))\<^sup>*\<^sup>* (caching c d, g) (caching c d', g'))"

lemma runs_asD:
  "runs_as h g m g' \<Longrightarrow> good_cache h d \<Longrightarrow> m d = (r, d') \<Longrightarrow> returns r \<Longrightarrow>
     good_cache h d' \<and> (go_step (fileDeps h))\<^sup>*\<^sup>* (caching c d, g) (caching c d', g')"
  unfolding runs_as_def by blast

lemma attempt_cases:
  assumes "attempt m d = (r, d')" and "returns r"
  obtains q where "m d = (q, d')" "returns q" "r = Ok (case q of Ok x \<Rightarrow> Some x | _ \<Rightarrow> None)"
  using assms by (cases "m d"; cases "fst (m d)") (auto simp: attempt_def)

text \<open>The search gives what \<open>foundDeps\<close> says, and only the cache changes.\<close>

lemma search_run:
  assumes "good_cache h d"
  shows "\<exists>c. attempt (onCache (findLibrary (hs_files h) dep rp rq)) d =
      (Ok (case fst (findLibrary (hs_files h) dep rp rq initialCache) of Ok p \<Rightarrow> Some p | _ \<Rightarrow> None) :: (dl_error, string option) result, caching c d) \<and>
    cache_ok (fl_read (hs_files h)) c"
proof -
  obtain q c where f: "findLibrary (hs_files h) dep rp rq (dl_cache d) = (q, c)" by fastforce
  have "q \<noteq> Hang \<and> (\<forall>p. q \<noteq> Panic p)" using findLibrary_run[OF assms, of dep rp rq] f by (auto split: if_splits option.splits)
  moreover have "cache_ok (fl_read (hs_files h)) c" using findLibrary_run[OF assms, of dep rp rq] f by simp
  moreover have "fst (findLibrary (hs_files h) dep rp rq initialCache) = q"
    using findLibrary_stable[OF assms, of dep rp rq] f by simp
  ultimately show ?thesis using f by (cases q) (auto simp: attempt_def onCache_def)
qed

lemma onStack_deps [simp]: "onStack (a\<lparr>ac_deps := ds\<rparr> # st) = onStack (a # st)"
  by (rule ext) (simp add: onStack_def)

text \<open>The loop over the dependencies goes through the list of the activation.\<close>

definition depStep ::
    "host \<Rightarrow> (string \<Rightarrow> string \<Rightarrow> (dl, dl_error, nat option) st) \<Rightarrow> parsed_object \<Rightarrow> (string \<Rightarrow> bool) \<Rightarrow> string \<Rightarrow> (dl, dl_error, unit) st" where
  "depStep h loadDep parsed visiting dep =
     (if visiting dep then retS ()
      else bindS (attempt (onCache (findLibrary (hs_files h) dep (Runpath parsed) (Rpath parsed)))) (\<lambda>depPath.
             case depPath of
               None \<Rightarrow> retS ()
             | Some depPath \<Rightarrow> bindS (attempt (loadDep depPath dep)) (\<lambda>_. retS ())))"

lemma depStep_Needed: "depStep h loadDep (parsed\<lparr>Needed := ds\<rparr>) = depStep h loadDep parsed"
  by (intro ext) (simp add: depStep_def cong: if_cong)

lemma loadDependencies_steps:
  "loadDependencies h loadDep parsed visiting = forS (\<lambda>dep _. depStep h loadDep parsed visiting dep) (Needed parsed) ()"
  by (simp add: loadDependencies_def depStep_def)

lemma depLoop_runs:
  assumes "\<And>p s st. onStack st = visiting \<Longrightarrow>
      runs_as h \<lparr>g_call = Some (p, s, 1), g_stack = st\<rparr> (loadDep p s) \<lparr>g_call = None, g_stack = st\<rparr>"
    and "onStack (a # st) = visiting"
    and "good_cache h d" and "forS (\<lambda>dep _. depStep h loadDep parsed visiting dep) ds () d = (r, d')" and "returns r"
  shows "r = Ok () \<and> good_cache h d' \<and>
    (go_step (fileDeps h))\<^sup>*\<^sup>* (caching c d, \<lparr>g_call = None, g_stack = a\<lparr>ac_deps := foundDeps h parsed ds\<rparr> # st\<rparr>)
      (caching c d', \<lparr>g_call = None, g_stack = a\<lparr>ac_deps := []\<rparr> # st\<rparr>)"
  using assms(3,4)
proof (induction ds arbitrary: d)
  case Nil
  then show ?case by (simp add: retS_def)
next
  case (Cons dep ds)
  let ?g = "\<lambda>ds. \<lparr>g_call = None, g_stack = a\<lparr>ac_deps := foundDeps h parsed ds\<rparr> # st\<rparr>"
  let ?rest = "forS (\<lambda>dep _. depStep h loadDep parsed visiting dep) ds ()"
  obtain c1 where s: "attempt (onCache (findLibrary (hs_files h) dep (Runpath parsed) (Rpath parsed))) d =
      (Ok (case fst (findLibrary (hs_files h) dep (Runpath parsed) (Rpath parsed) initialCache) of Ok p \<Rightarrow> Some p | _ \<Rightarrow> None) :: (dl_error, string option) result, caching c1 d)"
    and c1: "cache_ok (fl_read (hs_files h)) c1" using search_run[OF Cons.prems(1)] by blast
  let ?found = "fst (findLibrary (hs_files h) dep (Runpath parsed) (Rpath parsed) initialCache)"
  have later: ?case if "?rest d1 = (r, d')" "good_cache h d1" "(go_step (fileDeps h))\<^sup>*\<^sup>* (caching c d, ?g (dep # ds)) (caching c d1, ?g ds)" for d1
    using Cons.IH[OF that(2,1)] that(3) by auto
  show ?case
  proof (cases "visiting dep")
    case True
    then have run: "?rest d = (r, d')" using Cons.prems(2) by (simp add: depStep_def bindS_def retS_def)
    have "(go_step (fileDeps h))\<^sup>*\<^sup>* (caching c d, ?g (dep # ds)) (caching c d, ?g ds)"
    proof (cases ?found)
      case (Ok p)
      then show ?thesis
        using go_step.skip[of "a\<lparr>ac_deps := foundDeps h parsed (dep # ds)\<rparr>" p dep "foundDeps h parsed ds" st "fileDeps h" "caching c d"]
          assms(2) True by auto
    qed simp_all
    with later run Cons.prems(1) show ?thesis by blast
  next
    case False
    show ?thesis
    proof (cases ?found)
      case (Ok p)
      obtain q d1 where q: "loadDep p dep (caching c1 d) = (q, d1)" by fastforce
      have "depStep h loadDep parsed visiting dep d = bindS (attempt (loadDep p dep)) (\<lambda>_. retS ()) (caching c1 d)"
        using False s Ok by (simp add: depStep_def bindS_def)
      then have run: "returns q \<and> ?rest d1 = (r, d')"
        using Cons.prems(2) assms(5) q by (cases q) (auto simp: bindS_def retS_def attempt_def)
      have st: "onStack (a\<lparr>ac_deps := foundDeps h parsed ds\<rparr> # st) = visiting" using assms(2) by simp
      have call: "good_cache h d1 \<and> (go_step (fileDeps h))\<^sup>*\<^sup>* (caching c (caching c1 d),
          \<lparr>g_call = Some (p, dep, 1), g_stack = a\<lparr>ac_deps := foundDeps h parsed ds\<rparr> # st\<rparr>) (caching c d1, ?g ds)"
        by (rule runs_asD[OF assms(1)[OF st] _ q]) (use c1 run in simp_all)
      have "go_step (fileDeps h) (caching c d, ?g (dep # ds))
          (caching c d, \<lparr>g_call = Some (p, dep, 1), g_stack = a\<lparr>ac_deps := foundDeps h parsed ds\<rparr> # st\<rparr>)"
        using go_step.call[of "a\<lparr>ac_deps := foundDeps h parsed (dep # ds)\<rparr>" p dep "foundDeps h parsed ds" st "fileDeps h" "caching c d"]
          assms(2) False Ok by simp
      with call run later show ?thesis by (auto intro: converse_rtranclp_into_rtranclp)
    next
      case (Err e)
      then have "?rest (caching c1 d) = (r, d')"
        using Cons.prems(2) False s by (simp add: depStep_def bindS_def retS_def)
      with later[of "caching c1 d"] c1 Err show ?thesis by simp
    qed (use findLibrary_run[OF initial_cache_ok, of "hs_files h" dep "Runpath parsed" "Rpath parsed"] in
        \<open>auto split: if_splits option.splits\<close>)
  qed
qed

text \<open>The end of a load: the object is registered, or the slot is given back.\<close>

abbreviation (input) loadAs :: "host \<Rightarrow> string \<Rightarrow> dl \<Rightarrow> (loader_error, loaded_object) result \<times> world" where
  "loadAs h path d \<equiv> Load (hs_os h) (hs_native h) (hs_codes h) (hs_newFile h) (fl_read (hs_files h)) (hs_openFd h) path
     (Some (globalResolver h d)) (dl_world d)"

lemma bindS_step:
  "m s = (Ok x, t) \<Longrightarrow> bindS m f s = f x t"
  "m s = (Err e, t) \<Longrightarrow> bindS m f s = (Err e, t)"
  "m s = (Panic p, t) \<Longrightarrow> bindS m f s = (Panic p, t)"
  "m s = (Hang, t) \<Longrightarrow> bindS m f s = (Hang, t)"
  by (simp_all add: bindS_def)

lemma orElse_step:
  "m s = (Ok x, t) \<Longrightarrow> orElse m k s = (Ok x, t)"
  "m s = (Panic p, t) \<Longrightarrow> orElse m k s = (Panic p, t)"
  "m s = (Hang, t) \<Longrightarrow> orElse m k s = (Hang, t)"
  by (simp_all add: orElse_def)

text \<open>A claimed file up to the loop over its dependencies.\<close>

lemma loadPath_claimed:
  assumes "\<not> visiting path" and "checkLoadingCache path d = (Ok None, d1)"
  shows "\<exists>rest. loadPath (Suc n) h path soname flag visiting d =
    bindS (orElse (liftS (mapErr DlParse (Parse (hs_newFile h) (fl_read (hs_files h)) path)))
       (releaseLoadingSlot path :: (dl, dl_error, unit) st)) (\<lambda>parsed.
      bindS (orElse (loadDependencies h (\<lambda>p s. loadPath n h p s RTLD_GLOBAL (visiting(path := True))) parsed (visiting(path := True)))
        (releaseLoadingSlot path :: (dl, dl_error, unit) st)) (rest parsed)) d1"
  using assms(1) by (simp add: Let_def bindS_step(1)[of "checkLoadingCache path" d, OF assms(2)] del: fun_upd_apply)
    (rule exI[of _ "\<lambda>_ _. bindS (orElse (\<lambda>d. onWorld (mapErrS DlLoad (Load (hs_os h) (hs_native h) (hs_codes h) (hs_newFile h)
        (fl_read (hs_files h)) (hs_openFd h) path (Some (globalResolver h d)))) d)
      (releaseLoadingSlot path :: (dl, dl_error, unit) st)) (\<lambda>obj. bindS (registerLibrary path soname obj flag) (\<lambda>i. retS (Some i)))"],
     rule refl)

lemma loadPath_parsed:
  assumes "\<not> visiting path" and "checkLoadingCache path d = (Ok None, d1)"
    and "loadPath (Suc n) h path soname flag visiting d = (r, d')" and "returns r"
  shows "case Parse (hs_newFile h) (fl_read (hs_files h)) path of
      Ok parsed \<Rightarrow> returns (fst (loadDependencies h (\<lambda>p s. loadPath n h p s RTLD_GLOBAL (visiting(path := True))) parsed
        (visiting(path := True)) d1))
    | Err e \<Rightarrow> d' = snd (releaseLoadingSlot path d1 :: (dl_error, unit) result \<times> dl)
    | _ \<Rightarrow> False"
proof -
  let ?D = "\<lambda>parsed. loadDependencies h (\<lambda>p s. loadPath n h p s RTLD_GLOBAL (visiting(path := True))) parsed (visiting(path := True))"
  let ?P = "orElse (liftS (mapErr DlParse (Parse (hs_newFile h) (fl_read (hs_files h)) path)))
       (releaseLoadingSlot path :: (dl, dl_error, unit) st)"
  obtain rest where "loadPath (Suc n) h path soname flag visiting d =
      bindS ?P (\<lambda>parsed. bindS (orElse (?D parsed) (releaseLoadingSlot path :: (dl, dl_error, unit) st)) (rest parsed)) d1"
    using loadPath_claimed[of visiting path d d1, OF assms(1,2)] by blast
  note run = this[unfolded assms(3)]
  show ?thesis
  proof (cases "Parse (hs_newFile h) (fl_read (hs_files h)) path")
    case (Ok parsed)
    obtain q d2 where q: "?D parsed d1 = (q, d2)" by fastforce
    have "?P d1 = (Ok parsed, d1)" using Ok by (simp add: orElse_step liftS_def)
    from run[unfolded bindS_step(1)[of ?P d1, OF this]] have "(r, d') = bindS (orElse (?D parsed) (releaseLoadingSlot path :: (dl, dl_error, unit) st)) (rest parsed) d1" .
    then have "returns q" using assms(4) q by (cases q) (auto simp: bindS_step orElse_step)
    then show ?thesis using Ok q by simp
  next
    case (Err e)
    then have "?P d1 = (Err (DlParse e), snd (releaseLoadingSlot path d1 :: (dl_error, unit) result \<times> dl))"
      by (simp add: orElse_def liftS_def releaseLoadingSlot_def modifyS_def)
    then show ?thesis using run Err by (simp add: bindS_step)
  qed (use run assms(4) in \<open>simp_all add: bindS_step orElse_step liftS_def\<close>)
qed

lemma loadPath_fresh:
  assumes "\<not> visiting path" and "checkLoadingCache path d = (Ok None, d1)"
    and "Parse (hs_newFile h) (fl_read (hs_files h)) path = Ok parsed"
    and "loadDependencies h (\<lambda>p s. loadPath n h p s RTLD_GLOBAL (visiting(path := True))) parsed (visiting(path := True)) d1 = (Ok (), d2)"
  shows "loadPath (Suc n) h path soname flag visiting d =
    (case loadAs h path d2 of
       (Ok obj, w) \<Rightarrow> bindS (registerLibrary path soname obj flag) (\<lambda>i. retS (Some i)) (d2\<lparr>dl_world := w\<rparr>)
     | (Err e, w) \<Rightarrow> (Err (DlLoad e), snd (releaseLoadingSlot path (d2\<lparr>dl_world := w\<rparr>) :: (dl_error, unit) result \<times> dl))
     | (Panic p, w) \<Rightarrow> (Panic p, d2\<lparr>dl_world := w\<rparr>)
     | (Hang, w) \<Rightarrow> (Hang, d2\<lparr>dl_world := w\<rparr>))"
  using assms
  by (simp add: st_defs orElse_def onWorld_def Let_def releaseLoadingSlot_def modifyS_def split: prod.split result.split)


lemma caching_world: "(caching c d)\<lparr>dl_world := w\<rparr> = caching c (d\<lparr>dl_world := w\<rparr>)"
  by simp

lemma register_step:
  assumes "registerLibrary p s obj f (d\<lparr>dl_world := w\<rparr>) = (Ok i, d')"
  shows "go_step deps (caching c d, \<lparr>g_call = None, g_stack = \<lparr>ac_path = p, ac_soname = s, ac_flag = f, ac_deps = []\<rparr> # st\<rparr>)
    (caching c d', \<lparr>g_call = None, g_stack = st\<rparr>)"
proof -
  let ?a = "\<lparr>ac_path = p, ac_soname = s, ac_flag = f, ac_deps = []\<rparr>"
  have "registerLibrary (ac_path ?a) (ac_soname ?a) obj (ac_flag ?a) ((caching c d)\<lparr>dl_world := w\<rparr>) = (Ok i, caching c d')"
    unfolding caching_world using sections_caching(3)[OF assms] by simp
  from go_step.register[OF _ this] show ?thesis by simp
qed

lemma fail_step:
  "go_step deps (caching c d, \<lparr>g_call = None, g_stack = \<lparr>ac_path = p, ac_soname = s, ac_flag = f, ac_deps = []\<rparr> # st\<rparr>)
    (caching c (snd (releaseLoadingSlot p (d\<lparr>dl_world := w\<rparr>) :: (dl_error, unit) result \<times> dl)), \<lparr>g_call = None, g_stack = st\<rparr>)"
  (is "go_step deps ?from (caching c ?d', ?to)")
proof -
  let ?a = "\<lparr>ac_path = p, ac_soname = s, ac_flag = f, ac_deps = []\<rparr>"
  have "releaseLoadingSlot p (d\<lparr>dl_world := w\<rparr>) = (Ok () :: (dl_error, unit) result, ?d')"
    by (simp add: releaseLoadingSlot_def modifyS_def)
  then have "releaseLoadingSlot (ac_path ?a) ((caching c d)\<lparr>dl_world := w\<rparr>) = (Ok () :: (dl_error, unit) result, caching c ?d')"
    unfolding caching_world using sections_caching(4) by simp
  from go_step.fail[OF _ this] show ?thesis by simp
qed

lemma loadPath_runs:
  "onStack st = visiting \<Longrightarrow>
   runs_as h \<lparr>g_call = Some (path, soname, flag), g_stack = st\<rparr> (loadPath n h path soname flag visiting) \<lparr>g_call = None, g_stack = st\<rparr>"
proof (induction n arbitrary: path soname flag st visiting)
  case 0
  then show ?case by (simp add: runs_as_def liftS_def)
next
  case (Suc n)
  let ?g = "\<lparr>g_call = Some (path, soname, flag), g_stack = st\<rparr>" and ?g' = "\<lparr>g_call = None, g_stack = st\<rparr>"
  let ?steps = "(go_step (fileDeps h))\<^sup>*\<^sup>*"
  show ?case
    unfolding runs_as_def
  proof (intro allI impI)
    fix d r d' c
    assume good: "good_cache h d" and run: "loadPath (Suc n) h path soname flag visiting d = (r, d')" and ret: "returns r"
    have kept: "good_cache h d'" using keepsD[OF cache.keeps_loadPath good run] .
    have "?steps (caching c d, ?g) (caching c d', ?g')"
    proof (cases "visiting path")
      case True
      then have s: "onStack st path" using Suc.prems by simp
      have inc: "incrementRefIfLoaded path d = (r, d')" using run True by simp
      moreover obtain q where "r = Ok q" using inc by (auto simp: incrementRefIfLoaded_def split: option.splits)
      ultimately show ?thesis using go_step.cycle[OF s, of "caching c d" q "caching c d'"] sections_caching(1) by blast
    next
      case False
      then have s: "\<not> onStack st path" using Suc.prems by simp
      show ?thesis
      proof (cases "dl_loading d path")
        case True
        then show ?thesis using run ret False by (simp add: checkLoadingCache_def bindS_def)
      next
        case free: False
        show ?thesis
        proof (cases "dl_loaded d path")
          case (Some i)
          then have "checkLoadingCache path d = (Ok (Some i), d')"
            using run False free by (auto simp: checkLoadingCache_def st_defs)
          then show ?thesis using go_step.cached[OF s sections_caching(2)] by blast
        next
          case None
          let ?d1 = "d\<lparr>dl_loading := (dl_loading d)(path := True)\<rparr>"
          let ?a = "\<lambda>ds. \<lparr>ac_path = path, ac_soname = soname, ac_flag = flag, ac_deps = ds\<rparr>"
          let ?st = "\<lambda>ds. \<lparr>g_call = None, g_stack = ?a ds # st\<rparr>"
          have check: "checkLoadingCache path d = (Ok None, ?d1)" using free None by (simp add: checkLoadingCache_def)
          have claim: "go_step (fileDeps h) (caching c d, ?g) (caching c ?d1, ?st (fileDeps h path))"
            using go_step.claim[OF s sections_caching(2)[OF check]] .
          note parsed = loadPath_parsed[of visiting path d ?d1, OF False check run ret]
          have on: "onStack (?a ds # st) = visiting(path := True)" for ds
            using Suc.prems by (auto simp: onStack_def fun_eq_iff)
          have finish: ?thesis
            if "?steps (caching c ?d1, ?st (fileDeps h path)) (caching c e, ?st [])"
              "go_step (fileDeps h) (caching c e, ?st []) (caching c d', ?g')" for e
            by (rule converse_rtranclp_into_rtranclp[where r = "go_step (fileDeps h)", OF claim
                  rtranclp.rtrancl_into_rtrancl[where r = "go_step (fileDeps h)", OF that]])
          show ?thesis
          proof (cases "Parse (hs_newFile h) (fl_read (hs_files h)) path")
            case (Ok parsed)
            have deps: "fileDeps h path = foundDeps h parsed (Needed parsed)" by (simp add: fileDeps_def Ok)
            obtain q d2 where q: "loadDependencies h (\<lambda>p s. loadPath n h p s RTLD_GLOBAL (visiting(path := True))) parsed (visiting(path := True)) ?d1 = (q, d2)"
              by fastforce
            have "returns q" using parsed Ok q by simp
            from depLoop_runs[OF Suc.IH on[of "[]"] _ q[unfolded loadDependencies_steps] this, where c = c] good
            have "q = Ok ()" and "?steps (caching c ?d1, ?st (fileDeps h path)) (caching c d2, ?st [])"
              by (simp_all add: deps)
            note loop = this
            note fresh = loadPath_fresh[of visiting path d ?d1, OF False check Ok q[unfolded loop(1)], of soname flag, unfolded run]
            obtain l w where l: "loadAs h path d2 = (l, w)" by fastforce
            show ?thesis
            proof (cases l)
              case (Ok obj)
              then obtain i where "registerLibrary path soname obj flag (d2\<lparr>dl_world := w\<rparr>) = (Ok i, d')"
                using fresh l by (auto simp: registerLibrary_def Let_def st_defs)
              from finish[OF loop(2) register_step[OF this]] show ?thesis .
            next
              case (Err e)
              with fresh l finish[OF loop(2)] fail_step[of "fileDeps h" c d2 path soname flag st w] show ?thesis by simp
            qed (use fresh l ret in simp_all)
          next
            case (Err e)
            then have "fileDeps h path = []" by (simp add: fileDeps_def)
            moreover have "d' = snd (releaseLoadingSlot path (?d1\<lparr>dl_world := dl_world d\<rparr>) :: (dl_error, unit) result \<times> dl)"
              using parsed Err by simp
            ultimately show ?thesis
              using finish[of ?d1] fail_step[of "fileDeps h" c ?d1 path soname flag st "dl_world d"] by simp
          qed (use parsed in simp_all)
        qed
      qed
    qed
    with kept show "good_cache h d' \<and> ?steps (caching c d, ?g) (caching c d', ?g')" by simp
  qed
qed

section \<open>\<open>Open\<close> as a run\<close>

lemma goes_lift:
  "(go_step deps)\<^sup>*\<^sup>* (d, g) (d', g') \<Longrightarrow> (dl_step h deps)\<^sup>*\<^sup>* (d, gs @ g # hs) (d', gs @ g' # hs)"
proof (induction rule: rtranclp_induct2)
  case (step d1 g1 d2 g2)
  from rtranclp.rtrancl_into_rtrancl[OF step.IH dl_step.goes[OF step.hyps(2)]] show ?case .
qed simp

text \<open>
  C25: The sequential and the concurrent model agree. Whenever \<open>Open\<close> returns, with a library or an error, what it
  has done to the tables and to the rest of the state is a run of the concurrent steps, in which one idle
  goroutine makes the call and is idle again and the others do not move. So everything shown of the states
  the goroutines can reach holds of the sequential code; the linker cache plays no part in the steps.
\<close>

theorem Open_is_a_run:
  assumes "cache_ok (fl_read (hs_files h)) (dl_cache d)" and "Open n h name flags d = (r, d')" and "returns r"
  shows "(dl_step h (fileDeps h))\<^sup>*\<^sup>* (d\<lparr>dl_cache := c\<rparr>, gs @ idle # hs) (d'\<lparr>dl_cache := c\<rparr>, gs @ idle # hs)"
proof (cases "dl_loaded d name")
  case (Some i)
  then have "incrementRefIfLoaded name d = (Ok (Some i), d')"
    using assms(2) by (simp add: Open_def loadLib_def incrementRefIfLoaded_def Let_def)
  from dl_step.known[OF sections_caching(1)[OF this]] show ?thesis by blast
next
  case None
  obtain flag where run: "bindS (mapErrS SearchFailed (onCache (findLibrary (hs_files h) name [] [])))
      (\<lambda>path. loadPath n h path name flag (\<lambda>_. False)) d = (r, d')"
    using assms(2) None by (simp add: Open_def loadLib_def Let_def)
  obtain q cs where f: "findLibrary (hs_files h) name [] [] (dl_cache d) = (q, cs)" by fastforce
  have good: "good_cache h (caching cs d)" using findLibrary_run[OF assms(1), of name "[]" "[]"] f by simp
  show ?thesis
  proof (cases q)
    case (Ok path)
    let ?g = "\<lparr>g_call = Some (path, name, flag), g_stack = []\<rparr>"
    have lp: "loadPath n h path name flag (\<lambda>_. False) (caching cs d) = (r, d')"
      using run Ok f by (simp add: bindS_def mapErrS_def onCache_def)
    have "onStack [] = (\<lambda>_. False)" by (simp add: fun_eq_iff onStack_def)
    from runs_asD[OF loadPath_runs[OF this] good lp assms(3), of c]
    have "(go_step (fileDeps h))\<^sup>*\<^sup>* (caching c d, ?g) (caching c d', idle)" by (simp add: idle_def)
    from converse_rtranclp_into_rtranclp[where r = "dl_step h (fileDeps h)", OF dl_step.opens goes_lift[OF this]] show ?thesis .
  next
    case (Err e)
    then have "d' = caching cs d" using run f by (simp add: bindS_def mapErrS_def onCache_def)
    then show ?thesis by simp
  qed (use run assms(3) f in \<open>auto simp: bindS_def mapErrS_def onCache_def\<close>)
qed

section \<open>Dependencies first\<close>

interpretation grows: dl_invariant h "\<lambda>d. dl_loaded d k \<noteq> None" for h k
  by unfold_locales (auto simp: registerLibrary_def Let_def)

lemma loadPath_loaded:
  assumes "loadPath n h path soname flag visiting d = (Ok q, d')" and "\<not> visiting path"
  shows "dl_loaded d' path \<noteq> None"
proof (cases n)
  case (Suc m)
  obtain x d1 where c: "checkLoadingCache path d = (x, d1)" by fastforce
  show ?thesis
  proof (cases "x = Ok None")
    case True
    then obtain obj dx l where "registerLibrary path soname obj flag dx = (Ok l, d')"
      using assms c by (auto simp: Suc st_Ok Let_def)
    from registerLibrary_loaded[OF this] show ?thesis by simp
  next
    case False
    then show ?thesis
      using assms c by (auto simp: Suc checkLoadingCache_def bindS_def retS_def split: if_splits option.splits)
  qed
qed (use assms in \<open>simp add: liftS_def\<close>)

text \<open>Every dependency found that is not on the call stack is loaded by the loop, and then stays in the table.\<close>

lemma depLoop_loads:
  assumes "\<And>k p s. keeps (\<lambda>d. dl_loaded d k \<noteq> None) (loadDep p s)" and "\<And>p s. keeps (good_cache h) (loadDep p s)"
    and "good_cache h d" and "forS (\<lambda>dep _. depStep h loadDep parsed visiting dep) ds () d = (Ok (), d')"
    and "(p, dep) \<in> set (foundDeps h parsed ds)" and "\<not> visiting dep"
  shows "\<exists>pre suf d0 c q d1. ds = pre @ dep # suf \<and>
    forS (\<lambda>dep _. depStep h loadDep parsed visiting dep) pre () d = (Ok (), d0) \<and>
    loadDep p dep (caching c d0) = (q, d1) \<and> returns q \<and> (dl_loaded d1 p \<noteq> None \<longrightarrow> dl_loaded d' p \<noteq> None)"
  using assms(3-5)
proof (induction ds arbitrary: d)
  case (Cons e ds)
  have kp: "keeps P (depStep h loadDep parsed visiting f)"
    if "\<And>p s. keeps P (loadDep p s)" "\<And>f. keeps P (onCache (findLibrary (hs_files h) f (Runpath parsed) (Rpath parsed)))" for P f
    unfolding depStep_def by (intro keeps_intros that)
  obtain d1 where step: "depStep h loadDep parsed visiting e d = (Ok (), d1)"
    and rest: "forS (\<lambda>dep _. depStep h loadDep parsed visiting dep) ds () d1 = (Ok (), d')"
    using Cons.prems(2) by (auto simp: bindS_eq_Ok)
  have good: "good_cache h d1" using keepsD[OF kp[OF assms(2) cache.keeps_search] Cons.prems(1) step] .
  show ?case
  proof (cases "(p, dep) \<in> set (foundDeps h parsed ds)")
    case True
    from Cons.IH[OF good rest this] obtain pre suf d0 c q d2 where
      "ds = pre @ dep # suf" "forS (\<lambda>dep _. depStep h loadDep parsed visiting dep) pre () d1 = (Ok (), d0)"
      "loadDep p dep (caching c d0) = (q, d2) \<and> returns q \<and> (dl_loaded d2 p \<noteq> None \<longrightarrow> dl_loaded d' p \<noteq> None)" by blast
    then show ?thesis
      using step by - (rule exI[of _ "e # pre"], intro exI[of _ suf] exI[of _ d0], auto simp: bindS_eq_Ok)
  next
    case False
    then have e: "e = dep" and found: "fst (findLibrary (hs_files h) dep (Runpath parsed) (Rpath parsed) initialCache) = Ok p"
      using Cons.prems(3) by (auto split: result.splits)
    obtain c1 where s: "attempt (onCache (findLibrary (hs_files h) dep (Runpath parsed) (Rpath parsed))) d =
        (Ok (Some p) :: (dl_error, string option) result, caching c1 d)"
      using search_run[OF Cons.prems(1), of dep "Runpath parsed" "Rpath parsed"] found by auto
    have "bindS (attempt (loadDep p dep)) (\<lambda>_. retS ()) (caching c1 d) = (Ok () :: (dl_error, unit) result, d1)"
      using step s assms(6) by (simp add: e depStep_def bindS_def)
    then obtain x where a: "attempt (loadDep p dep) (caching c1 d) = (Ok x :: (dl_error, nat option option) result, d1)"
      by (auto simp: bindS_eq_Ok retS_def)
    obtain q where q: "loadDep p dep (caching c1 d) = (q, d1)" "returns q"
      using attempt_cases[OF a] by auto
    have "keeps (\<lambda>d. dl_loaded d p \<noteq> None) (forS (\<lambda>dep _. depStep h loadDep parsed visiting dep) ds ())"
      by (intro keeps_for kp assms(1) grows.keeps_search)
    from keepsD[OF this _ rest] q show ?thesis
      by - (rule exI[of _ "[]"], intro exI[of _ ds] exI[of _ d], auto simp: e retS_def)
  qed
qed simp

text \<open>
  In the loop over the dependencies of a file from state \<open>d\<close> on, the attempt to load \<open>dn\<close>, found at \<open>dp\<close>, failed:
  the loop had gone through the dependencies before it.
\<close>

definition depFailed :: "nat \<Rightarrow> host \<Rightarrow> parsed_object \<Rightarrow> (string \<Rightarrow> bool) \<Rightarrow> dl \<Rightarrow> string \<Rightarrow> string \<Rightarrow> bool" where
  "depFailed n h parsed visiting d dp dn \<longleftrightarrow>
     (\<exists>pre suf d0 c e d1. Needed parsed = pre @ dn # suf \<and>
        loadDependencies h (\<lambda>p s. loadPath n h p s RTLD_GLOBAL visiting) (parsed\<lparr>Needed := pre\<rparr>) visiting d = (Ok (), d0) \<and>
        loadPath n h dp dn RTLD_GLOBAL visiting (d0\<lparr>dl_cache := c\<rparr>) = (Err e, d1))"

text \<open>A file that was not loaded: parsed, its dependencies loaded, loaded itself and registered.\<close>

lemma loadPath_new:
  assumes "loadPath (Suc n) h path soname flag visiting d = (Ok (Some l), d')"
    and "\<not> visiting path" and "dl_loaded d path = None"
  shows "\<exists>parsed d2 obj w. Parse (hs_newFile h) (fl_read (hs_files h)) path = Ok parsed \<and>
    loadDependencies h (\<lambda>p s. loadPath n h p s RTLD_GLOBAL (visiting(path := True))) parsed (visiting(path := True))
      (d\<lparr>dl_loading := (dl_loading d)(path := True)\<rparr>) = (Ok (), d2) \<and>
    loadAs h path d2 = (Ok obj, w) \<and> registerLibrary path soname obj flag (d2\<lparr>dl_world := w\<rparr>) = (Ok l, d')"
proof -
  let ?d1 = "d\<lparr>dl_loading := (dl_loading d)(path := True)\<rparr>" and ?v = "visiting(path := True)"
  let ?D = "\<lambda>p s. loadPath n h p s RTLD_GLOBAL ?v"
  have free: "\<not> dl_loading d path" using assms(1,2) by (auto simp: checkLoadingCache_def bindS_def)
  have check: "checkLoadingCache path d = (Ok None, ?d1)" using free assms(3) by (simp add: checkLoadingCache_def)
  obtain parsed d2 where ps: "Parse (hs_newFile h) (fl_read (hs_files h)) path = Ok parsed"
    and deps: "loadDependencies h ?D parsed ?v ?d1 = (Ok (), d2)"
    using assms(1,2) check by (auto simp: st_Ok orElse_eq_Ok Let_def)
  note fresh = loadPath_fresh[of visiting path d ?d1, OF assms(2) check ps deps, of soname flag, unfolded assms(1)]
  obtain q w where load: "loadAs h path d2 = (q, w)" by fastforce
  then have "\<exists>obj. q = Ok obj \<and> registerLibrary path soname obj flag (d2\<lparr>dl_world := w\<rparr>) = (Ok l, d')"
    using fresh[symmetric] by (cases q) (auto simp: st_Ok)
  with ps deps load show ?thesis by blast
qed

text \<open>
  C17: Dependencies come first. When \<open>loadPath\<close> has loaded a file that was not loaded before, then at the time the
  file itself was mapped, relocated and initialised, each of its dependencies that the search finds was in the
  table as an earlier library, and so had been relocated and initialised, unless it was being loaded further
  up the call stack (a cycle) or the attempt to load it had failed.
\<close>

theorem dependencies_first:
  assumes "loadPath (Suc n) h path soname flag visiting d = (Ok (Some l), d')"
    and "\<not> visiting path" and "dl_loaded d path = None"
    and "tables_ok closed d" and "cache_ok (fl_read (hs_files h)) (dl_cache d)"
  shows "\<exists>parsed d2 obj w. Parse (hs_newFile h) (fl_read (hs_files h)) path = Ok parsed \<and> loadAs h path d2 = (Ok obj, w) \<and> registerLibrary path soname obj flag (d2\<lparr>dl_world := w\<rparr>) = (Ok l, d') \<and>
    list_all (\<lambda>(dp, dn). visiting dn \<or> dn = path \<or> visiting dp \<or> dp = path \<or>
      (\<exists>i<l. dl_loaded d2 dp = Some i) \<or>
      depFailed n h parsed (visiting(path := True)) (d\<lparr>dl_loading := (dl_loading d)(path := True)\<rparr>) dp dn) (fileDeps h path)"
proof -
  let ?d1 = "d\<lparr>dl_loading := (dl_loading d)(path := True)\<rparr>" and ?v = "visiting(path := True)"
  let ?D = "\<lambda>p s. loadPath n h p s RTLD_GLOBAL ?v"
  obtain parsed d2 obj w where ps: "Parse (hs_newFile h) (fl_read (hs_files h)) path = Ok parsed"
    and deps: "loadDependencies h ?D parsed ?v ?d1 = (Ok (), d2)" and load: "loadAs h path d2 = (Ok obj, w)"
    and reg: "registerLibrary path soname obj flag (d2\<lparr>dl_world := w\<rparr>) = (Ok l, d')"
    using loadPath_new[OF assms(1-3)] by blast
  have t1: "tables_ok closed ?d1" "good_cache h ?d1" using assms(4,5) by (simp_all add: tables_ok_def)
  have t2: "tables_ok closed d2" using keepsD[OF tables.keeps_loadDependencies[OF tables.keeps_loadPath] t1(1) deps] .
  have l: "l = length (dl_libs d2)" using reg by (auto simp: registerLibrary_def Let_def)
  have "\<exists>i<l. dl_loaded d2 dp = Some i"
    if new: "(dp, dn) \<in> set (fileDeps h path)" "\<not> ?v dn" "\<not> ?v dp" "\<not> depFailed n h parsed ?v ?d1 dp dn" for dp dn
  proof -
    have "(dp, dn) \<in> set (foundDeps h parsed (Needed parsed))" using new(1) by (simp add: fileDeps_def ps)
    from depLoop_loads[OF grows.keeps_loadPath cache.keeps_loadPath t1(2) deps[unfolded loadDependencies_steps] this new(2)]
    obtain pre suf d0 c x d3 where pre: "Needed parsed = pre @ dn # suf"
        "forS (\<lambda>dep _. depStep h ?D parsed ?v dep) pre () ?d1 = (Ok (), d0)"
      and x: "?D dp dn (caching c d0) = (x, d3)" "returns x" "dl_loaded d3 dp \<noteq> None \<longrightarrow> dl_loaded d2 dp \<noteq> None" by blast
    have "loadDependencies h ?D (parsed\<lparr>Needed := pre\<rparr>) ?v ?d1 = (Ok (), d0)"
      using pre(2) by (simp add: loadDependencies_steps depStep_Needed)
    then have "x \<noteq> Err e" for e using new(4) pre(1) x(1) unfolding depFailed_def by blast
    then obtain y where "x = Ok y" using x(2) by (cases x) auto
    with x loadPath_loaded[of n h dp dn RTLD_GLOBAL ?v "caching c d0" y d3] new(3) obtain i where "dl_loaded d2 dp = Some i" by auto
    with t2 l show ?thesis by (auto simp: tables_ok_def)
  qed
  then show ?thesis using ps load reg  list_all_iff by (intro exI[of _ parsed] exI[of _ d2] exI[of _ obj] exI[of _ w]) fastforce
qed

section \<open>A library with a dependency\<close>

text \<open>A file that needs \<open>/b\<close>, opened where \<open>/b\<close> is loaded.\<close>

definition needingElf :: elf_file where
  "needingElf = demoElf\<lparr>ef_Progs := [demoLoad\<lparr>ph_Filesz := 0x34, ph_Memsz := 0x34\<rparr>, demoDyn\<lparr>ph_Filesz := 0x30, ph_Memsz := 0x30\<rparr>]\<rparr>"

definition needingData :: bytes where
  "needingData = [1, 0, 0, 0, 0, 0, 0, 0, 1, 0, 0, 0, 0, 0, 0, 0,
                  5, 0, 0, 0, 0, 0, 0, 0, 0x30, 0x10, 0, 0, 0, 0, 0, 0,
                  0, 0, 0, 0, 0, 0, 0, 0, 0, 0, 0, 0, 0, 0, 0, 0]"

definition needingBytes :: bytes where
  "needingBytes = needingData @ [0, 47, 98, 0]"

lemma needing_length [simp]: "length needingData = 48" "length needingBytes = 52"
  by (simp_all add: needingData_def needingBytes_def)

definition needingFs :: "string \<rightharpoonup> bytes" where
  "needingFs = [''a.so'' \<mapsto> needingBytes]"

definition needingParsed :: parsed_object where
  "needingParsed = demoParsed\<lparr>File := needingElf, LoadSegments := [demoLoad\<lparr>ph_Filesz := 0x34, ph_Memsz := 0x34\<rparr>],
     DynamicSeg := Some (demoDyn\<lparr>ph_Filesz := 0x30, ph_Memsz := 0x30\<rparr>),
     DynEntries := [DT_NEEDED \<mapsto> 1, DT_STRTAB \<mapsto> 0x1030], Needed := [''/b''], DynData := needingData\<rparr>"

lemma needing_Parse: "Parse (\<lambda>_. Some needingElf) needingFs ''a.so'' = Ok needingParsed"
proof -
  let ?seg = "demoLoad\<lparr>ph_Filesz := 0x34, ph_Memsz := 0x34\<rparr>" and ?dyn = "demoDyn\<lparr>ph_Filesz := 0x30, ph_Memsz := 0x30\<rparr>"
  have c: "collectProgramHeaders needingElf (newParsedObject ''a.so'' needingElf) =
    Ok ((newParsedObject ''a.so'' needingElf)\<lparr>LoadSegments := [?seg], DynamicSeg := Some ?dyn\<rparr>, 0x1000, 0x1034)"
    by (simp add: collectProgramHeaders_def validateRequiredSegments_def newParsedObject_def needingElf_def
        demoLoad_def demoDyn_def validatePTLoad_def updateAddressRange_def)
  let ?o2 = "(newParsedObject ''a.so'' needingElf)\<lparr>LoadSegments := [?seg], DynamicSeg := Some ?dyn,
     BaseVAddr := 0x1000, MemSize := 0x1000\<rparr>"
  let ?o3 = "?o2\<lparr>DynVAddr := 0x1000, DynData := needingData, DynEntries := [DT_NEEDED \<mapsto> 1, DT_STRTAB \<mapsto> 0x1030]\<rparr>"
  have h: "validateELFHeader needingElf ''a.so'' = Ok ()"
    by (simp add: validateELFHeader_def needingElf_def demoElf_def)
  have m: "PageAlign 0x34 = 0x1000" by (simp add: PageAlign_def)
  have got: "ReadAt needingBytes 48 0 = Ok needingData" by (simp add: ReadAt_def needingBytes_def)
  have loop: "dynLoop needingData Map.empty = ([DT_NEEDED \<mapsto> 1, DT_STRTAB \<mapsto> 0x1030], True)"
    by (simp add: dynLoop.simps Uint64_def le_word_def needingData_def fun_eq_iff)
  have tab: "dynTable needingData = [(DT_NEEDED, 1), (DT_STRTAB, 0x1030), (DT_NULL, 0)]"
    by (simp add: dynTable_def dynEntry_def Uint64_def le_word_def needingData_def upt_conv_Cons)
  have v: "validateDynEntries ?o3 = Ok ()"
    by (simp add: validateDynEntries_def validateAddressTags_def addressTags_def validateAddressTag_def
        validateSizeTags_def validateSizeTag_def)
  have r: "readDynamicSection needingBytes ?o2 = Ok ?o3"
    using v by (simp add: readDynamicSection_def demoDyn_def makeBytes_def got loop)
  have n: "readCString [0, 47, 98, 0] 1 = ''/b''" by code_simp
  have s: "resolveStringReferences needingBytes needingElf ?o3 = Ok (?o3\<lparr>Needed := [''/b'']\<rparr>)"
    by (simp add: resolveStringReferences_def needingElf_def demoElf_def demoLoad_def makeBytes_def ReadAt_def
        extractNeededLibraries_def neededLoop_spec dynLive_def tab extractRunpathAndRpath_def
        newParsedObject_def needingBytes_def n)
  have "Parse (\<lambda>_. Some needingElf) needingFs ''a.so'' = Ok (?o3\<lparr>Needed := [''/b'']\<rparr>)"
    using r s h by (simp add: Parse_def openAndValidateELF_def needingFs_def parseHeadersAndLayout_def
       c calculateMemoryLayout_def m)
  then show ?thesis by (simp add: needingParsed_def demoParsed_def newParsedObject_def)
qed


definition needingHost :: host where
  "needingHost = demoHost\<lparr>hs_os := demoOs needingBytes, hs_newFile := (\<lambda>_. Some needingElf),
     hs_files := \<lparr>fl_read = needingFs, fl_stat = (\<lambda>p. p = ''/b''), fl_LD_LIBRARY_PATH = []\<rparr>\<rparr>"

definition needingStart :: dl where
  "needingStart = (initialDl (initialWorld emptyMem))\<lparr>dl_libs := [demoDefiner 1 0x8020], dl_loaded := [''/b'' \<mapsto> 0]\<rparr>"

lemma needingHost_simps:
  "hs_os needingHost = demoOs needingBytes" "hs_native needingHost = demoNative" "hs_codes needingHost = amd64Codes"
  "hs_newFile needingHost = (\<lambda>_. Some needingElf)" "fl_read (hs_files needingHost) = needingFs"
  "hs_openFd needingHost = [''a.so'' \<mapsto> 3]"
  by (simp_all add: needingHost_def demoHost_def)

lemma needing_Load:
  "\<exists>obj w. Load (demoOs needingBytes) demoNative amd64Codes (\<lambda>_. Some needingElf) needingFs [''a.so'' \<mapsto> 3] ''a.so'' rs
     (initialWorld emptyMem) = (Ok obj, w)"
proof -
  have pao: "parseAndOpen (\<lambda>_. Some needingElf) needingFs [''a.so'' \<mapsto> 3] ''a.so'' = Ok (needingParsed, 3)"
    by (simp add: parseAndOpen_def needing_Parse)
  have free: "freeAt \<lparr>mbytes = \<lambda>_. 0, mprot = \<lambda>_. None\<rparr> a n" for a n by (simp add: freeAt_def list_all_iff)
  show ?thesis
    by (simp add: Load_def pao createAndMapObject_def initialWorld_def onMem_def MapAnon_def Map_def demoMmap_def free
        orElse_def mapSegments_def needingParsed_def demoParsed_def mapSegment_def Let_def pageDown_def pageUp_def demoLoad_def
        elfProt_def computeMapProt_def mapFileRegion_def mapBSSRegion_def st_defs
        MapFixed_def newObject_def pages4096_def
        populateObject_def readMem_def loadS_def populateDynamicTags_def populateRelocationTags_def
        populateSymbolTags_def extractRelocationAddresses_def ifTag_def validateRelocationTables_def populateInitFiniTags_def
        populateInitTags_def populateFiniTags_def populateSoname_def initializeSymbolTable_def computeSymbolTableSize_def
        loadVersionInfo_def setupTLS_def emptyMem_def finalizeObject_def processRelocations_def applyRelaTable_def
        applyRELROProtection_def runConstructors_def runInitArray_def)
qed

lemma needing_found: "fst (findLibrary (hs_files needingHost) ''/b'' [] [] initialCache) = Ok ''/b''"
  using findLibrary_run[OF initial_cache_ok, of "hs_files needingHost" "''/b''" "[]" "[]"] by (simp add: needingHost_def)

lemma needing_fileDeps: "fileDeps needingHost ''a.so'' = [(''/b'', ''/b'')]"
  using needing_found
  by (simp add: fileDeps_def needingHost_simps needing_Parse needingParsed_def demoParsed_def)

lemma needing_loadPath:
  "\<exists>d. loadPath 2 needingHost ''a.so'' ''a.so'' 0 (\<lambda>_. False) needingStart = (Ok (Some 1), d) \<and> refs 0 d = 2"
proof -
  let ?d1 = "needingStart\<lparr>dl_loading := (dl_loading needingStart)(''a.so'' := True)\<rparr>" and ?v = "(\<lambda>_. False)(''a.so'' := True)"
  let ?D = "\<lambda>p s. loadPath 1 needingHost p s 1 ?v"
  have good: "good_cache needingHost ?d1" by (simp add: needingStart_def initialDl_def initial_cache_ok)
  have check: "checkLoadingCache ''a.so'' needingStart = (Ok None, ?d1)"
    by (simp add: checkLoadingCache_def needingStart_def initialDl_def)
  have ps: "Parse (hs_newFile needingHost) (fl_read (hs_files needingHost)) ''a.so'' = Ok needingParsed"
    by (simp add: needingHost_simps needing_Parse)
  obtain c where s: "attempt (onCache (findLibrary (hs_files needingHost) ''/b'' [] [])) ?d1 =
      (Ok (Some ''/b'') :: (dl_error, string option) result, caching c ?d1)"
    using search_run[OF good, of "''/b''" "[]" "[]"] needing_found by auto
  let ?d2 = "updateLib 0 (addRef 1) (caching c ?d1)"
  have "?D ''/b'' ''/b'' (caching c ?d1) = (Ok (Some 0), ?d2)"
    by (simp add: checkLoadingCache_def bindS_def retS_def needingStart_def initialDl_def)
  then have deps: "loadDependencies needingHost ?D needingParsed ?v ?d1 = (Ok (), ?d2)"
    using s by (simp add: loadDependencies_steps depStep_def needingParsed_def demoParsed_def bindS_def retS_def attempt_def)
  obtain obj w where l: "loadAs needingHost ''a.so'' ?d2 = (Ok obj, w)"
    using needing_Load by (simp add: needingHost_simps needingStart_def initialDl_def) blast
  have "loadPath (Suc 1) needingHost ''a.so'' ''a.so'' 0 (\<lambda>_. False) needingStart =
      bindS (registerLibrary ''a.so'' ''a.so'' obj 0) (\<lambda>i. retS (Some i)) (?d2\<lparr>dl_world := w\<rparr>)"
    using loadPath_fresh[of "\<lambda>_. False" "''a.so''" needingStart ?d1, OF _ check ps deps] l by simp
  then show ?thesis
    by (simp add: registerLibrary_def Let_def bindS_def retS_def needingStart_def initialDl_def updateLib_def
        demoDefiner_def newObject_def numeral_2_eq_2)
qed


theorem Open_is_a_run_witness:
  "\<exists>d. Open 1 demoHost ''a.so'' [1] demoStart = (Ok (Some 0), d) \<and> dl_globals d = [0] \<and>
     (dl_step demoHost (fileDeps demoHost))\<^sup>*\<^sup>* (demoStart\<lparr>dl_cache := initialCache\<rparr>, [idle, idle])
       (d\<lparr>dl_cache := initialCache\<rparr>, [idle, idle])"
proof -
  obtain d where d: "Open 1 demoHost ''a.so'' [1] demoStart = (Ok (Some 0), d)" "dl_globals d = [0]"
    using demo_Open by blast
  have "cache_ok (fl_read (hs_files demoHost)) (dl_cache demoStart)" by (simp add: initialDl_def initial_cache_ok)
  from Open_is_a_run[OF this d(1), of initialCache "[]" "[idle]"] d show ?thesis by auto
qed

theorem dependencies_first_witness:
  "\<exists>d' d2 obj w. loadPath 2 needingHost ''a.so'' ''a.so'' 0 (\<lambda>_. False) needingStart = (Ok (Some 1), d') \<and>
     dl_loaded d2 ''/b'' = Some 0 \<and> loadAs needingHost ''a.so'' d2 = (Ok obj, w) \<and>
     registerLibrary ''a.so'' ''a.so'' obj 0 (d2\<lparr>dl_world := w\<rparr>) = (Ok 1, d')"
proof -
  let ?d1 = "needingStart\<lparr>dl_loading := (dl_loading needingStart)(''a.so'' := True)\<rparr>" and ?v = "(\<lambda>_. False)(''a.so'' := True)"
  obtain d' where "loadPath 2 needingHost ''a.so'' ''a.so'' 0 (\<lambda>_. False) needingStart = (Ok (Some 1), d')"
    using needing_loadPath by blast
  then have run: "loadPath (Suc 1) needingHost ''a.so'' ''a.so'' 0 (\<lambda>_. False) needingStart = (Ok (Some 1), d')"
    by (simp add: numeral_2_eq_2)
  have t: "dl_loaded needingStart ''a.so'' = None" "tables_ok {} needingStart"
    "cache_ok (fl_read (hs_files needingHost)) (dl_cache needingStart)"
    by (simp_all add: needingStart_def initialDl_def tables_ok_def initial_cache_ok)
  from dependencies_first[OF run _ t]
  obtain parsed d2 obj w where ps: "Parse (hs_newFile needingHost) (fl_read (hs_files needingHost)) ''a.so'' = Ok parsed"
    and l: "loadAs needingHost ''a.so'' d2 = (Ok obj, w)" "registerLibrary ''a.so'' ''a.so'' obj 0 (d2\<lparr>dl_world := w\<rparr>) = (Ok 1, d')"
    and b: "(\<exists>i<1. dl_loaded d2 ''/b'' = Some i) \<or> depFailed 1 needingHost parsed ?v ?d1 ''/b'' ''/b''"
    by (auto simp: needing_fileDeps)
  have "parsed = needingParsed" using ps by (simp add: needingHost_simps needing_Parse)
  then have "\<not> depFailed 1 needingHost parsed ?v ?d1 ''/b'' ''/b''"
    by (auto simp: depFailed_def needingParsed_def demoParsed_def Cons_eq_append_conv loadDependencies_steps checkLoadingCache_def
        st_defs needingStart_def initialDl_def)
  with b have "dl_loaded d2 ''/b'' = Some 0" by simp
  with run l show ?thesis by (auto simp: numeral_2_eq_2)
qed

end
