(* ===== verification/Dl_Sym.thy ===== *)
theory Dl_Sym
  imports Dl_Refine Loader_Symbols
begin

text \<open>
  \<open>Sym\<close> of \<open>dl/dl.go\<close> on a library that \<open>Open\<close> has loaded, from the symbol sections of the file to the address,
  and however the program goes on.
\<close>

unbundle bit_operations_syntax

text \<open>What a program may do after a state: open, look up and close libraries, and run native code.\<close>

inductive later :: "host \<Rightarrow> dl \<Rightarrow> dl \<Rightarrow> bool" for h d where
  here: "later h d d"
| opened: "later h d e \<Longrightarrow> Open n h name flags e = (r, e') \<Longrightarrow> later h d e'"
| looked_up: "later h d e \<Longrightarrow> Sym h l s e = (r, e') \<Longrightarrow> later h d e'"
| closed: "later h d e \<Longrightarrow> l < length (dl_libs e) \<Longrightarrow> Close h l e = (r, e') \<Longrightarrow> later h d e'"
| native_ran: "later h d e \<Longrightarrow> later h d (e\<lparr>dl_world := w\<rparr>)"

text \<open>The index of a library never changes.\<close>

definition has_index :: "nat \<Rightarrow> loaded_object \<Rightarrow> dl \<Rightarrow> bool" where
  "has_index l obj d \<longleftrightarrow> l < length (dl_libs d) \<and> same_index (lib_obj (dl_libs d ! l)) obj"

lemma has_index_updateLib: "has_index l obj d \<Longrightarrow> has_index l obj (updateLib i (addRef n) d)"
  by (cases "i = l") (auto simp: has_index_def updateLib_def addRef_def same_index_def)

lemma has_index_cong: "dl_libs e = dl_libs d \<Longrightarrow> has_index l obj d \<Longrightarrow> has_index l obj e"
  by (simp add: has_index_def)

interpretation index: dl_invariant h "has_index l obj" for h l obj
proof
  show "has_index l obj (snd (registerLibrary path soname o' flag d))" if "has_index l obj d" for d path soname o' flag
    using that by (simp add: has_index_def registerLibrary_def Let_def nth_append)
qed (auto intro: has_index_updateLib has_index_cong[rotated])

lemma index_Sym: "Sym h i s d = (r, d') \<Longrightarrow> has_index l obj d \<Longrightarrow> has_index l obj d'"
  by (auto simp: has_index_def Sym_def onWorld_def split: option.splits if_splits prod.splits)

lemma index_Close:
  assumes "i < length (dl_libs d)" and "Close h i d = (r, d')" and "has_index l obj d"
  shows "has_index l obj d'"
  using assms(2) has_index_updateLib[OF assms(3), of i "- 1"] assms(3) unfolding Close_run[OF assms(1)]
  by (auto simp: has_index_def split: if_splits prod.splits)

lemma later_index: "later h d e \<Longrightarrow> has_index l obj d \<Longrightarrow> has_index l obj e"
proof (induction rule: later.induct)
  case (opened e n name flags r e')
  show ?case by (rule keepsD[OF index.keeps_Open opened.IH[OF opened.prems] opened.hyps(2)])
qed (auto intro: index_Sym index_Close has_index_cong[rotated])

text \<open>A library that \<open>Open\<close> has not found in the table.\<close>

lemma Open_new:
  assumes "Open n h name flags d = (Ok (Some l), d')" and "dl_loaded d name = None"
    and "onCache (findLibrary (hs_files h) name [] []) d = (Ok path, d1)" and "dl_loaded d path = None"
  shows "\<exists>d2 obj w. loadAs h path d2 = (Ok obj, w) \<and> has_index l obj d'"
proof -
  obtain flag where run: "loadPath n h path name flag (\<lambda>_. False) d1 = (Ok (Some l), d')"
    using assms(1-3) by (auto simp: Open_def loadLib_def Let_def bindS_def mapErrS_def)
  have "dl_loaded d1 = dl_loaded d" using assms(3) by (auto simp: onCache_def split: prod.splits)
  then have none: "dl_loaded d1 path = None" using assms(4) by simp
  obtain k where n: "n = Suc k" using run by (cases n) (simp_all add: liftS_def)
  obtain d2 obj w where "loadAs h path d2 = (Ok obj, w)"
    and "registerLibrary path name obj flag (d2\<lparr>dl_world := w\<rparr>) = (Ok l, d')"
    using loadPath_new[OF run[unfolded n] _ none] by blast
  moreover from this(2) have "has_index l obj d'" by (auto simp: registerLibrary_def Let_def has_index_def)
  ultimately show ?thesis by blast
qed

section \<open>From the file to the address\<close>

text \<open>
  C1: What \<open>Sym\<close> returns. Take a library file, linked at 0, with the symbol and version sections a linker writes, and
  a call of \<open>Open\<close> that loads it. From then on, whatever the program opens, looks up, closes and runs, \<open>Sym\<close> on the
  handle gives, for every name, the load address plus the value of the definition the file exports under that name:
  the last global or weak one whose version is not hidden, or the first hidden one; for an indirect function what
  its resolver returns; and the error for a missing symbol if there is none.
\<close>

theorem Sym_of_file:
  assumes "os_ok (hs_os h) file" and "low_maps (hs_os h)"
    and "onCache (findLibrary (hs_files h) name [] []) d = (Ok path, d1)"
    and "dl_loaded d name = None" and "dl_loaded d path = None"
    and "parseAndOpen (hs_newFile h) (fl_read (hs_files h)) (hs_openFd h) path = Ok (parsed, fd)"
    and "loadable (hs_os h) (file fd) parsed" and "BaseVAddr parsed = 0" and "has_dynsyms (file fd) parsed x"
    and "Open n h name flags d = (Ok (Some l), d')" and "later h d' e"
  shows "let b = Base (lib_obj (dl_libs d' ! l)) in Sym h l s e =
    (case exported x s of
       None \<Rightarrow> (Err (SymbolMissing s), e)
     | Some y \<Rightarrow> if st_info y AND 0xf = 10 then onWorld (CallIfuncResolver (hs_native h) (b + st_value y)) e
                else (Ok (b + st_value y), e))"
proof -
  obtain d2 obj w where load: "loadAs h path d2 = (Ok obj, w)" and ix: "has_index l obj d'"
    using Open_new[OF assms(10,4,3,5)] by blast
  let ?b = "Base obj"
  have syms: "Symbols obj = indexOf parsed ?b x"
    by (rule Load_index[OF assms(1,2,6-9) load])
  have "has_index l obj e" by (rule later_index[OF assms(11) ix])
  then have e: "Symbols (lib_obj (dl_libs e ! l)) = indexOf parsed ?b x" by (simp add: has_index_def same_index_def syms)
  have b: "Base (lib_obj (dl_libs d' ! l)) = ?b" using ix by (simp add: has_index_def same_index_def)
  note X = indexOf_exported[OF assms(9), of ?b s]
  show ?thesis
  proof (cases "exported x s")
    case None
    with X show ?thesis by (simp add: Sym_def e)
  next
    case (Some y)
    with X obtain z where z: "Lookup (indexOf parsed ?b x) s = Some z" "sym_Value z = ?b + st_value y"
      "sym_Type z = ucast (st_info y AND 0xf)" by auto
    have "sym_Type z = STT_GNU_IFUNC \<longleftrightarrow> st_info y AND 0xf = 10"
      using unat_bound[of "st_info y AND 0xf"] by (simp add: z(3) word_unat_eq_iff unsigned_ucast_eq take_bit_nat_eq_self)
    with z Some show ?thesis by (simp add: Sym_def e b)
  qed
qed

section \<open>A library with two versions of a function\<close>

text \<open>The dynamic section, the symbols \<open>demoSyms\<close>, their names and their versions, one after the other from address 0.\<close>

definition verData :: bytes where
  "verData = [6, 0, 0, 0, 0, 0, 0, 0, 0x60, 0, 0, 0, 0, 0, 0, 0,
              5, 0, 0, 0, 0, 0, 0, 0, 0xA8, 0, 0, 0, 0, 0, 0, 0,
              10, 0, 0, 0, 0, 0, 0, 0, 3, 0, 0, 0, 0, 0, 0, 0,
              11, 0, 0, 0, 0, 0, 0, 0, 24, 0, 0, 0, 0, 0, 0, 0,
              0xF0, 0xFF, 0xFF, 0x6F, 0, 0, 0, 0, 0xAB, 0, 0, 0, 0, 0, 0, 0,
              0, 0, 0, 0, 0, 0, 0, 0, 0, 0, 0, 0, 0, 0, 0, 0]"

definition verBytes :: bytes where
  "verBytes = verData @ concat (map encSym demoSyms) @ [0, 102, 0] @ concat (map (\<lambda>v. le_enc 2 (unat v)) demoVersym)"

definition verSyms :: dynsyms where
  "verSyms = \<lparr>ds_syms = demoSyms, ds_strs = [0, 102, 0], ds_versym = Some demoVersym, ds_needs = [], ds_defs = []\<rparr>"

definition verLoad :: prog_header where
  "verLoad = demoLoad\<lparr>ph_Vaddr := 0, ph_Filesz := 0xB1, ph_Memsz := 0xB1\<rparr>"

definition verDyn :: prog_header where
  "verDyn = demoDyn\<lparr>ph_Vaddr := 0, ph_Filesz := 0x60, ph_Memsz := 0x60\<rparr>"

definition verElf :: elf_file where
  "verElf = demoElf\<lparr>ef_Progs := [verLoad, verDyn]\<rparr>"

definition verFs :: "string \<rightharpoonup> bytes" where
  "verFs = [''/a'' \<mapsto> verBytes]"

abbreviation (input) verTags :: "u64 \<rightharpoonup> u64" where
  "verTags \<equiv> [DT_SYMTAB \<mapsto> 0x60, DT_STRTAB \<mapsto> 0xA8, DT_STRSZ \<mapsto> 3, DT_SYMENT \<mapsto> 24, DT_VERSYM \<mapsto> 0xAB]"

definition verParsed :: parsed_object where
  "verParsed = demoParsed\<lparr>Path := ''/a'', File := verElf, BaseVAddr := 0, LoadSegments := [verLoad],
     DynamicSeg := Some verDyn, DynEntries := verTags, DynData := verData, DynVAddr := 0\<rparr>"

lemma ver_lengths [simp]: "length verData = 96" "length verBytes = 177"
  by (simp_all add: verData_def verBytes_def demoSyms_def demoVersym_def)

lemma ver_Parse: "Parse (\<lambda>_. Some verElf) verFs ''/a'' = Ok verParsed"
proof -
  have c: "collectProgramHeaders verElf (newParsedObject ''/a'' verElf) =
    Ok ((newParsedObject ''/a'' verElf)\<lparr>LoadSegments := [verLoad], DynamicSeg := Some verDyn\<rparr>, 0, 0xB1)"
    by (simp add: collectProgramHeaders_def validateRequiredSegments_def newParsedObject_def verElf_def verLoad_def verDyn_def
        demoLoad_def demoDyn_def validatePTLoad_def updateAddressRange_def)
  let ?o2 = "(newParsedObject ''/a'' verElf)\<lparr>LoadSegments := [verLoad], DynamicSeg := Some verDyn,
     BaseVAddr := 0, MemSize := 0x1000\<rparr>"
  let ?o3 = "?o2\<lparr>DynVAddr := 0, DynData := verData, DynEntries := verTags\<rparr>"
  have h: "validateELFHeader verElf ''/a'' = Ok ()"
    by (simp add: validateELFHeader_def verElf_def demoElf_def)
  have m: "PageAlign 0xB1 = 0x1000" by (simp add: PageAlign_def)
  have got: "ReadAt verBytes 96 0 = Ok verData" by (simp add: ReadAt_def verBytes_def)
  have loop: "dynLoop verData Map.empty = (verTags, True)"
    by (simp add: dynLoop.simps Uint64_def le_word_def verData_def fun_eq_iff)
  have tab: "dynTable verData = [(DT_SYMTAB, 0x60), (DT_STRTAB, 0xA8), (DT_STRSZ, 3), (DT_SYMENT, 24), (DT_VERSYM, 0xAB), (DT_NULL, 0)]"
    by (simp add: dynTable_def dynEntry_def Uint64_def le_word_def verData_def upt_conv_Cons)
  have v: "validateDynEntries ?o3 = Ok ()"
    by (simp add: validateDynEntries_def validateAddressTags_def addressTags_def validateAddressTag_def
        validateSizeTags_def validateSizeTag_def)
  have r: "readDynamicSection verBytes ?o2 = Ok ?o3"
    using v by (simp add: readDynamicSection_def verDyn_def demoDyn_def makeBytes_def got loop)
  have s: "resolveStringReferences verBytes verElf ?o3 = Ok ?o3"
    by (simp add: resolveStringReferences_def verElf_def demoElf_def verLoad_def demoLoad_def makeBytes_def ReadAt_def
        extractNeededLibraries_def neededLoop_spec dynLive_def tab extractRunpathAndRpath_def
        newParsedObject_def)
  have "Parse (\<lambda>_. Some verElf) verFs ''/a'' = Ok ?o3"
    using r s h by (simp add: Parse_def openAndValidateELF_def verFs_def parseHeadersAndLayout_def
       c calculateMemoryLayout_def m)
  then show ?thesis by (simp add: verParsed_def demoParsed_def newParsedObject_def)
qed

lemma ver_loadable: "loadable (demoOs verBytes) verBytes verParsed"
  by (simp add: loadable_def vspan_ok_def verParsed_def demoParsed_def verLoad_def demoLoad_def memSpan_def pageUp_def pageDown_def)

lemma ver_dynsyms: "has_dynsyms verBytes verParsed verSyms"
proof -
  have cut: "take 72 (drop 96 verBytes) = concat (map encSym demoSyms)" "take 3 (drop 168 verBytes) = [0, 102, 0]"
    "take 6 (drop 171 verBytes) = concat (map (\<lambda>v. le_enc 2 (unat v)) demoVersym)"
    by (simp_all add: verBytes_def demoSyms_def demoVersym_def)
  have len: "length (concat (map encSym demoSyms)) = 72" "length (concat (map (\<lambda>v. le_enc 2 (unat v)) demoVersym)) = 6"
    "length demoSyms = 3" "length demoVersym = 3"
    by (simp_all add: demoSyms_def demoVersym_def)
  have segs: "LoadSegments verParsed = [verLoad]" "DynEntries verParsed = verTags" by (simp_all add: verParsed_def)
  have ph: "ph_Flags verLoad AND 4 \<noteq> 0" "ph_Vaddr verLoad = 0" "ph_Filesz verLoad = 0xB1" "ph_Off verLoad = 0"
    by (simp_all add: verLoad_def demoLoad_def)
  have "demoSyms \<noteq> []" by (simp add: demoSyms_def)
  then show ?thesis
    unfolding has_dynsyms_def verSyms_def dynsyms.simps option.case
    by (simp add: section_at_def counted_section_def file_holds_def data_in_def segs ph cut[folded numeral_3_eq_3] cut[unfolded numeral_3_eq_3] len)
qed

lemma ver_Load:
  "\<exists>obj w. Load (demoOs verBytes) demoNative amd64Codes (\<lambda>_. Some verElf) verFs [''/a'' \<mapsto> 3] ''/a'' rs
     (initialWorld emptyMem) = (Ok obj, w) \<and> Base obj = 0x100000"
proof -
  let ?os = "demoOs verBytes" and ?b = "0x100000 :: u64" and ?w = "initialWorld emptyMem"
  let ?o1 = "mappedObject ?os verParsed ?b"
  let ?o2 = "?o1\<lparr>SymtabAddr := ?b + 0x60, StrtabAddr := ?b + 0xA8, StrtabSize := 3\<rparr>"
  let ?o3 = "?o2\<lparr>SymtabSize := 24 * of_nat (length (ds_syms verSyms)), Symbols := indexOf verParsed ?b verSyms\<rparr>"
  have pao: "parseAndOpen (\<lambda>_. Some verElf) verFs [''/a'' \<mapsto> 3] ''/a'' = Ok (verParsed, 3)"
    by (simp add: parseAndOpen_def ver_Parse)
  have free: "freeAt \<lparr>mbytes = \<lambda>_. 0, mprot = \<lambda>_. None\<rparr> a n" for a n by (simp add: freeAt_def list_all_iff)
  have "\<exists>m1 o1 m2. MapAnon ?os (MemSize verParsed) 0 emptyMem = (Ok ?b, m1) \<and>
      mapSegments ?os 3 verParsed (newObject verParsed ?b) m1 = (Ok o1, m2)"
    by (simp add: MapAnon_def Map_def demoMmap_def free mapSegments_def verParsed_def demoParsed_def mapSegment_def Let_def
        pageDown_def pageUp_def verLoad_def demoLoad_def elfProt_def computeMapProt_def mapFileRegion_def mapBSSRegion_def st_defs
        MapFixed_def newObject_def pages4096_def emptyMem_def)
  then obtain m1 o1 m2 where res: "MapAnon ?os (MemSize verParsed) 0 emptyMem = (Ok ?b, m1)"
    and map: "mapSegments ?os 3 verParsed (newObject verParsed ?b) m1 = (Ok o1, m2)" by blast
  have sz: "MemSize verParsed = 0x1000" by (simp add: verParsed_def demoParsed_def)
  have top: "?b \<noteq> 0" "unat ?b + pages ?os (MemSize verParsed) < 2 ^ 63" by (simp_all add: sz pages_def pageUp_def)
  from mapSegments_reserved[OF demoOs_ok ver_loadable top map]
  have o1: "o1 = ?o1" and img: "list_all (\<lambda>ph. segment_image ?os verBytes (mapStart ?os ?b verParsed ph) ph m2) (LoadSegments verParsed)"
    by simp_all
  have base: "BaseVAddr verParsed = 0" by (simp add: verParsed_def)
  have im: "image_at ?os verBytes verParsed ?b m2"
    using img ver_loadable demoOs_ok[of verBytes] by (simp add: image_at_def base sz os_ok_def)
  have tags: "populateDynamicTags m2 (DynEntries verParsed) (\<lambda>v. ?b + (v - BaseVAddr verParsed)) ?o1 = Ok ?o2"
    by (simp add: populateDynamicTags_def populateRelocationTags_def populateSymbolTags_def extractRelocationAddresses_def
        ifTag_def validateRelocationTables_def populateInitFiniTags_def populateInitTags_def populateFiniTags_def
        populateSoname_def Let_def verParsed_def newObject_def)
  have "symbolFields ?o2 = (?b + 0x60, ?b + 0xA8, of_nat (length (ds_strs verSyms)), NewTable ?b)"
    by (simp add: symbolFields_def newObject_def verSyms_def)
  note init = initializeSymbolTable_image[OF im ver_dynsyms _ _ this]
  have t: "DynEntries verParsed DT_SYMTAB = Some 0x60" "DynEntries verParsed DT_STRTAB = Some 0xA8" "TLSSeg verParsed = None"
    by (simp_all add: verParsed_def demoParsed_def)
  have "populateObject ?os verParsed o1 (?w\<lparr>w_mem := m2\<rparr>) = (Ok ?o3, ?w\<lparr>w_mem := m2\<rparr>)"
    unfolding o1 populateObject_def Let_def
    using tags init[OF t(1,2)] by (simp add: readMem_run newObject_simps st_defs setupTLS_def t(3))
  then have c: "createAndMapObject ?os verParsed 3 ?w = (Ok ?o3, ?w\<lparr>w_mem := m2\<rparr>)"
    using res map by (simp add: createAndMapObject_def bindS_def mapErrS_def onMem_def orElse_def initialWorld_def)
  have "finalizeObject ?os demoNative amd64Codes rs verParsed ?o3 w = (Ok ?o3, w)" for w
    by (simp add: finalizeObject_def processRelocations_def applyRelaTable_def applyRELROProtection_def runConstructors_def
        runInitArray_def st_defs newObject_def verParsed_def demoParsed_def)
  with c pao show ?thesis by (simp add: Load_def bindS_def liftS_def orElse_def newObject_simps)
qed

definition verHost :: host where
  "verHost = demoHost\<lparr>hs_os := demoOs verBytes, hs_newFile := (\<lambda>_. Some verElf),
     hs_files := \<lparr>fl_read = verFs, fl_stat = (\<lambda>p. p = ''/a''), fl_LD_LIBRARY_PATH = []\<rparr>, hs_openFd := [''/a'' \<mapsto> 3]\<rparr>"

lemma verHost_simps:
  "hs_os verHost = demoOs verBytes" "hs_native verHost = demoNative" "hs_codes verHost = amd64Codes"
  "hs_newFile verHost = (\<lambda>_. Some verElf)" "fl_read (hs_files verHost) = verFs" "hs_openFd verHost = [''/a'' \<mapsto> 3]"
  by (simp_all add: verHost_def demoHost_def)

lemma ver_search: "\<exists>c. onCache (findLibrary (hs_files verHost) ''/a'' [] []) demoStart = (Ok ''/a'', demoStart\<lparr>dl_cache := c\<rparr>)"
proof (rule onCache_search_again)
  show "cache_ok (fl_read (hs_files verHost)) (dl_cache demoStart)" by (simp add: initialDl_def initial_cache_ok)
  show "foundAt verHost ''/a'' [] [] ''/a''"
    using findLibrary_run[OF initial_cache_ok, of "hs_files verHost" "''/a''" "[]" "[]"] by (simp add: foundAt_def verHost_def)
qed

lemma ver_Open:
  "\<exists>d. Open 1 verHost ''/a'' [] demoStart = (Ok (Some 0), d) \<and> Base (lib_obj (dl_libs d ! 0)) = 0x100000 \<and> 0 < length (dl_libs d)"
proof -
  obtain c where f: "onCache (findLibrary (hs_files verHost) ''/a'' [] []) demoStart = (Ok ''/a'', demoStart\<lparr>dl_cache := c\<rparr>)"
    using ver_search by blast
  let ?d = "demoStart\<lparr>dl_cache := c, dl_loading := (\<lambda>_. False)(''/a'' := True)\<rparr>"
  obtain obj w where l: "Load (demoOs verBytes) demoNative amd64Codes (\<lambda>_. Some verElf) verFs [''/a'' \<mapsto> 3] ''/a''
      (Some (globalResolver verHost ?d)) (initialWorld emptyMem) = (Ok obj, w)" and b: "Base obj = 0x100000"
    using ver_Load by blast
  have n: "Needed verParsed = []" by (simp add: verParsed_def demoParsed_def)
  have "Open 1 verHost ''/a'' [] demoStart = bindS (registerLibrary ''/a'' ''/a'' obj 0) (\<lambda>i. retS (Some i)) (?d\<lparr>dl_world := w\<rparr>)"
    using f l by (simp add: Open_def loadLib_def Let_def verHost_simps n st_defs orElse_def checkLoadingCache_def liftS_def
        ver_Parse loadDependencies_def onWorld_def initialDl_def)
  then show ?thesis using b by (simp add: registerLibrary_def Let_def initialDl_def bindS_def retS_def)
qed

lemma chr_f: "chr 102 = CHR ''f''"
  by code_simp

lemma ver_exported: "exported verSyms ''f'' = Some (demoSyms ! 1)" "exported verSyms ''g'' = None"
  by (simp_all add: exported_def verSyms_def demoSyms_def demoVersym_def raws_def nameAt_def eligible_def upt_conv_Cons
      pick_def nonzero_def chr_f)

theorem Sym_of_file_witness:
  "\<exists>d r d2. Open 1 verHost ''/a'' [] demoStart = (Ok (Some 0), d) \<and> Close verHost 0 d = (r, d2) \<and>
     Sym verHost 0 ''f'' d = (Ok 0x100100, d) \<and> Sym verHost 0 ''g'' d2 = (Err (SymbolMissing ''g''), d2)"
proof -
  obtain d where d: "Open 1 verHost ''/a'' [] demoStart = (Ok (Some 0), d)" and b: "Base (lib_obj (dl_libs d ! 0)) = 0x100000"
    and n: "0 < length (dl_libs d)"
    using ver_Open by blast
  obtain c where f: "onCache (findLibrary (hs_files verHost) ''/a'' [] []) demoStart = (Ok ''/a'', demoStart\<lparr>dl_cache := c\<rparr>)"
    using ver_search by blast
  have none: "dl_loaded demoStart ''/a'' = None" by (simp add: initialDl_def)
  have os: "os_ok (hs_os verHost) (\<lambda>_. verBytes)" "low_maps (hs_os verHost)" "loadable (hs_os verHost) verBytes verParsed"
    by (simp_all add: verHost_simps demoOs_ok demoOs_low ver_loadable)
  have pao: "parseAndOpen (hs_newFile verHost) (fl_read (hs_files verHost)) (hs_openFd verHost) ''/a'' = Ok (verParsed, 3)"
    by (simp add: parseAndOpen_def ver_Parse verHost_simps)
  have base: "BaseVAddr verParsed = 0" by (simp add: verParsed_def)
  note found = Sym_of_file[OF os(1,2) f none none pao os(3) base ver_dynsyms d, unfolded b Let_def]
  have "st_info (demoSyms ! 1) = 0x12" "st_value (demoSyms ! 1) = 0x100" by (simp_all add: demoSyms_def)
  with found[OF later.here, of "''f''"] have "Sym verHost 0 ''f'' d = (Ok 0x100100, d)" by (simp add: ver_exported)
  moreover obtain r d2 where c: "Close verHost 0 d = (r, d2)" by fastforce
  have "later verHost d d2" by (rule later.closed[OF later.here n c])
  from found[OF this, of "''g''"] have "Sym verHost 0 ''g'' d2 = (Err (SymbolMissing ''g''), d2)" by (simp add: ver_exported)
  ultimately show ?thesis using d c by blast
qed

end
