(* ===== verification/Pgldd.thy ===== *)
theory Pgldd
  imports Dl_Life
begin

text \<open>
  \<open>cmd/pgldd/main.go\<close>: the tool opens the library named by its first argument, writes the listing of its
  symbols and closes it. The result is the exit code and what goes to standard output; the flag package hands
  over the arguments. \<open>order\<close> is the iteration order of the symbol map. The result of the deferred \<open>Close\<close> is
  not looked at.
\<close>

definition main :: "nat \<Rightarrow> host \<Rightarrow> (loaded_object \<Rightarrow> string list) \<Rightarrow> string list \<Rightarrow> (dl, dl_error, nat \<times> string) st" where
  "main n h order args = (\<lambda>d.
     case args of
       [] \<Rightarrow> (Ok (1, []), d)
     | path # _ \<Rightarrow>
         (case Open n h path [] d of
            (Ok (Some l), d) \<Rightarrow>
              (let out = PrintSymbols (order (lib_obj (dl_libs d ! l))) (lib_obj (dl_libs d ! l))
               in bindS (attempt (Close h l)) (\<lambda>_. retS (0, out)) d)
          | (Ok None, d) \<Rightarrow> (Panic NilPointer, d)
          | (Err e, d) \<Rightarrow> (Ok (1, []), d)
          | (Panic p, d) \<Rightarrow> (Panic p, d)
          | (Hang, d) \<Rightarrow> (Hang, d)))"

lemma loadPath_never_nil:
  "\<not> visiting path \<Longrightarrow> loadPath n h path soname flag visiting d \<noteq> (Ok None, d')"
  by (cases n)
     (auto simp: checkLoadingCache_def st_Ok liftS_def Let_def dest: sym[of "(_, _)"] split: option.splits if_splits)

text \<open>The tool never meets a nil library: \<open>Open\<close> gives one only for a file on its own call stack.\<close>

lemma main_no_nil: "Open n h path flags d \<noteq> (Ok None, d')"
  using loadPath_never_nil[of "\<lambda>_. False"]
  by (auto simp: Open_def loadLib_def Let_def st_Ok split: option.splits)

text \<open>
  The tool prints the sorted symbols of the library it opened; what it had to load for it, it gives back: the
  library it was first to open is in no table when it ends.
\<close>

lemma main_prints:
  assumes "Open n h path [] d = (Ok (Some l), d1)" and "l < length (dl_libs d1)" and "RefCount (lib_obj (dl_libs d1 ! l)) = 1"
    and "distinct (order (lib_obj (dl_libs d1 ! l)))"
    and "set (order (lib_obj (dl_libs d1 ! l))) = dom (t_symbols (Symbols (lib_obj (dl_libs d1 ! l))))"
    and "main n h order (path # rest) d = (Ok (code, out), d2)"
  shows "code = 0 \<and> out = concat (map (\<lambda>n. listingLine (n, the (Lookup (Symbols (lib_obj (dl_libs d1 ! l))) n)))
      (sorted_list_of_set (dom (t_symbols (Symbols (lib_obj (dl_libs d1 ! l))))))) \<and> (\<forall>k. dl_loaded d2 k \<noteq> Some l)"
proof -
  have "\<exists>r. Close h l d1 = (r, d2)" and o: "code = 0" "out = PrintSymbols (order (lib_obj (dl_libs d1 ! l))) (lib_obj (dl_libs d1 ! l))"
    using assms(1,6) by (auto simp: main_def Let_def bindS_def attempt_def retS_def split: prod.splits result.splits)
  then obtain r where "Close h l d1 = (r, d2)" by blast
  then have "\<forall>k. dl_loaded d2 k \<noteq> Some l"
    using assms(3) unfolding Close_run[OF assms(2)] by (auto split: prod.splits if_splits)
  with o PrintSymbols_sorted[OF assms(4,5)] show ?thesis by simp
qed

end
